(* ===== verification/Prelude.thy ===== *)
theory Prelude
  imports Main "HOL-Library.Word" "HOL-Library.AList" "HOL-Library.Multiset"
begin

text \<open>
  The shared vocabulary of the development: the machine integers of the crate, the
  standard library's \<^verbatim>\<open>HashMap\<close> as an association list with distinct keys, the two
  container interfaces (a map store and a first-in-first-out queue) as locales with the
  lemmas their clients share, and the collections of facts the components add to.

  A \<^verbatim>\<open>HashMap\<close> iterates its keys in an order the standard library does not specify.
  Where the code iterates over \<^verbatim>\<open>keys()\<close>, the model takes the order as a parameter:
  a function that permutes the list of keys (see \<open>permutes_keys\<close>).
\<close>

section \<open>Machine integers and collections of facts\<close>

type_synonym u64 = "64 word"
type_synonym usize = "64 word"

named_theorems sched_defs \<open>unfolding rules of the scheduler's operations\<close>
named_theorems world_simps \<open>rewriting of the shared world of channels, replies and counters\<close>
named_theorems inv_intros \<open>preservation of the components' invariants\<close>

text \<open>
  \<^verbatim>\<open>a + b\<close> on a machine integer: with overflow checks (the debug profile) an overflow
  panics, which is \<open>None\<close>; without them (the release profile) it wraps.
\<close>

definition add_profile :: "bool \<Rightarrow> 'a::len word \<Rightarrow> 'a word \<Rightarrow> 'a word option" where
  "add_profile overflow_checks a b =
     (if overflow_checks \<and> a + b < a then None else Some (a + b))"

lemma unat_plus_one:
  assumes "Suc (unat (a :: 'a::len word)) < 2 ^ LENGTH('a)"
  shows "unat (a + 1) = Suc (unat a)"
  using assms by (simp add: unat_word_ariths)

lemma add_profile_small:
  assumes "Suc (unat (a :: 'a::len word)) < 2 ^ LENGTH('a)"
  shows "add_profile oc a 1 = Some (a + 1)"
  using assms by (simp add: add_profile_def word_less_nat_alt unat_plus_one)

section \<open>The map store interface\<close>

locale map_store =
  fixes empty :: "'m"
    and insert :: "'k \<Rightarrow> 'v \<Rightarrow> 'm \<Rightarrow> 'm"
    and remove :: "'k \<Rightarrow> 'm \<Rightarrow> 'm"
    and get :: "'m \<Rightarrow> 'k \<Rightarrow> 'v option"
    and keys :: "'m \<Rightarrow> 'k list"
    and invar :: "'m \<Rightarrow> bool"
  assumes get_empty: "get empty k = None"
    and get_insert: "get (insert k v m) k' = (if k' = k then Some v else get m k')"
    and get_remove: "invar m \<Longrightarrow> get (remove k m) k' = (if k' = k then None else get m k')"
    and set_keys: "set (keys m) = {k. get m k \<noteq> None}"
    and invar_empty: "invar empty"
    and invar_insert: "invar m \<Longrightarrow> invar (insert k v m)"
    and invar_remove: "invar m \<Longrightarrow> invar (remove k m)"
    and distinct_keys: "invar m \<Longrightarrow> distinct (keys m)"
begin

lemma keys_Nil_iff: "keys m = [] \<longleftrightarrow> (\<forall>k. get m k = None)"
proof -
  have "keys m = [] \<longleftrightarrow> set (keys m) = {}" by simp
  then show ?thesis by (auto simp: set_keys)
qed

lemma invar_fold_remove: "invar m \<Longrightarrow> invar (fold remove ks m)"
  by (induction ks arbitrary: m) (auto intro: invar_remove)

lemma get_fold_remove:
  "invar m \<Longrightarrow> get (fold remove ks m) k = (if k \<in> set ks then None else get m k)"
  by (induction ks arbitrary: m) (auto simp: get_remove invar_remove)

lemma fold_remove_all_keys:
  assumes "invar m" and "set ks = set (keys m)"
  shows "keys (fold remove ks m) = []"
  using assms by (auto simp: keys_Nil_iff get_fold_remove set_keys)

lemma keys_remove_subset: "invar m \<Longrightarrow> set (keys (remove k m)) = set (keys m) - {k}"
  by (auto simp: set_keys get_remove split: if_splits)

lemma keys_insert: "set (keys (insert k v m)) = Set.insert k (set (keys m))"
  by (auto simp: set_keys get_insert split: if_splits)

end

section \<open>HashMap as an association list\<close>

type_synonym ('k, 'v) hashmap = "('k \<times> 'v) list"

definition hm_new :: "('k, 'v) hashmap" where
  "hm_new = []"

definition hm_insert :: "'k \<Rightarrow> 'v \<Rightarrow> ('k, 'v) hashmap \<Rightarrow> ('k, 'v) hashmap" where
  "hm_insert k v m = AList.update k v m"

definition hm_remove :: "'k \<Rightarrow> ('k, 'v) hashmap \<Rightarrow> ('k, 'v) hashmap" where
  "hm_remove k m = AList.delete k m"

definition hm_get :: "('k, 'v) hashmap \<Rightarrow> 'k \<Rightarrow> 'v option" where
  "hm_get m k = map_of m k"

definition hm_keys :: "('k, 'v) hashmap \<Rightarrow> 'k list" where
  "hm_keys m = map fst m"

definition hm_wf :: "('k, 'v) hashmap \<Rightarrow> bool" where
  "hm_wf m \<longleftrightarrow> distinct (map fst m)"

lemmas hm_defs = hm_new_def hm_insert_def hm_remove_def hm_get_def hm_keys_def hm_wf_def

interpretation hm: map_store hm_new hm_insert hm_remove hm_get hm_keys hm_wf
proof (unfold_locales, goal_cases)
  case 4
  show ?case by (auto simp: hm_defs map_of_eq_None_iff dom_map_of_conv_image_fst)
qed (auto simp: hm_defs update_conv delete_conv distinct_update distinct_delete)

lemma hm_get_new [simp]: "hm_get hm_new k = None"
  by (rule hm.get_empty)

lemma hm_get_insert [simp]: "hm_get (hm_insert k v m) k' = (if k' = k then Some v else hm_get m k')"
  by (rule hm.get_insert)

lemma hm_get_remove [simp]:
  "hm_get (hm_remove k m) k' = (if k' = k then None else hm_get m k')"
  by (simp add: hm_defs delete_conv)

lemma hm_wf_intros [simp, intro]:
  "hm_wf hm_new" "hm_wf m \<Longrightarrow> hm_wf (hm_insert k v m)" "hm_wf m \<Longrightarrow> hm_wf (hm_remove k m)"
  by (simp_all add: hm.invar_empty hm.invar_insert hm.invar_remove)

lemma set_hm_keys: "set (hm_keys m) = {k. hm_get m k \<noteq> None}"
  by (rule hm.set_keys)

lemma hm_keys_mem [simp]: "k \<in> set (hm_keys m) \<longleftrightarrow> (\<exists>v. hm_get m k = Some v)"
  by (simp add: set_hm_keys)

text \<open>An iteration order of a \<^verbatim>\<open>HashMap\<close>: any permutation of the list of keys.\<close>

definition permutes_keys :: "('k list \<Rightarrow> 'k list) \<Rightarrow> bool" where
  "permutes_keys order \<longleftrightarrow> (\<forall>ks. mset (order ks) = mset ks)"

lemma permutes_keys_id: "permutes_keys id" and permutes_keys_rev: "permutes_keys rev"
  by (simp_all add: permutes_keys_def)

lemma permutes_keys_set: "permutes_keys order \<Longrightarrow> set (order ks) = set ks"
  unfolding permutes_keys_def by (metis set_mset_mset)

lemma permutes_keys_distinct: "permutes_keys order \<Longrightarrow> distinct (order ks) = distinct ks"
  unfolding permutes_keys_def by (metis mset_eq_imp_distinct_iff)

section \<open>The queue interface\<close>

text \<open>
  What the code relies on of a \<^verbatim>\<open>VecDeque\<close> mailbox and of an mpsc channel: elements leave
  in the order in which they were added, and none is lost or invented.
\<close>

locale fifo =
  fixes push_back :: "'a \<Rightarrow> 'q \<Rightarrow> 'q"
    and pop_front :: "'q \<Rightarrow> 'a option \<times> 'q"
    and contents :: "'q \<Rightarrow> 'a list"
    and invar :: "'q \<Rightarrow> bool"
  assumes contents_push: "invar q \<Longrightarrow> contents (push_back x q) = contents q @ [x]"
    and pop_empty: "contents q = [] \<Longrightarrow> pop_front q = (None, q)"
    and pop_value: "contents q = x # xs \<Longrightarrow> fst (pop_front q) = Some x"
    and pop_rest: "contents q = x # xs \<Longrightarrow> contents (snd (pop_front q)) = xs"
    and invar_push: "invar q \<Longrightarrow> invar (push_back x q)"
    and invar_pop: "invar q \<Longrightarrow> invar (snd (pop_front q))"
begin

text \<open>Pushing a list of elements, and taking up to \<open>n\<close> elements from the front.\<close>

primrec push_all :: "'a list \<Rightarrow> 'q \<Rightarrow> 'q" where
  "push_all [] q = q"
| "push_all (x # xs) q = push_all xs (push_back x q)"

primrec take_front :: "nat \<Rightarrow> 'q \<Rightarrow> 'a list \<times> 'q" where
  "take_front 0 q = ([], q)"
| "take_front (Suc n) q =
     (case pop_front q of
        (None, q') \<Rightarrow> ([], q')
      | (Some x, q') \<Rightarrow> (case take_front n q' of (xs, q'') \<Rightarrow> (x # xs, q'')))"

lemma contents_push_all: "invar q \<Longrightarrow> contents (push_all xs q) = contents q @ xs"
  by (induction xs arbitrary: q) (auto simp: contents_push invar_push)

lemma take_front_contents:
  "fst (take_front n q) = take n (contents q) \<and> contents (snd (take_front n q)) = drop n (contents q)"
proof (induction n arbitrary: q)
  case (Suc n)
  show ?case
  proof (cases "contents q")
    case Nil
    then show ?thesis by (simp add: pop_empty)
  next
    case (Cons x xs)
    with pop_value[OF Cons] pop_rest[OF Cons] Suc.IH[of "snd (pop_front q)"] show ?thesis
      by (auto split: prod.splits)
  qed
qed simp

text \<open>First in, first out, nothing lost: what was pushed comes back in order.\<close>

lemma take_after_push_all:
  assumes "invar q" and "contents q = []"
  shows "fst (take_front (length xs) (push_all xs q)) = xs"
  using assms by (simp add: take_front_contents contents_push_all)

lemma pop_push_nonempty:
  assumes "invar q" and "contents q = x # xs"
  shows "fst (pop_front (push_back y q)) = Some x"
    and "contents (snd (pop_front (push_back y q))) = xs @ [y]"
  using assms contents_push[of q y] pop_value[of "push_back y q" x "xs @ [y]"]
    pop_rest[of "push_back y q" x "xs @ [y]"] by auto

end

text \<open>A \<^verbatim>\<open>VecDeque\<close> is a list: \<^verbatim>\<open>push_back\<close> appends, \<^verbatim>\<open>pop_front\<close> takes the head.\<close>

definition vd_push_back :: "'a \<Rightarrow> 'a list \<Rightarrow> 'a list" where
  "vd_push_back x q = q @ [x]"

definition vd_pop_front :: "'a list \<Rightarrow> 'a option \<times> 'a list" where
  "vd_pop_front q = (case q of [] \<Rightarrow> (None, []) | x # xs \<Rightarrow> (Some x, xs))"

interpretation vd: fifo vd_push_back vd_pop_front "\<lambda>q. q" "\<lambda>_. True"
  by unfold_locales (auto simp: vd_push_back_def vd_pop_front_def)

lemma vd_pop_front_simps [simp]:
  "vd_pop_front [] = (None, [])" "vd_pop_front (x # xs) = (Some x, xs)"
  by (simp_all add: vd_pop_front_def)

section \<open>Lists\<close>

lemma filter_neq_not_mem [simp]: "x \<notin> set xs \<Longrightarrow> filter (\<lambda>y. y \<noteq> x) xs = xs"
  by (induction xs) auto

lemma nth_list_update_lt:
  "j < length xs \<Longrightarrow> xs[i := x] ! j = (if i = j then x else xs ! j)"
  by (cases "i = j") auto

lemma in_set_tlD: "x \<in> set (tl xs) \<Longrightarrow> x \<in> set xs"
  by (cases xs) auto

end
