(* ===== verification/Actor.thy ===== *)
theory Actor
  imports Prelude
begin

text \<open>
  The identities and data that the rest of the crate passes around: \<^verbatim>\<open>ActorId\<close> and its
  allocation counter (\<^verbatim>\<open>src/actor.rs\<close>), the error of a failed send (\<^verbatim>\<open>src/addr.rs\<close>), and the
  type-erased \<^verbatim>\<open>Envelope\<close> (\<^verbatim>\<open>src/envelope.rs\<close>). The allocation counters of the crate share one
  interface, the locale \<open>id_source\<close>, which says when the ids they hand out are distinct.
\<close>

section \<open>ActorId\<close>

datatype actor_id = ActorId (raw: u64)

definition from_raw :: "u64 \<Rightarrow> actor_id" where
  "from_raw i = ActorId i"

text \<open>Ids are compared by their number where an invariant speaks of the ids handed out so far.\<close>

instantiation actor_id :: linorder
begin

definition less_eq_actor_id :: "actor_id \<Rightarrow> actor_id \<Rightarrow> bool" where
  "less_eq_actor_id a b \<longleftrightarrow> raw a \<le> raw b"

definition less_actor_id :: "actor_id \<Rightarrow> actor_id \<Rightarrow> bool" where
  "less_actor_id a b \<longleftrightarrow> raw a < raw b"

instance
  by standard (auto simp: less_eq_actor_id_def less_actor_id_def intro: actor_id.expand)

end

lemma ActorId_less [simp]: "ActorId a < ActorId b \<longleftrightarrow> a < b"
  by (simp add: less_actor_id_def)

lemma ActorId_less_eq [simp]: "ActorId a \<le> ActorId b \<longleftrightarrow> a \<le> b"
  by (simp add: less_eq_actor_id_def)

section \<open>Allocation counters\<close>

locale id_source =
  fixes alloc :: "'s \<Rightarrow> actor_id \<times> 's"
    and counter :: "'s \<Rightarrow> u64"
  assumes alloc_id: "fst (alloc s) = ActorId (counter s)"
    and alloc_step: "counter (snd (alloc s)) = counter s + 1"
begin

primrec alloc_many :: "nat \<Rightarrow> 's \<Rightarrow> actor_id list \<times> 's" where
  "alloc_many 0 s = ([], s)"
| "alloc_many (Suc n) s =
     (case alloc s of (i, s') \<Rightarrow> (case alloc_many n s' of (is, s'') \<Rightarrow> (i # is, s'')))"

lemma alloc_many_ids:
  "fst (alloc_many n s) = map (\<lambda>k. ActorId (counter s + of_nat k)) [0..<n]"
proof (induction n arbitrary: s)
  case (Suc n)
  obtain i s' where a: "alloc s = (i, s')" by (cases "alloc s")
  have "[0..<Suc n] = 0 # map Suc [0..<n]" by (simp add: map_Suc_upt upt_conv_Cons)
  then show ?case
    using a alloc_id[of s] alloc_step[of s] Suc.IH[of s']
    by (simp add: case_prod_beta comp_def ac_simps)
qed simp

lemma alloc_many_distinct:
  assumes "n \<le> 2 ^ 64"
  shows "distinct (fst (alloc_many n s))"
proof -
  have "inj_on (of_nat :: nat \<Rightarrow> u64) {0..<n}"
    using assms by (intro inj_onI) (simp add: word_of_nat_eq_iff take_bit_nat_def)
  then have "inj_on (\<lambda>k. ActorId (counter s + of_nat k)) {0..<n}"
    by (auto simp: inj_on_def)
  then show ?thesis by (simp add: alloc_many_ids distinct_map)
qed

text \<open>One more than \<open>2 ^ 64\<close> allocations and the first id comes back.\<close>

lemma alloc_many_wraps: "fst (alloc_many (Suc (2 ^ 64)) s) ! (2 ^ 64) = ActorId (counter s)"
  by (simp only: alloc_many_ids) (simp add: nth_append del: upt_Suc)

end

text \<open>
  \<^verbatim>\<open>ActorId::next\<close>: the static counter is threaded as the argument; \<^verbatim>\<open>fetch_add\<close> on an atomic
  wraps in every profile.
\<close>

definition actor_id_next :: "u64 \<Rightarrow> actor_id \<times> u64" where
  "actor_id_next counter = (ActorId counter, counter + 1)"

interpretation static_ids: id_source actor_id_next "\<lambda>c. c"
  by unfold_locales (simp_all add: actor_id_next_def)

section \<open>Display\<close>

text \<open>\<^verbatim>\<open>{}\<close> on an unsigned integer prints its decimal digits, without leading zeros.\<close>

definition digit_char :: "nat \<Rightarrow> char" where
  "digit_char d = char_of (48 + d)"

fun decimal :: "nat \<Rightarrow> string" where
  "decimal n = (if n < 10 then [digit_char n] else decimal (n div 10) @ [digit_char (n mod 10)])"

declare decimal.simps [simp del]

definition display_actor_id :: "actor_id \<Rightarrow> string" where
  "display_actor_id a = ''actor-'' @ decimal (unat (raw a))"

text \<open>
  Reading digits back, as \<^verbatim>\<open>str::parse::<u64>\<close> does on a string of digits: used to state that
  the printed form determines the id.
\<close>

definition char_digit :: "char \<Rightarrow> nat" where
  "char_digit c = of_char c - 48"

definition undecimal :: "string \<Rightarrow> nat" where
  "undecimal s = foldl (\<lambda>n c. 10 * n + char_digit c) 0 s"

definition parse_actor_id :: "string \<Rightarrow> actor_id option" where
  "parse_actor_id s =
     (if take 6 s = ''actor-'' \<and> undecimal (drop 6 s) < 2 ^ 64
      then Some (ActorId (of_nat (undecimal (drop 6 s)))) else None)"

lemma char_digit_inverse: "d < 10 \<Longrightarrow> char_digit (digit_char d) = d"
  by (simp add: char_digit_def digit_char_def of_char_of)

lemma undecimal_decimal: "undecimal (decimal n) = n"
proof (induction n rule: decimal.induct)
  case (1 n)
  show ?case
  proof (cases "n < 10")
    case True
    then show ?thesis
      by (subst decimal.simps) (simp add: undecimal_def char_digit_inverse)
  next
    case False
    with 1 have "undecimal (decimal (n div 10)) = n div 10" by simp
    with False show ?thesis
      by (subst decimal.simps) (simp add: undecimal_def char_digit_inverse)
  qed
qed

section \<open>Sending: errors and envelopes\<close>

datatype send_error = ActorNotRunning | RuntimeShutdown

text \<open>
  The scheduler never calls the closure an envelope carries, so its type is a parameter here;
  the closures of the crate are the constructors of \<open>dispatch_fn\<close> in theory \<open>Context\<close>.
\<close>

record 'd envelope =
  env_actor_id :: actor_id
  env_dispatch :: 'd

section \<open>Properties\<close>

text \<open>
  Printing an id and reading it back gives the id, for every one of the \<open>2 ^ 64\<close> ids;
  two actors never print alike.
\<close>

theorem display_roundtrip: "parse_actor_id (display_actor_id a) = Some a"
  using unsigned_less[of "raw a"]
  by (simp add: parse_actor_id_def display_actor_id_def undecimal_decimal)

end
