(* ===== verification/Channel.thy ===== *)
theory Channel
  imports Prelude
begin

text \<open>
  The channels of \<^verbatim>\<open>std::sync::mpsc\<close>, as far as the crate uses them: an unbounded queue, a count
  of live senders and whether the receiver is still alive. Sending fails once the receiver is
  gone; receiving reports a disconnect only when the queue is empty and no sender is left;
  dropping the receiver discards what is queued.
\<close>

record 'm chan =
  chan_queue :: "'m list"
  chan_senders :: nat
  chan_open :: bool

datatype 'm recv = Received 'm | Empty | Disconnected

text \<open>\<^verbatim>\<open>channel()\<close> returns one sender and the receiver.\<close>

definition chan_new :: "'m chan" where
  "chan_new = \<lparr>chan_queue = [], chan_senders = 1, chan_open = True\<rparr>"

definition chan_closed :: "'m chan" where
  "chan_closed = \<lparr>chan_queue = [], chan_senders = 0, chan_open = False\<rparr>"

definition chan_send :: "'m \<Rightarrow> 'm chan \<Rightarrow> bool \<times> 'm chan" where
  "chan_send m c =
     (if chan_open c then (True, c\<lparr>chan_queue := chan_queue c @ [m]\<rparr>) else (False, c))"

text \<open>
  \<^verbatim>\<open>try_recv\<close>. The blocking \<^verbatim>\<open>recv\<close> and \<^verbatim>\<open>recv_timeout\<close> differ only where this returns
  \<open>Empty\<close>: they wait, or time out.
\<close>

definition chan_try_recv :: "'m chan \<Rightarrow> 'm recv \<times> 'm chan" where
  "chan_try_recv c =
     (case chan_queue c of
        m # ms \<Rightarrow> (Received m, c\<lparr>chan_queue := ms\<rparr>)
      | [] \<Rightarrow> (if chan_senders c = 0 then Disconnected else Empty, c))"

definition chan_clone_tx :: "'m chan \<Rightarrow> 'm chan" where
  "chan_clone_tx c = c\<lparr>chan_senders := Suc (chan_senders c)\<rparr>"

definition chan_drop_tx :: "'m chan \<Rightarrow> 'm chan" where
  "chan_drop_tx c = c\<lparr>chan_senders := chan_senders c - 1\<rparr>"

text \<open>Dropping the receiver returns the messages that are discarded with it.\<close>

definition chan_drop_rx :: "'m chan \<Rightarrow> 'm list \<times> 'm chan" where
  "chan_drop_rx c = (chan_queue c, c\<lparr>chan_queue := [], chan_open := False\<rparr>)"

definition recv_option :: "'m recv \<times> 'm chan \<Rightarrow> 'm option \<times> 'm chan" where
  "recv_option rc = (case rc of (Received m, c) \<Rightarrow> (Some m, c) | (_, c) \<Rightarrow> (None, c))"

interpretation mpsc: fifo "\<lambda>m c. snd (chan_send m c)" "\<lambda>c. recv_option (chan_try_recv c)"
  chan_queue chan_open
  by unfold_locales (auto simp: chan_send_def chan_try_recv_def recv_option_def split: list.splits)

lemma chan_send_simps [simp]:
  "fst (chan_send m c) = chan_open c"
  "chan_open (snd (chan_send m c)) = chan_open c"
  "chan_senders (snd (chan_send m c)) = chan_senders c"
  "chan_queue (snd (chan_send m c)) = chan_queue c @ (if chan_open c then [m] else [])"
  by (simp_all add: chan_send_def)

lemma chan_tx_simps [simp]:
  "chan_queue (chan_clone_tx c) = chan_queue c" "chan_open (chan_clone_tx c) = chan_open c"
  "chan_queue (chan_drop_tx c) = chan_queue c" "chan_open (chan_drop_tx c) = chan_open c"
  by (simp_all add: chan_clone_tx_def chan_drop_tx_def)

lemma chan_try_recv_simps:
  "chan_queue c = m # ms \<Longrightarrow> chan_try_recv c = (Received m, c\<lparr>chan_queue := ms\<rparr>)"
  "chan_queue c = [] \<Longrightarrow> chan_try_recv c = (if chan_senders c = 0 then Disconnected else Empty, c)"
  by (simp_all add: chan_try_recv_def)

lemma chan_closed_simps [simp]:
  "chan_open chan_closed = False" "chan_queue chan_closed = []"
  by (simp_all add: chan_closed_def)

end
