(* ===== verification/World.thy ===== *)
theory World
  imports Actor Channel
begin

text \<open>
  The data of a running actor system that outlives a single call: type-erased actors and the
  closures stored with them, the message channels, the reply channels of \<^verbatim>\<open>Addr::send\<close>, the
  \<^verbatim>\<open>SpawnShared\<close> of the multi-threaded runtime, the state user code shares behind
  \<^verbatim>\<open>Arc<Mutex<_>>\<close>, and the observable trace of calls to user callbacks.

  User code is a parameter throughout: values of every Rust type a program puts into an actor,
  a message or a reply live in the type \<open>'v\<close>, and what callbacks share behind locks in \<open>'e\<close>.
  A Rust type is named by a number, as \<^verbatim>\<open>TypeId\<close> does.
\<close>

section \<open>Type-erased values and closures\<close>

type_synonym type_id = nat

text \<open>\<^verbatim>\<open>Box<dyn Any + Send>\<close>: a value with the type it was created at.\<close>

record 'v any =
  any_type :: type_id
  any_val :: 'v

text \<open>
  The closures the crate boxes as \<^verbatim>\<open>DispatchFn\<close>, with what each captures: in \<^verbatim>\<open>Addr::send\<close> the
  actor type, the message and the reply sender; in \<^verbatim>\<open>Addr::do_send\<close> the type and the message;
  as \<^verbatim>\<open>on_stop\<close> the type only.
\<close>

datatype 'v dispatch_fn = SendFn type_id 'v nat | DoSendFn type_id 'v | OnStopFn type_id

type_synonym 'v message = "'v dispatch_fn envelope"

record 'v actor_cell =
  actor :: "'v any"
  on_stop :: "'v dispatch_fn"

type_synonym 'v actor_map = "(actor_id, 'v actor_cell) hashmap"

text \<open>
  \<^verbatim>\<open>Addr<A>\<close>: the id, the sender (by the number of its channel) and the type parameter, which
  \<^verbatim>\<open>PhantomData\<close> carries.
\<close>

record addr =
  addr_actor_id :: actor_id
  addr_tx :: nat
  addr_type :: type_id

text \<open>\<^verbatim>\<open>ControlMsg\<close>; the confirmation sender is the number of its channel.\<close>

datatype 'v control_msg = SpawnActor actor_id "'v any" "'v dispatch_fn" nat | Shutdown

record 'v spawn_shared =
  control_txs :: "'v control_msg chan list"
  msg_txs :: "nat list"
  actor_maps :: "'v actor_map list"
  next_id :: u64
  next_worker :: usize
  num_workers :: nat
  running :: bool

section \<open>The world\<close>

text \<open>
  The reply channel of a \<^verbatim>\<open>send\<close> carries at most one value: nothing yet, the value, or a
  disconnect because the sender was dropped unused.
\<close>

datatype 'v reply = Pending | Replied 'v | Dropped

datatype 'v event =
    EvStarted actor_id type_id
  | EvHandled actor_id 'v
  | EvStopped actor_id
  | EvPanicked actor_id string

record ('v, 'e) world =
  chans :: "'v message chan list"
  replies :: "'v reply list"
  confirms :: "unit reply list"
  shared :: "'v spawn_shared"
  env :: 'e
  log :: "'v event list"

definition log_event :: "'v event \<Rightarrow> ('v, 'e) world \<Rightarrow> ('v, 'e) world" where
  "log_event ev w = w\<lparr>log := log w @ [ev]\<rparr>"

section \<open>Channels in the world\<close>

definition chan_at :: "('v, 'e) world \<Rightarrow> nat \<Rightarrow> 'v message chan" where
  "chan_at w c = (if c < length (chans w) then chans w ! c else chan_closed)"

definition upd_chan ::
  "nat \<Rightarrow> ('v message chan \<Rightarrow> 'v message chan) \<Rightarrow> ('v, 'e) world \<Rightarrow> ('v, 'e) world" where
  "upd_chan c f w = w\<lparr>chans := (chans w)[c := f (chan_at w c)]\<rparr>"

lemma chan_at_cong: "chans w' = chans w \<Longrightarrow> chan_at w' c = chan_at w c"
  by (simp add: chan_at_def)

lemma chan_at_frame [simp]:
  "chan_at (w\<lparr>replies := rs\<rparr>) c = chan_at w c" "chan_at (w\<lparr>confirms := cs\<rparr>) c = chan_at w c"
  "chan_at (w\<lparr>shared := sh\<rparr>) c = chan_at w c" "chan_at (w\<lparr>env := e\<rparr>) c = chan_at w c"
  "chan_at (w\<lparr>log := l\<rparr>) c = chan_at w c"
  by (simp_all add: chan_at_def)

section \<open>Replies\<close>

definition reply_send :: "nat \<Rightarrow> 'v \<Rightarrow> ('v, 'e) world \<Rightarrow> ('v, 'e) world" where
  "reply_send r v w = w\<lparr>replies := (replies w)[r := Replied v]\<rparr>"

definition reply_drop :: "nat \<Rightarrow> ('v, 'e) world \<Rightarrow> ('v, 'e) world" where
  "reply_drop r w =
     (if r < length (replies w) \<and> replies w ! r = Pending
      then w\<lparr>replies := (replies w)[r := Dropped]\<rparr> else w)"

text \<open>Dropping an uncalled closure drops what it captured, the reply sender included.\<close>

definition drop_dispatch :: "'v dispatch_fn \<Rightarrow> ('v, 'e) world \<Rightarrow> ('v, 'e) world" where
  "drop_dispatch f w = (case f of SendFn _ _ r \<Rightarrow> reply_drop r w | _ \<Rightarrow> w)"

definition drop_envelope :: "'v message \<Rightarrow> ('v, 'e) world \<Rightarrow> ('v, 'e) world" where
  "drop_envelope e w = drop_dispatch (env_dispatch e) w"

text \<open>The reply an envelope will answer, if any.\<close>

definition reply_of :: "'v message \<Rightarrow> nat option" where
  "reply_of e = (case env_dispatch e of SendFn _ _ r \<Rightarrow> Some r | _ \<Rightarrow> None)"

lemmas world_op_defs = log_event_def upd_chan_def reply_send_def reply_drop_def
  drop_dispatch_def drop_envelope_def

section \<open>Rewriting\<close>

lemma log_event_simps [simp]:
  "chans (log_event ev w) = chans w" "replies (log_event ev w) = replies w"
  "confirms (log_event ev w) = confirms w" "shared (log_event ev w) = shared w"
  "env (log_event ev w) = env w" "log (log_event ev w) = log w @ [ev]"
  "chan_at (log_event ev w) c = chan_at w c"
  by (simp_all add: log_event_def chan_at_def)

lemma upd_chan_simps [simp]:
  "length (chans (upd_chan c f w)) = length (chans w)" "replies (upd_chan c f w) = replies w"
  "confirms (upd_chan c f w) = confirms w" "shared (upd_chan c f w) = shared w"
  "env (upd_chan c f w) = env w" "log (upd_chan c f w) = log w"
  by (simp_all add: upd_chan_def)

lemma chan_at_upd_chan [simp]:
  "chan_at (upd_chan c f w) d =
     (if d = c \<and> c < length (chans w) then f (chan_at w c) else chan_at w d)"
  by (simp add: upd_chan_def chan_at_def)

lemma reply_drop_simps [simp]:
  "chans (reply_drop r w) = chans w" "confirms (reply_drop r w) = confirms w"
  "shared (reply_drop r w) = shared w" "env (reply_drop r w) = env w"
  "log (reply_drop r w) = log w" "chan_at (reply_drop r w) c = chan_at w c"
  "length (replies (reply_drop r w)) = length (replies w)"
  by (simp_all add: reply_drop_def chan_at_def)

lemma reply_send_simps [simp]:
  "chans (reply_send r v w) = chans w" "confirms (reply_send r v w) = confirms w"
  "shared (reply_send r v w) = shared w" "env (reply_send r v w) = env w"
  "log (reply_send r v w) = log w" "chan_at (reply_send r v w) c = chan_at w c"
  "length (replies (reply_send r v w)) = length (replies w)"
  by (simp_all add: reply_send_def chan_at_def)

lemma drop_dispatch_simps [simp]:
  "chans (drop_dispatch f w) = chans w" "confirms (drop_dispatch f w) = confirms w"
  "shared (drop_dispatch f w) = shared w" "env (drop_dispatch f w) = env w"
  "log (drop_dispatch f w) = log w" "chan_at (drop_dispatch f w) c = chan_at w c"
  "length (replies (drop_dispatch f w)) = length (replies w)"
  by (simp_all add: drop_dispatch_def split: dispatch_fn.splits)

lemma drop_envelope_simps [simp]:
  "chans (drop_envelope e w) = chans w" "confirms (drop_envelope e w) = confirms w"
  "shared (drop_envelope e w) = shared w" "env (drop_envelope e w) = env w"
  "log (drop_envelope e w) = log w" "chan_at (drop_envelope e w) c = chan_at w c"
  "length (replies (drop_envelope e w)) = length (replies w)"
  by (simp_all add: drop_envelope_def)

lemma nth_reply_drop:
  "q < length (replies w) \<Longrightarrow> replies (reply_drop r w) ! q =
     (if q = r \<and> replies w ! q = Pending then Dropped else replies w ! q)"
  by (auto simp: reply_drop_def nth_list_update)

lemma nth_reply_send:
  "q < length (replies w) \<Longrightarrow> replies (reply_send r v w) ! q =
     (if q = r then Replied v else replies w ! q)"
  by (auto simp: reply_send_def nth_list_update)

lemma nth_drop_envelope:
  "q < length (replies w) \<Longrightarrow> replies (drop_envelope e w) ! q =
     (if reply_of e = Some q \<and> replies w ! q = Pending then Dropped else replies w ! q)"
  by (auto simp: drop_envelope_def drop_dispatch_def reply_of_def nth_reply_drop
      split: dispatch_fn.splits)

section \<open>The life of an actor in the trace\<close>

text \<open>
  The protocol a user relies on: \<^verbatim>\<open>started\<close> first and once, then messages, then \<^verbatim>\<open>stopped\<close> at
  most once, and nothing afterwards. \<open>life\<close> runs this automaton over a trace for one actor.
\<close>

datatype phase = Unborn | Alive | Dead | Broken

fun life_step :: "actor_id \<Rightarrow> 'v event \<Rightarrow> phase \<Rightarrow> phase" where
  "life_step i (EvStarted j _) p = (if j \<noteq> i then p else if p = Unborn then Alive else Broken)"
| "life_step i (EvHandled j _) p = (if j \<noteq> i then p else if p = Alive then Alive else Broken)"
| "life_step i (EvStopped j) p = (if j \<noteq> i then p else if p = Alive then Dead else Broken)"
| "life_step i (EvPanicked j _) p = (if j \<noteq> i then p else if p = Alive then Alive else Broken)"

definition life :: "actor_id \<Rightarrow> 'v event list \<Rightarrow> phase" where
  "life i evs = fold (life_step i) evs Unborn"

lemma life_simps [simp]:
  "life i [] = Unborn" "life i (evs @ [ev]) = life_step i ev (life i evs)"
  by (simp_all add: life_def)

definition started_count :: "'v event list \<Rightarrow> nat" where
  "started_count evs = length (filter (\<lambda>ev. case ev of EvStarted _ _ \<Rightarrow> True | _ \<Rightarrow> False) evs)"

lemma started_count_simps [simp]:
  "started_count [] = 0"
  "started_count (evs @ fs) = started_count evs + started_count fs"
  "started_count (EvStarted i t # fs) = Suc (started_count fs)"
  "started_count (EvHandled i v # fs) = started_count fs"
  "started_count (EvStopped i # fs) = started_count fs"
  "started_count (EvPanicked i s # fs) = started_count fs"
  by (simp_all add: started_count_def)

end
