(* ===== verification/Addr.thy ===== *)
theory Addr
  imports World
begin

text \<open>
  \<^verbatim>\<open>Addr<A>\<close> of \<^verbatim>\<open>src/addr.rs\<close>: creating, cloning and dropping an address, the blocking \<^verbatim>\<open>send\<close>
  and the fire-and-forget \<^verbatim>\<open>do_send\<close>. \<^verbatim>\<open>send\<close> is split at the point where it waits:
  \<open>addr_send_begin\<close> queues the envelope, \<open>addr_send_result\<close> is what \<^verbatim>\<open>result_rx.recv()\<close>
  returns, \<open>None\<close> while it blocks.
\<close>

definition addr_new :: "actor_id \<Rightarrow> nat \<Rightarrow> type_id \<Rightarrow> addr" where
  "addr_new i tx a = \<lparr>addr_actor_id = i, addr_tx = tx, addr_type = a\<rparr>"

definition addr_id :: "addr \<Rightarrow> actor_id" where
  "addr_id a = addr_actor_id a"

text \<open>Cloning an address clones its sender; dropping one drops it.\<close>

definition addr_clone :: "addr \<Rightarrow> ('v, 'e) world \<Rightarrow> addr \<times> ('v, 'e) world" where
  "addr_clone a w =
     (\<lparr>addr_actor_id = addr_actor_id a, addr_tx = addr_tx a, addr_type = addr_type a\<rparr>,
      upd_chan (addr_tx a) chan_clone_tx w)"

definition addr_drop :: "addr \<Rightarrow> ('v, 'e) world \<Rightarrow> ('v, 'e) world" where
  "addr_drop a w = upd_chan (addr_tx a) chan_drop_tx w"

text \<open>\<^verbatim>\<open>self.tx.send(envelope)\<close>: a failed send drops the envelope.\<close>

definition tx_send :: "nat \<Rightarrow> 'v message \<Rightarrow> ('v, 'e) world \<Rightarrow> (send_error + unit) \<times> ('v, 'e) world" where
  "tx_send c e w =
     (if fst (chan_send e (chan_at w c))
      then (Inr (), upd_chan c (\<lambda>ch. snd (chan_send e ch)) w)
      else (Inl RuntimeShutdown, drop_envelope e w))"

definition addr_send_begin ::
  "addr \<Rightarrow> 'v \<Rightarrow> ('v, 'e) world \<Rightarrow> (send_error + nat) \<times> ('v, 'e) world" where
  "addr_send_begin a msg w =
     (let r = length (replies w);
          w1 = w\<lparr>replies := replies w @ [Pending]\<rparr>;
          e = \<lparr>env_actor_id = addr_actor_id a, env_dispatch = SendFn (addr_type a) msg r\<rparr>
      in case tx_send (addr_tx a) e w1 of
           (Inl err, w2) \<Rightarrow> (Inl err, w2)
         | (Inr _, w2) \<Rightarrow> (Inr r, w2))"

definition addr_send_result :: "nat \<Rightarrow> ('v, 'e) world \<Rightarrow> (send_error + 'v) option" where
  "addr_send_result r w =
     (case replies w ! r of
        Pending \<Rightarrow> None
      | Replied v \<Rightarrow> Some (Inr v)
      | Dropped \<Rightarrow> Some (Inl ActorNotRunning))"

definition addr_do_send ::
  "addr \<Rightarrow> 'v \<Rightarrow> ('v, 'e) world \<Rightarrow> (send_error + unit) \<times> ('v, 'e) world" where
  "addr_do_send a msg w =
     tx_send (addr_tx a)
       \<lparr>env_actor_id = addr_actor_id a, env_dispatch = DoSendFn (addr_type a) msg\<rparr> w"

lemma addr_new_simps [simp]:
  "addr_actor_id (addr_new i tx a) = i" "addr_tx (addr_new i tx a) = tx"
  "addr_type (addr_new i tx a) = a" "addr_id a' = addr_actor_id a'"
  by (simp_all add: addr_new_def addr_id_def)

lemma addr_drop_simps [simp]:
  "replies (addr_drop a w) = replies w" "confirms (addr_drop a w) = confirms w"
  "shared (addr_drop a w) = shared w" "env (addr_drop a w) = env w" "log (addr_drop a w) = log w"
  "length (chans (addr_drop a w)) = length (chans w)"
  "chan_queue (chan_at (addr_drop a w) c) = chan_queue (chan_at w c)"
  "chan_open (chan_at (addr_drop a w) c) = chan_open (chan_at w c)"
  by (simp_all add: addr_drop_def)

lemma addr_clone_simps [simp]:
  "fst (addr_clone a w) = a"
  "replies (snd (addr_clone a w)) = replies w" "confirms (snd (addr_clone a w)) = confirms w"
  "shared (snd (addr_clone a w)) = shared w" "env (snd (addr_clone a w)) = env w"
  "log (snd (addr_clone a w)) = log w"
  "length (chans (snd (addr_clone a w))) = length (chans w)"
  "chan_queue (chan_at (snd (addr_clone a w)) c) = chan_queue (chan_at w c)"
  "chan_open (chan_at (snd (addr_clone a w)) c) = chan_open (chan_at w c)"
  by (simp_all add: addr_clone_def)

lemma tx_send_simps [simp]:
  "confirms (snd (tx_send c e w)) = confirms w" "shared (snd (tx_send c e w)) = shared w"
  "env (snd (tx_send c e w)) = env w" "log (snd (tx_send c e w)) = log w"
  "length (chans (snd (tx_send c e w))) = length (chans w)"
  "length (replies (snd (tx_send c e w))) = length (replies w)"
  "chan_open (chan_at (snd (tx_send c e w)) d) = chan_open (chan_at w d)"
  "fst (tx_send c e w) = (if chan_open (chan_at w c) then Inr () else Inl RuntimeShutdown)"
  by (simp_all add: tx_send_def)

lemma open_chan_exists: "chan_open (chan_at w c) \<Longrightarrow> c < length (chans w)"
  by (simp add: chan_at_def split: if_splits)

lemma chan_queue_tx_send [simp]:
  "chan_queue (chan_at (snd (tx_send c e w)) d) =
     chan_queue (chan_at w d) @ (if d = c \<and> chan_open (chan_at w c) then [e] else [])"
  using open_chan_exists[of w c] by (simp add: tx_send_def)

lemma nth_replies_tx_send:
  "q < length (replies w) \<Longrightarrow> replies (snd (tx_send c e w)) ! q =
     (if \<not> chan_open (chan_at w c) \<and> reply_of e = Some q \<and> replies w ! q = Pending then Dropped
      else replies w ! q)"
  by (simp add: tx_send_def nth_drop_envelope)

lemma addr_do_send_simps [simp]:
  "confirms (snd (addr_do_send a m w)) = confirms w" "shared (snd (addr_do_send a m w)) = shared w"
  "env (snd (addr_do_send a m w)) = env w" "log (snd (addr_do_send a m w)) = log w"
  "length (chans (snd (addr_do_send a m w))) = length (chans w)"
  "replies (snd (addr_do_send a m w)) = replies w"
  "chan_open (chan_at (snd (addr_do_send a m w)) d) = chan_open (chan_at w d)"
  by (simp_all add: addr_do_send_def) (simp add: tx_send_def world_op_defs)

lemma chan_queue_do_send:
  "chan_queue (chan_at (snd (addr_do_send a m w)) d) = chan_queue (chan_at w d) @
     (if d = addr_tx a \<and> chan_open (chan_at w d)
      then [\<lparr>env_actor_id = addr_actor_id a, env_dispatch = DoSendFn (addr_type a) m\<rparr>] else [])"
  by (auto simp: addr_do_send_def)

lemma addr_send_begin_simps [simp]:
  "confirms (snd (addr_send_begin a m w)) = confirms w"
  "shared (snd (addr_send_begin a m w)) = shared w"
  "env (snd (addr_send_begin a m w)) = env w" "log (snd (addr_send_begin a m w)) = log w"
  "length (chans (snd (addr_send_begin a m w))) = length (chans w)"
  "length (replies (snd (addr_send_begin a m w))) = Suc (length (replies w))"
  "chan_open (chan_at (snd (addr_send_begin a m w)) d) = chan_open (chan_at w d)"
  "fst (addr_send_begin a m w) =
     (if chan_open (chan_at w (addr_tx a)) then Inr (length (replies w)) else Inl RuntimeShutdown)"
  by (simp_all add: addr_send_begin_def Let_def tx_send_def)

lemma chan_queue_send_begin:
  "chan_queue (chan_at (snd (addr_send_begin a m w)) d) = chan_queue (chan_at w d) @
     (if d = addr_tx a \<and> chan_open (chan_at w d)
      then [\<lparr>env_actor_id = addr_actor_id a, env_dispatch = SendFn (addr_type a) m (length (replies w))\<rparr>]
      else [])"
  using open_chan_exists[of w "addr_tx a"]
  by (simp add: addr_send_begin_def Let_def tx_send_def)

lemma replies_send_begin:
  "replies (snd (addr_send_begin a m w)) =
     replies w @ [if chan_open (chan_at w (addr_tx a)) then Pending else Dropped]"
  by (simp add: addr_send_begin_def Let_def tx_send_def)
    (simp add: world_op_defs list_update_append nth_append)

end
