(* ===== verification/Spawner.thy ===== *)
theory Spawner
  imports Addr
begin

text \<open>
  \<^verbatim>\<open>SpawnShared\<close> of \<^verbatim>\<open>src/spawner.rs\<close>: the id and worker counters of the multi-threaded runtime,
  the two ways to place an actor on a worker (through the worker's control channel, waiting for
  its confirmation, or directly into the worker's actor map), and removal.
  The atomic counters wrap in every profile. A worker index is a \<open>nat\<close>: it is only ever
  compared with the number of workers and used to index.
\<close>

definition upd_shared :: "('v spawn_shared \<Rightarrow> 'v spawn_shared) \<Rightarrow> ('v, 'e) world \<Rightarrow> ('v, 'e) world" where
  "upd_shared f w = w\<lparr>shared := f (shared w)\<rparr>"

definition allocate_id :: "('v, 'e) world \<Rightarrow> actor_id \<times> ('v, 'e) world" where
  "allocate_id w =
     (ActorId (next_id (shared w)), upd_shared (\<lambda>s. s\<lparr>next_id := next_id s + 1\<rparr>) w)"

definition pick_worker :: "('v, 'e) world \<Rightarrow> nat \<times> ('v, 'e) world" where
  "pick_worker w =
     (unat (next_worker (shared w)) mod num_workers (shared w),
      upd_shared (\<lambda>s. s\<lparr>next_worker := next_worker s + 1\<rparr>) w)"

text \<open>
  \<^verbatim>\<open>spawn_actor_remote\<close>, up to \<^verbatim>\<open>confirm_rx.recv()\<close> and after it. The first part fails (the
  \<^verbatim>\<open>expect\<close> panics) when the worker's control receiver is gone; the second is \<open>None\<close> while it
  waits and panics when the worker dropped the request.
\<close>

definition spawn_remote_begin ::
  "actor_id \<Rightarrow> nat \<Rightarrow> 'v any \<Rightarrow> 'v dispatch_fn \<Rightarrow> ('v, 'e) world \<Rightarrow> (string + nat) \<times> ('v, 'e) world" where
  "spawn_remote_begin i idx act stop w =
     (let k = length (confirms w);
          w1 = w\<lparr>confirms := confirms w @ [Pending]\<rparr>;
          ctl = control_txs (shared w1) ! idx
      in if chan_open ctl
         then (Inr k, upd_shared (\<lambda>s. s\<lparr>control_txs :=
                 (control_txs s)[idx := snd (chan_send (SpawnActor i act stop k) ctl)]\<rparr>) w1)
         else (Inl ''worker thread should be alive'', w1\<lparr>confirms := (confirms w1)[k := Dropped]\<rparr>))"

definition spawn_remote_result ::
  "nat \<Rightarrow> nat \<Rightarrow> ('v, 'e) world \<Rightarrow> ((string + nat) \<times> ('v, 'e) world) option" where
  "spawn_remote_result k idx w =
     (case confirms w ! k of
        Pending \<Rightarrow> None
      | Dropped \<Rightarrow> Some (Inl ''worker should confirm spawn'', w)
      | Replied _ \<Rightarrow> (let c = msg_txs (shared w) ! idx in Some (Inr c, upd_chan c chan_clone_tx w)))"

definition spawn_actor_direct ::
  "actor_id \<Rightarrow> nat \<Rightarrow> 'v any \<Rightarrow> 'v dispatch_fn \<Rightarrow> ('v, 'e) world \<Rightarrow> nat \<times> ('v, 'e) world" where
  "spawn_actor_direct i idx act stop w =
     (let w1 = upd_shared (\<lambda>s. s\<lparr>actor_maps := (actor_maps s)[idx :=
                 hm_insert i \<lparr>actor = act, on_stop = stop\<rparr> (actor_maps s ! idx)]\<rparr>) w;
          c = msg_txs (shared w1) ! idx
      in (c, upd_chan c chan_clone_tx w1))"

definition shared_remove_actor ::
  "actor_id \<Rightarrow> nat \<Rightarrow> ('v, 'e) world \<Rightarrow> 'v actor_cell option \<times> ('v, 'e) world" where
  "shared_remove_actor i idx w =
     (hm_get (actor_maps (shared w) ! idx) i,
      upd_shared (\<lambda>s. s\<lparr>actor_maps := (actor_maps s)[idx := hm_remove i (actor_maps s ! idx)]\<rparr>) w)"

text \<open>The same equation on an explicit world, for evaluation.\<close>

lemma spawn_actor_direct_eval [code]:
  "spawn_actor_direct i idx act stop
       \<lparr>chans = cs, replies = rs, confirms = cf, shared = sh, env = ev, log = lg\<rparr> =
     (msg_txs sh ! idx,
      upd_chan (msg_txs sh ! idx) chan_clone_tx
        \<lparr>chans = cs, replies = rs, confirms = cf,
         shared = sh\<lparr>actor_maps := (actor_maps sh)[idx :=
           hm_insert i \<lparr>actor = act, on_stop = stop\<rparr> (actor_maps sh ! idx)]\<rparr>,
         env = ev, log = lg\<rparr>)"
  by (simp add: spawn_actor_direct_def upd_shared_def Let_def)

section \<open>Rewriting\<close>

lemma upd_shared_simps [simp]:
  "chans (upd_shared f w) = chans w" "replies (upd_shared f w) = replies w"
  "confirms (upd_shared f w) = confirms w" "shared (upd_shared f w) = f (shared w)"
  "env (upd_shared f w) = env w" "log (upd_shared f w) = log w"
  "chan_at (upd_shared f w) c = chan_at w c"
  by (simp_all add: upd_shared_def chan_at_def)

lemma allocate_id_simps [simp]:
  "fst (allocate_id w) = ActorId (next_id (shared w))"
  "chans (snd (allocate_id w)) = chans w" "replies (snd (allocate_id w)) = replies w"
  "confirms (snd (allocate_id w)) = confirms w" "env (snd (allocate_id w)) = env w"
  "log (snd (allocate_id w)) = log w" "chan_at (snd (allocate_id w)) c = chan_at w c"
  "shared (snd (allocate_id w)) = (shared w)\<lparr>next_id := next_id (shared w) + 1\<rparr>"
  by (simp_all add: allocate_id_def)

interpretation shared_ids: id_source allocate_id "\<lambda>w. next_id (shared w)"
  by unfold_locales simp_all

lemma pick_worker_simps [simp]:
  "fst (pick_worker w) = unat (next_worker (shared w)) mod num_workers (shared w)"
  "chans (snd (pick_worker w)) = chans w" "replies (snd (pick_worker w)) = replies w"
  "confirms (snd (pick_worker w)) = confirms w" "env (snd (pick_worker w)) = env w"
  "log (snd (pick_worker w)) = log w" "chan_at (snd (pick_worker w)) c = chan_at w c"
  "shared (snd (pick_worker w)) = (shared w)\<lparr>next_worker := next_worker (shared w) + 1\<rparr>"
  by (simp_all add: pick_worker_def)

lemma spawn_direct_simps [simp]:
  "fst (spawn_actor_direct i idx act stop w) = msg_txs (shared w) ! idx"
  "length (chans (snd (spawn_actor_direct i idx act stop w))) = length (chans w)"
  "replies (snd (spawn_actor_direct i idx act stop w)) = replies w"
  "confirms (snd (spawn_actor_direct i idx act stop w)) = confirms w"
  "env (snd (spawn_actor_direct i idx act stop w)) = env w"
  "log (snd (spawn_actor_direct i idx act stop w)) = log w"
  "chan_queue (chan_at (snd (spawn_actor_direct i idx act stop w)) c) = chan_queue (chan_at w c)"
  "chan_open (chan_at (snd (spawn_actor_direct i idx act stop w)) c) = chan_open (chan_at w c)"
  "shared (snd (spawn_actor_direct i idx act stop w)) = (shared w)\<lparr>actor_maps :=
     (actor_maps (shared w))[idx := hm_insert i \<lparr>actor = act, on_stop = stop\<rparr> (actor_maps (shared w) ! idx)]\<rparr>"
  by (simp_all add: spawn_actor_direct_def Let_def)

lemma shared_remove_simps [simp]:
  "fst (shared_remove_actor i idx w) = hm_get (actor_maps (shared w) ! idx) i"
  "chans (snd (shared_remove_actor i idx w)) = chans w"
  "replies (snd (shared_remove_actor i idx w)) = replies w"
  "confirms (snd (shared_remove_actor i idx w)) = confirms w"
  "env (snd (shared_remove_actor i idx w)) = env w"
  "log (snd (shared_remove_actor i idx w)) = log w"
  "chan_at (snd (shared_remove_actor i idx w)) c = chan_at w c"
  "shared (snd (shared_remove_actor i idx w)) = (shared w)\<lparr>actor_maps :=
     (actor_maps (shared w))[idx := hm_remove i (actor_maps (shared w) ! idx)]\<rparr>"
  by (simp_all add: shared_remove_actor_def)

section \<open>Round-robin placement\<close>

text \<open>\<open>n\<close> consecutive calls of \<^verbatim>\<open>pick_worker\<close>.\<close>

primrec pick_many :: "nat \<Rightarrow> ('v, 'e) world \<Rightarrow> nat list \<times> ('v, 'e) world" where
  "pick_many 0 w = ([], w)"
| "pick_many (Suc n) w =
     (case pick_worker w of (k, w1) \<Rightarrow> (case pick_many n w1 of (ks, w2) \<Rightarrow> (k # ks, w2)))"

lemma pick_many_picks:
  "fst (pick_many n w) =
     map (\<lambda>k. unat (next_worker (shared w) + of_nat k) mod num_workers (shared w)) [0..<n]"
proof (induction n arbitrary: w)
  case (Suc n)
  obtain k w1 where p: "pick_worker w = (k, w1)" by (cases "pick_worker w")
  have "k = unat (next_worker (shared w)) mod num_workers (shared w)"
    and "shared w1 = (shared w)\<lparr>next_worker := next_worker (shared w) + 1\<rparr>"
    using pick_worker_simps(1,8)[of w] p by simp_all
  moreover have "[0..<Suc n] = 0 # map Suc [0..<n]" by (simp add: map_Suc_upt upt_conv_Cons)
  ultimately show ?case
    using p Suc.IH[of w1] by (simp add: case_prod_beta comp_def ac_simps)
qed simp

lemma pick_many_no_wrap:
  assumes "unat (next_worker (shared w)) + n \<le> 2 ^ 64"
  shows "fst (pick_many n w) =
     map (\<lambda>k. (unat (next_worker (shared w)) + k) mod num_workers (shared w)) [0..<n]"
proof -
  have "unat (next_worker (shared w) + of_nat k) = unat (next_worker (shared w)) + k" if "k < n" for k
    using assms that by (simp add: unat_word_ariths unsigned_of_nat take_bit_nat_def)
  then show ?thesis by (simp add: pick_many_picks)
qed

text \<open>Among \<open>n\<close> consecutive numbers, each residue modulo \<open>n\<close> occurs once.\<close>

lemma mod_eq_small:
  assumes "(a + x) mod n = (a + y) mod n" and "x < n" and "y < (n::nat)"
  shows "x = y"
proof -
  have le: "u = v" if "(a + u) mod n = (a + v) mod n" "v \<le> u" "u < n" for u v
  proof -
    have "n dvd (a + u) - (a + v)" using that by (subst mod_eq_dvd_iff_nat[symmetric]) auto
    then have "n dvd u - v" by simp
    with that show ?thesis using dvd_imp_le[of n "u - v"] by fastforce
  qed
  show ?thesis using assms le[of x y] le[of y x] by (cases "y \<le> x") auto
qed

lemma consecutive_residues: "distinct (map (\<lambda>k. (a + k) mod n) [0..<n])"
  by (auto simp: distinct_map inj_on_def intro: mod_eq_small)

end
