(* ===== verification/Context.thy ===== *)
theory Context
  imports Spawner
begin

text \<open>
  \<^verbatim>\<open>Context\<close> of \<^verbatim>\<open>src/context.rs\<close>, the language of user callbacks, and the calls of the boxed
  closures.

  A user callback (\<^verbatim>\<open>started\<close>, \<^verbatim>\<open>stopped\<close>, \<^verbatim>\<open>handle\<close>) can do to the system only what the crate's
  public interface offers it. It is represented by a \<open>prog\<close>: the tree of its interface calls,
  branching on what each call returns. Everything it computes in between is in the functions
  the tree holds. A theorem about all \<open>prog\<close>s is a theorem about all user code that returns
  or panics. \<open>exec\<close> runs such a tree on the actor's state, its context and the world.
\<close>

section \<open>The context\<close>

text \<open>\<^verbatim>\<open>Option<Arc<SpawnShared>>\<close>: there is one \<^verbatim>\<open>SpawnShared\<close>, in the world.\<close>

datatype shared_ref = SharedRef

record actor_context =
  ctx_actor_id :: actor_id
  ctx_running :: bool
  ctx_spawn_shared :: "shared_ref option"
  ctx_worker_idx :: nat

definition context_new :: "actor_id \<Rightarrow> actor_context" where
  "context_new i =
     \<lparr>ctx_actor_id = i, ctx_running = True, ctx_spawn_shared = None, ctx_worker_idx = 0\<rparr>"

definition context_with_spawner :: "actor_id \<Rightarrow> nat \<Rightarrow> actor_context" where
  "context_with_spawner i idx =
     \<lparr>ctx_actor_id = i, ctx_running = True, ctx_spawn_shared = Some SharedRef, ctx_worker_idx = idx\<rparr>"

definition context_id :: "actor_context \<Rightarrow> actor_id" where
  "context_id ctx = ctx_actor_id ctx"

definition context_stop :: "actor_context \<Rightarrow> actor_context" where
  "context_stop ctx = ctx\<lparr>ctx_running := False\<rparr>"

definition context_is_running :: "actor_context \<Rightarrow> bool" where
  "context_is_running ctx = ctx_running ctx"

text \<open>\<^verbatim>\<open>Context::send\<close> is \<^verbatim>\<open>Addr::send\<close>; \<^verbatim>\<open>Context::notify\<close> drops the result of \<^verbatim>\<open>do_send\<close>.\<close>

definition context_send_begin ::
  "addr \<Rightarrow> 'v \<Rightarrow> ('v, 'e) world \<Rightarrow> (send_error + nat) \<times> ('v, 'e) world" where
  "context_send_begin a msg w = addr_send_begin a msg w"

definition context_notify :: "addr \<Rightarrow> 'v \<Rightarrow> ('v, 'e) world \<Rightarrow> ('v, 'e) world" where
  "context_notify a msg w = snd (addr_do_send a msg w)"

section \<open>User callbacks\<close>

text \<open>What a panic carries: a \<^verbatim>\<open>String\<close>, a \<^verbatim>\<open>&str\<close>, or something else.\<close>

datatype payload = PString string | PStr string | POther

text \<open>A callback that does not return normally panics, or waits for a reply that is not there.\<close>

datatype fault = Panicking payload | Blocking nat

datatype ('v, 'e) prog =
    Return 'v
  | Panic payload
  | SetSelf 'v "('v, 'e) prog"
  | CtxId "actor_id \<Rightarrow> ('v, 'e) prog"
  | CtxStop "('v, 'e) prog"
  | DoSend addr 'v "(send_error + unit) \<Rightarrow> ('v, 'e) prog"
  | Notify addr 'v "('v, 'e) prog"
  | SendWait addr 'v "(send_error + 'v) \<Rightarrow> ('v, 'e) prog"
  | CloneAddr addr "addr \<Rightarrow> ('v, 'e) prog"
  | DropAddr addr "('v, 'e) prog"
  | SpawnChild type_id 'v "('v, 'e) prog" "addr \<Rightarrow> ('v, 'e) prog"
  | Shared "'e \<Rightarrow> 'e" "'e \<Rightarrow> ('v, 'e) prog"

text \<open>The callbacks of an actor type, as functions of the actor's state (and the message).\<close>

record ('v, 'e) actor_class =
  cls_handle :: "'v \<Rightarrow> 'v \<Rightarrow> ('v, 'e) prog"
  cls_stopped :: "'v \<Rightarrow> ('v, 'e) prog"

type_synonym ('v, 'e) classes = "type_id \<Rightarrow> ('v, 'e) actor_class"

type_synonym ('v, 'e) callback =
  "'v \<Rightarrow> actor_context \<Rightarrow> ('v, 'e) world \<Rightarrow> (fault + 'v) \<times> 'v \<times> actor_context \<times> ('v, 'e) world"

section \<open>Context::spawn\<close>

text \<open>
  The child's \<^verbatim>\<open>started\<close> is the first argument. A panic in it unwinds through \<^verbatim>\<open>spawn\<close>: the id
  stays used, the child is not inserted.
\<close>

definition context_spawn ::
  "('v, 'e) callback \<Rightarrow> type_id \<Rightarrow> 'v \<Rightarrow> actor_context \<Rightarrow> ('v, 'e) world \<Rightarrow> (fault + addr) \<times> ('v, 'e) world" where
  "context_spawn started a v ctx w =
     (case ctx_spawn_shared ctx of
        None \<Rightarrow> (Inl (Panicking (PString ''Context::spawn requires a multi-threaded Runtime'')), w)
      | Some _ \<Rightarrow>
          (case allocate_id w of (i, w1) \<Rightarrow>
            let child_ctx = context_with_spawner i (ctx_worker_idx ctx) in
            (case started v child_ctx (log_event (EvStarted i a) w1) of
               (Inl f, _, _, w2) \<Rightarrow> (Inl f, w2)
             | (Inr _, v', _, w2) \<Rightarrow>
                 (case spawn_actor_direct i (ctx_worker_idx ctx)
                         \<lparr>any_type = a, any_val = v'\<rparr> (OnStopFn a) w2 of
                    (tx, w3) \<Rightarrow> (Inr (addr_new i tx a), w3)))))"

section \<open>Running a callback\<close>

primrec exec :: "('v, 'e) prog \<Rightarrow> ('v, 'e) callback" where
  "exec (Return r) = (\<lambda>self ctx w. (Inr r, self, ctx, w))"
| "exec (Panic p) = (\<lambda>self ctx w. (Inl (Panicking p), self, ctx, w))"
| "exec (SetSelf v k) = (\<lambda>self ctx w. exec k v ctx w)"
| "exec (CtxId k) = (\<lambda>self ctx w. exec (k (context_id ctx)) self ctx w)"
| "exec (CtxStop k) = (\<lambda>self ctx w. exec k self (context_stop ctx) w)"
| "exec (DoSend a m k) = (\<lambda>self ctx w.
     case addr_do_send a m w of (r, w') \<Rightarrow> exec (k r) self ctx w')"
| "exec (Notify a m k) = (\<lambda>self ctx w. exec k self ctx (context_notify a m w))"
| "exec (SendWait a m k) = (\<lambda>self ctx w.
     case context_send_begin a m w of
       (Inl err, w') \<Rightarrow> exec (k (Inl err)) self ctx w'
     | (Inr r, w') \<Rightarrow> (Inl (Blocking r), self, ctx, w'))"
| "exec (CloneAddr a k) = (\<lambda>self ctx w.
     case addr_clone a w of (a', w') \<Rightarrow> exec (k a') self ctx w')"
| "exec (DropAddr a k) = (\<lambda>self ctx w. exec k self ctx (addr_drop a w))"
| "exec (SpawnChild a v started k) = (\<lambda>self ctx w.
     case context_spawn (exec started) a v ctx w of
       (Inl f, w') \<Rightarrow> (Inl f, self, ctx, w')
     | (Inr adr, w') \<Rightarrow> exec (k adr) self ctx w')"
| "exec (Shared f k) = (\<lambda>self ctx w. exec (k (env w)) self ctx (w\<lparr>env := f (env w)\<rparr>))"

text \<open>The same equations with all arguments, for evaluation.\<close>

lemma context_spawn_eval [code]:
  "context_spawn started a v
       \<lparr>ctx_actor_id = ci, ctx_running = cr, ctx_spawn_shared = cs, ctx_worker_idx = idx\<rparr> w =
     (case cs of
        None \<Rightarrow> (Inl (Panicking (PString ''Context::spawn requires a multi-threaded Runtime'')), w)
      | Some _ \<Rightarrow>
          (case allocate_id w of (i, w1) \<Rightarrow>
            (case started v (context_with_spawner i idx) (log_event (EvStarted i a) w1) of
               (Inl f, _, _, w2) \<Rightarrow> (Inl f, w2)
             | (Inr _, v', _, w2) \<Rightarrow>
                 (case spawn_actor_direct i idx \<lparr>any_type = a, any_val = v'\<rparr> (OnStopFn a) w2 of
                    (tx, w3) \<Rightarrow> (Inr (addr_new i tx a), w3)))))"
  unfolding context_spawn_def Let_def actor_context.select_convs by (rule refl)

lemma exec_eval [code]:
  "exec (Return r) self ctx w = (Inr r, self, ctx, w)"
  "exec (Panic p) self ctx w = (Inl (Panicking p), self, ctx, w)"
  "exec (SetSelf v k) self ctx w = exec k v ctx w"
  "exec (CtxId ki) self ctx w = exec (ki (context_id ctx)) self ctx w"
  "exec (CtxStop k) self ctx w = exec k self (context_stop ctx) w"
  "exec (DoSend a m kr) self ctx w = (case addr_do_send a m w of (r, w') \<Rightarrow> exec (kr r) self ctx w')"
  "exec (Notify a m k) self ctx w = exec k self ctx (context_notify a m w)"
  "exec (SendWait a m kv) self ctx w =
     (case context_send_begin a m w of
        (Inl err, w') \<Rightarrow> exec (kv (Inl err)) self ctx w'
      | (Inr q, w') \<Rightarrow> (Inl (Blocking q), self, ctx, w'))"
  "exec (CloneAddr a ka) self ctx w = (case addr_clone a w of (a', w') \<Rightarrow> exec (ka a') self ctx w')"
  "exec (DropAddr a k) self ctx w = exec k self ctx (addr_drop a w)"
  "exec (SpawnChild t v started ka) self ctx w =
     (case context_spawn (exec started) t v ctx w of
        (Inl f, w') \<Rightarrow> (Inl f, self, ctx, w')
      | (Inr adr, w') \<Rightarrow> exec (ka adr) self ctx w')"
  "exec (Shared f ke) self ctx w = exec (ke (env w)) self ctx (w\<lparr>env := f (env w)\<rparr>)"
  by simp_all

section \<open>Calling a boxed closure\<close>

definition mismatch_payload :: payload where
  "mismatch_payload = PString ''actor type mismatch: wrong actor type stored for this ActorId''"

text \<open>
  \<^verbatim>\<open>(envelope.dispatch)(cell.actor.as_mut(), &mut ctx)\<close> and \<^verbatim>\<open>(cell.on_stop)(..)\<close>. When the
  handler of a \<^verbatim>\<open>send\<close> panics, unwinding drops the reply sender.
\<close>

definition call_handle ::
  "('v, 'e) classes \<Rightarrow> type_id \<Rightarrow> 'v \<Rightarrow> 'v any \<Rightarrow> actor_context \<Rightarrow> ('v, 'e) world \<Rightarrow>
   (fault + 'v) \<times> 'v any \<times> actor_context \<times> ('v, 'e) world" where
  "call_handle cls a msg act ctx w =
     (if any_type act \<noteq> a then (Inl (Panicking mismatch_payload), act, ctx, w)
      else (case exec (cls_handle (cls a) (any_val act) msg) (any_val act) ctx
                   (log_event (EvHandled (context_id ctx) msg) w) of
              (res, v', ctx', w') \<Rightarrow> (res, act\<lparr>any_val := v'\<rparr>, ctx', w')))"

definition call_dispatch ::
  "('v, 'e) classes \<Rightarrow> 'v dispatch_fn \<Rightarrow> 'v any \<Rightarrow> actor_context \<Rightarrow> ('v, 'e) world \<Rightarrow>
   (fault + unit) \<times> 'v any \<times> actor_context \<times> ('v, 'e) world" where
  "call_dispatch cls f act ctx w =
     (case f of
        SendFn a msg r \<Rightarrow>
          (case call_handle cls a msg act ctx w of
             (Inr v, act', ctx', w') \<Rightarrow> (Inr (), act', ctx', reply_send r v w')
           | (Inl (Panicking p), act', ctx', w') \<Rightarrow> (Inl (Panicking p), act', ctx', reply_drop r w')
           | (Inl (Blocking q), act', ctx', w') \<Rightarrow> (Inl (Blocking q), act', ctx', w'))
      | DoSendFn a msg \<Rightarrow>
          (case call_handle cls a msg act ctx w of
             (Inr _, act', ctx', w') \<Rightarrow> (Inr (), act', ctx', w')
           | (Inl flt, act', ctx', w') \<Rightarrow> (Inl flt, act', ctx', w'))
      | OnStopFn a \<Rightarrow>
          (if any_type act \<noteq> a then (Inr (), act, ctx, w)
           else (case exec (cls_stopped (cls a) (any_val act)) (any_val act) ctx
                        (log_event (EvStopped (context_id ctx)) w) of
                   (Inr _, v', ctx', w') \<Rightarrow> (Inr (), act\<lparr>any_val := v'\<rparr>, ctx', w')
                 | (Inl flt, v', ctx', w') \<Rightarrow> (Inl flt, act\<lparr>any_val := v'\<rparr>, ctx', w'))))"

text \<open>The text the worker prints for a panic.\<close>

definition panic_reason :: "payload \<Rightarrow> string" where
  "panic_reason p = (case p of PString s \<Rightarrow> s | PStr s \<Rightarrow> s | POther \<Rightarrow> ''actor panicked'')"

lemma context_simps [simp]:
  "ctx_actor_id (context_new i) = i" "ctx_running (context_new i)"
  "ctx_spawn_shared (context_new i) = None"
  "ctx_actor_id (context_with_spawner i n) = i" "ctx_running (context_with_spawner i n)"
  "ctx_spawn_shared (context_with_spawner i n) = Some SharedRef"
  "ctx_worker_idx (context_with_spawner i n) = n"
  "context_id ctx = ctx_actor_id ctx" "context_is_running ctx = ctx_running ctx"
  "ctx_actor_id (context_stop ctx) = ctx_actor_id ctx" "\<not> ctx_running (context_stop ctx)"
  "ctx_spawn_shared (context_stop ctx) = ctx_spawn_shared ctx"
  "ctx_worker_idx (context_stop ctx) = ctx_worker_idx ctx"
  by (simp_all add: context_new_def context_with_spawner_def context_id_def context_stop_def
      context_is_running_def)

section \<open>What every callback keeps\<close>

text \<open>
  The interface a callback has to the system is this list of operations, so a relation on
  worlds that is reflexive, transitive and respected by each of them holds between the worlds
  before and after any callback. The first two arguments of \<open>R\<close> say whether the context can
  spawn and on which worker.
\<close>

locale api_relation =
  fixes R :: "shared_ref option \<Rightarrow> nat \<Rightarrow> ('v, 'e) world \<Rightarrow> ('v, 'e) world \<Rightarrow> bool"
  assumes api_refl: "R sp n w w"
    and api_trans: "R sp n w w' \<Longrightarrow> R sp n w' w'' \<Longrightarrow> R sp n w w''"
    and api_do_send: "R sp n w (snd (addr_do_send a m w))"
    and api_send: "R sp n w (snd (addr_send_begin a m w))"
    and api_clone: "R sp n w (snd (addr_clone a w))"
    and api_drop: "R sp n w (addr_drop a w)"
    and api_env: "R sp n w (w\<lparr>env := e\<rparr>)"
    and api_start: "R (Some SharedRef) n (log_event (EvStarted i t) (snd (allocate_id w))) w' \<Longrightarrow>
      i = ActorId (next_id (shared w)) \<Longrightarrow> R (Some SharedRef) n w w'"
    and api_insert: "R (Some SharedRef) n (log_event (EvStarted i t) (snd (allocate_id w))) w' \<Longrightarrow>
      i = ActorId (next_id (shared w)) \<Longrightarrow>
      R (Some SharedRef) n w (snd (spawn_actor_direct i n \<lparr>any_type = t, any_val = v\<rparr> (OnStopFn t) w'))"
begin

lemma context_spawn_R:
  assumes "\<And>self ctx w. R (ctx_spawn_shared ctx) (ctx_worker_idx ctx) w (snd (snd (snd (started self ctx w))))"
  shows "R (ctx_spawn_shared ctx) (ctx_worker_idx ctx) w (snd (context_spawn started a v ctx w))"
proof (cases "ctx_spawn_shared ctx")
  case None
  then show ?thesis by (simp add: context_spawn_def api_refl)
next
  case (Some sr)
  then have sp: "ctx_spawn_shared ctx = Some SharedRef" by (cases sr) simp
  define i where "i = ActorId (next_id (shared w))"
  define n where "n = ctx_worker_idx ctx"
  obtain res v' c' w2 where st: "started v (context_with_spawner i n)
      (log_event (EvStarted i a) (snd (allocate_id w))) = (res, v', c', w2)"
    by (metis prod_cases4)
  have r2: "R (Some SharedRef) n (log_event (EvStarted i a) (snd (allocate_id w))) w2"
    using assms[of "context_with_spawner i n"] st by (metis context_simps(6,7) snd_conv)
  have al: "allocate_id w = (i, snd (allocate_id w))"
    by (simp add: i_def prod_eq_iff)
  show ?thesis
    using api_start[OF r2 i_def] api_insert[OF r2 i_def, of v'] st
    by (subst context_spawn_def, subst al)
      (auto simp: sp Let_def n_def[symmetric] split: sum.splits prod.splits)
qed

lemma exec_R:
  "R (ctx_spawn_shared ctx) (ctx_worker_idx ctx) w (snd (snd (snd (exec p self ctx w))))"
proof (induction p arbitrary: self ctx w)
  case (CtxStop k)
  from CtxStop.IH[of "context_stop ctx"] show ?case by simp
next
  case (DoSend a m k)
  show ?case
    using api_trans[OF api_do_send DoSend.IH] by (simp add: case_prod_beta)
next
  case (Notify a m k)
  show ?case
    using api_trans[OF api_do_send Notify.IH] by (simp add: context_notify_def)
next
  case (SendWait a m k)
  obtain r w' where s: "addr_send_begin a m w = (r, w')" by (cases "addr_send_begin a m w")
  then have "R (ctx_spawn_shared ctx) (ctx_worker_idx ctx) w w'" by (metis api_send snd_conv)
  with s api_trans[OF this SendWait.IH] show ?case
    by (auto simp: context_send_begin_def split: sum.splits)
next
  case (CloneAddr a k)
  show ?case
    using api_trans[OF api_clone CloneAddr.IH] by (simp add: case_prod_beta)
next
  case (DropAddr a k)
  show ?case using api_trans[OF api_drop DropAddr.IH] by simp
next
  case (SpawnChild a v started k)
  obtain r w' where s: "context_spawn (exec started) a v ctx w = (r, w')"
    by (cases "context_spawn (exec started) a v ctx w")
  then have "R (ctx_spawn_shared ctx) (ctx_worker_idx ctx) w w'"
    using context_spawn_R[of "exec started" ctx w a v] SpawnChild.IH(1) by simp
  with s api_trans[OF this SpawnChild.IH(2)] show ?case
    by (auto split: sum.splits)
next
  case (Shared f k)
  show ?case using api_trans[OF api_env Shared.IH] by simp
qed (simp_all add: api_refl)

end

text \<open>A callback may stop its own context but changes nothing else of it.\<close>

lemma exec_context:
  "exec p self ctx w = (res, self', ctx', w') \<Longrightarrow>
   ctx' = ctx \<or> ctx' = context_stop ctx"
proof (induction p arbitrary: self ctx w)
  case (CtxStop k)
  then show ?case by (fastforce simp: context_stop_def)
next
  case (SendWait a m k)
  then show ?case by (force split: prod.splits sum.splits)
next
  case (SpawnChild a v started k)
  then show ?case by (force split: prod.splits sum.splits)
qed (force split: prod.splits)+

end
