(* ===== verification/Callbacks.thy ===== *)
theory Callbacks
  imports Context
begin

text \<open>
  What no user callback can break, whatever it does: three instances of \<open>api_relation\<close>.
  Messages leave a channel only through its receiver and replies, once made, are not touched
  (\<open>comm_ext\<close>); every reply somebody may be waiting for is held by exactly one queued envelope
  (\<open>acct\<close>); a context without a spawner leaves the trace alone (\<open>quiet\<close>).
\<close>

section \<open>Channels only grow\<close>

definition comm_ext :: "('v, 'e) world \<Rightarrow> ('v, 'e) world \<Rightarrow> bool" where
  "comm_ext w w' \<longleftrightarrow>
     length (chans w') = length (chans w) \<and> confirms w' = confirms w
   \<and> (\<forall>c. chan_open (chan_at w' c) = chan_open (chan_at w c))
   \<and> (\<forall>c. \<exists>es. chan_queue (chan_at w' c) = chan_queue (chan_at w c) @ es)
   \<and> (\<exists>rs. replies w' = replies w @ rs)"

lemma comm_ext_refl [simp, intro]: "comm_ext w w"
  by (auto simp: comm_ext_def)

lemma comm_ext_trans:
  assumes "comm_ext w w'" and "comm_ext w' w''"
  shows "comm_ext w w''"
proof -
  have "\<exists>es. chan_queue (chan_at w'' c) = chan_queue (chan_at w c) @ es" for c
    using assms unfolding comm_ext_def by (metis append_assoc)
  then show ?thesis using assms by (auto simp: comm_ext_def)
qed

interpretation comm: api_relation "\<lambda>_ _. comm_ext"
proof (unfold_locales, goal_cases)
  case 2
  then show ?case by (rule comm_ext_trans)
next
  case (8 n i t w w')
  then show ?case by (simp add: comm_ext_def)
next
  case (9 n i t w w' v)
  then show ?case by (simp add: comm_ext_def)
qed (auto simp: comm_ext_def chan_queue_do_send chan_queue_send_begin replies_send_begin)

section \<open>Every reply somebody waits for is in one place\<close>

definition queue_replies :: "'v message list \<Rightarrow> nat multiset" where
  "queue_replies es = mset (List.map_filter reply_of es)"

definition owed :: "('v, 'e) world \<Rightarrow> nat multiset" where
  "owed w = (\<Sum>c < length (chans w). queue_replies (chan_queue (chan_at w c)))"

text \<open>
  \<open>acct held w\<close>: a reply is pending exactly if one envelope will answer it, which is queued in
  a channel or among those \<open>held\<close> elsewhere (in dispatch, in a mailbox); no two envelopes
  answer the same reply.
\<close>

definition acct :: "nat multiset \<Rightarrow> ('v, 'e) world \<Rightarrow> bool" where
  "acct held w \<longleftrightarrow>
     (\<forall>r. count (held + owed w) r = (if r < length (replies w) \<and> replies w ! r = Pending then 1 else 0))"

lemma queue_replies_simps [simp]:
  "queue_replies [] = {#}"
  "queue_replies (es @ fs) = queue_replies es + queue_replies fs"
  "queue_replies (e # es) = (case reply_of e of None \<Rightarrow> {#} | Some r \<Rightarrow> {#r#}) + queue_replies es"
  by (auto simp: queue_replies_def List.map_filter_def split: option.splits)

lemma owed_append:
  assumes "length (chans w') = length (chans w)" and "c < length (chans w)"
    and "\<And>d. chan_queue (chan_at w' d) = chan_queue (chan_at w d) @ (if d = c then es else [])"
  shows "owed w' = owed w + queue_replies es"
proof -
  have "owed w' = (\<Sum>d < length (chans w). queue_replies (chan_queue (chan_at w d))
      + (if d = c then queue_replies es else {#}))"
    unfolding owed_def by (intro sum.cong) (auto simp: assms)
  then show ?thesis using assms(2) by (simp add: owed_def sum.distrib)
qed

lemma owed_same:
  assumes "length (chans w') = length (chans w)"
    and "\<And>d. chan_queue (chan_at w' d) = chan_queue (chan_at w d)"
  shows "owed w' = owed w"
  using assms by (simp add: owed_def)

lemma owed_pop:
  assumes "chan_queue (chan_at w c) = e # es" and "length (chans w') = length (chans w)"
    and "\<And>d. chan_queue (chan_at w' d) = (if d = c then es else chan_queue (chan_at w d))"
  shows "owed w = queue_replies [e] + owed w'"
proof -
  have c: "c < length (chans w)" using assms(1) by (auto simp: chan_at_def split: if_splits)
  have "owed w = (\<Sum>d < length (chans w). queue_replies (chan_queue (chan_at w' d))
      + (if d = c then queue_replies [e] else {#}))"
    unfolding owed_def by (intro sum.cong) (auto simp: assms)
  then show ?thesis using c by (simp add: owed_def sum.distrib assms(2) add.commute)
qed

lemma acct_frame:
  assumes "length (chans w') = length (chans w)"
    and "\<And>d. chan_queue (chan_at w' d) = chan_queue (chan_at w d)"
    and "replies w' = replies w"
  shows "acct held w' = acct held w"
  using owed_same[OF assms(1,2)] assms(3) by (simp add: acct_def)

lemma acct_do_send:
  assumes "acct held w"
  shows "acct held (snd (addr_do_send a m w))"
proof -
  have "owed (snd (addr_do_send a m w)) = owed w"
  proof (cases "chan_open (chan_at w (addr_tx a))")
    case True
    have "owed (snd (addr_do_send a m w)) = owed w +
        queue_replies [\<lparr>env_actor_id = addr_actor_id a, env_dispatch = DoSendFn (addr_type a) m\<rparr>]"
      using open_chan_exists[OF True] True
      by (intro owed_append[where c = "addr_tx a"]) (auto simp: addr_do_send_def)
    then show ?thesis by (simp add: reply_of_def)
  next
    case False
    then show ?thesis by (intro owed_same) (auto simp: addr_do_send_def)
  qed
  with assms show ?thesis by (simp add: acct_def)
qed

lemma owed_send_begin:
  "owed (snd (addr_send_begin a m w)) = owed w +
     (if chan_open (chan_at w (addr_tx a)) then {#length (replies w)#} else {#})"
proof (cases "chan_open (chan_at w (addr_tx a))")
  case True
  have "owed (snd (addr_send_begin a m w)) = owed w + queue_replies
      [\<lparr>env_actor_id = addr_actor_id a, env_dispatch = SendFn (addr_type a) m (length (replies w))\<rparr>]"
    using open_chan_exists[OF True] True
    by (intro owed_append[where c = "addr_tx a"]) (auto simp: chan_queue_send_begin)
  with True show ?thesis by (simp add: reply_of_def)
next
  case False
  then show ?thesis
    by (auto intro!: owed_same simp: chan_queue_send_begin)
qed

lemma acct_send_begin:
  assumes "acct held w"
  shows "acct held (snd (addr_send_begin a' m w))"
proof -
  have a: "count held r + count (owed w) r =
      (if r < length (replies w) \<and> replies w ! r = Pending then 1 else 0)" for r
    using assms by (simp add: acct_def)
  have "count held r + count (owed (snd (addr_send_begin a' m w))) r =
      (if r < length (replies (snd (addr_send_begin a' m w)))
          \<and> replies (snd (addr_send_begin a' m w)) ! r = Pending then 1 else 0)" for r
    using a[of r] by (auto simp: replies_send_begin owed_send_begin nth_append less_Suc_eq split: if_splits)
  then show ?thesis by (simp add: acct_def)
qed

interpretation reply_acct: api_relation "\<lambda>_ _ w w'. \<forall>held. acct held w \<longrightarrow> acct held w'"
proof (unfold_locales, goal_cases)
  case (5 sp n w a)
  have "acct held (snd (addr_clone a w)) = acct held w" for held by (rule acct_frame) simp_all
  then show ?case by simp
next
  case (6 sp n w a)
  have "acct held (addr_drop a w) = acct held w" for held by (rule acct_frame) simp_all
  then show ?case by simp
next
  case (7 sp n w e)
  have "acct held (w\<lparr>env := e\<rparr>) = acct held w" for held by (rule acct_frame) simp_all
  then show ?case by simp
next
  case (8 n i t w w')
  have "acct held (log_event (EvStarted i t) (snd (allocate_id w))) = acct held w" for held
    by (rule acct_frame) simp_all
  with 8 show ?case by simp
next
  case (9 n i t w w' v)
  have "acct held (log_event (EvStarted i t) (snd (allocate_id w))) = acct held w" for held
    by (rule acct_frame) simp_all
  moreover have "acct held (snd (spawn_actor_direct i n \<lparr>any_type = t, any_val = v\<rparr> (OnStopFn t) w'))
      = acct held w'" for held
    by (rule acct_frame) simp_all
  ultimately show ?case using 9 by simp
qed (auto intro: acct_do_send acct_send_begin)

section \<open>Only messages are queued\<close>

text \<open>The \<^verbatim>\<open>on_stop\<close> closures stay with their actors: no channel ever carries one.\<close>

definition is_message :: "'v message \<Rightarrow> bool" where
  "is_message e \<longleftrightarrow> (case env_dispatch e of OnStopFn _ \<Rightarrow> False | _ \<Rightarrow> True)"

definition only_messages :: "('v, 'e) world \<Rightarrow> bool" where
  "only_messages w \<longleftrightarrow> (\<forall>c. \<forall>e \<in> set (chan_queue (chan_at w c)). is_message e)"

lemma only_messages_frame:
  "(\<And>c. set (chan_queue (chan_at w' c)) \<subseteq> set (chan_queue (chan_at w c))) \<Longrightarrow>
   only_messages w \<Longrightarrow> only_messages w'"
  by (auto simp: only_messages_def)

lemma only_messages_log [simp]: "only_messages (log_event ev w) = only_messages w"
  by (simp add: only_messages_def)

interpretation messages: api_relation "\<lambda>_ _ w w'. only_messages w \<longrightarrow> only_messages w'"
proof (unfold_locales, goal_cases)
  case (8 n i t w w')
  then show ?case by (simp add: only_messages_def)
next
  case (9 n i t w w' v)
  then show ?case by (simp add: only_messages_def)
qed (auto simp: only_messages_def chan_queue_do_send chan_queue_send_begin is_message_def)

section \<open>Without a spawner, the trace and the shared state are left alone\<close>

interpretation quiet: api_relation
  "\<lambda>sp _ w w'. sp = None \<longrightarrow> log w' = log w \<and> shared w' = shared w"
  by unfold_locales auto

section \<open>Calling a closure\<close>

lemma exec_comm: "exec p self ctx w = (res, self', ctx', w') \<Longrightarrow> comm_ext w w'"
  using comm.exec_R[where p = p and self = self and ctx = ctx and w = w] by simp

lemma exec_acct: "exec p self ctx w = (res, self', ctx', w') \<Longrightarrow> acct held w \<Longrightarrow> acct held w'"
  using reply_acct.exec_R[where p = p and self = self and ctx = ctx and w = w] by simp

lemma exec_messages:
  "exec p self ctx w = (res, self', ctx', w') \<Longrightarrow> only_messages w \<Longrightarrow> only_messages w'"
  using messages.exec_R[where p = p and self = self and ctx = ctx and w = w] by simp

lemma exec_quiet:
  "exec p self ctx w = (res, self', ctx', w') \<Longrightarrow> ctx_spawn_shared ctx = None \<Longrightarrow>
   log w' = log w \<and> shared w' = shared w"
  using quiet.exec_R[where p = p and self = self and ctx = ctx and w = w] by simp

lemma comm_ext_log [simp]: "comm_ext w (log_event ev w)"
  by (simp add: comm_ext_def)

lemma acct_log [simp]: "acct held (log_event ev w) = acct held w"
  by (rule acct_frame) simp_all

text \<open>Counting senders up and down moves no message.\<close>

lemma chan_queue_tx:
  "chan_queue (chan_at (upd_chan c chan_clone_tx w) d) = chan_queue (chan_at w d)"
  "chan_queue (chan_at (upd_chan c chan_drop_tx w) d) = chan_queue (chan_at w d)"
  by simp_all

lemma acct_tx [simp]:
  "acct held (upd_chan c chan_clone_tx w) = acct held w"
  "acct held (upd_chan c chan_drop_tx w) = acct held w"
  by (rule acct_frame; simp)+

lemma only_messages_tx [simp]:
  "only_messages (upd_chan c chan_clone_tx w) = only_messages w"
  "only_messages (upd_chan c chan_drop_tx w) = only_messages w"
  unfolding only_messages_def chan_queue_tx by (rule refl)+

lemma call_handle_E:
  assumes "call_handle cls a msg act ctx w = (res, act', ctx', w')"
  obtains (Mismatch) "any_type act \<noteq> a" "res = Inl (Panicking mismatch_payload)" "act' = act"
      "ctx' = ctx" "w' = w"
  | (Handled) v' where "any_type act = a" "act' = act\<lparr>any_val := v'\<rparr>"
      "exec (cls_handle (cls a) (any_val act) msg) (any_val act) ctx
         (log_event (EvHandled (ctx_actor_id ctx) msg) w) = (res, v', ctx', w')"
  using assms by (auto simp: call_handle_def split: if_splits prod.splits)

lemma call_handle_comm:
  assumes "call_handle cls a msg act ctx w = (res, act', ctx', w')"
  shows "comm_ext w w'"
  using assms
proof (cases rule: call_handle_E)
  case (Handled v')
  from exec_comm[OF Handled(3)] show ?thesis
    by (blast intro: comm_ext_trans comm_ext_log)
qed simp

lemma call_handle_acct:
  assumes "call_handle cls a msg act ctx w = (res, act', ctx', w')" and "acct held w"
  shows "acct held w'"
  using assms(1)
proof (cases rule: call_handle_E)
  case (Handled v')
  from exec_acct[OF Handled(3)] assms(2) show ?thesis by simp
qed (use assms in simp)

text \<open>The pending reply a closure answers is resolved by calling it, unless the call blocks.\<close>

lemma acct_resolve:
  assumes "acct (add_mset r held) w" and "v \<noteq> Pending"
  shows "acct held (w\<lparr>replies := (replies w)[r := v]\<rparr>)"
proof -
  have a: "count (add_mset r held) q + count (owed w) q =
      (if q < length (replies w) \<and> replies w ! q = Pending then 1 else 0)" for q
    using assms(1)[unfolded acct_def, rule_format, of q] by (auto split: if_splits)
  have "r < length (replies w)" and z: "count held r + count (owed w) r = 0"
    using a[of r] by (auto split: if_splits)
  have o: "owed (w\<lparr>replies := (replies w)[r := v]\<rparr>) = owed w"
    by (intro owed_same) auto
  have "count held q + count (owed w) q =
      (if q < length (replies w) \<and> (replies w)[r := v] ! q = Pending then 1 else 0)" for q
    using a[of q] z assms(2) \<open>r < length (replies w)\<close>
    by (cases "q = r") (auto simp: nth_list_update)
  then show ?thesis by (simp add: acct_def o)
qed

lemma acct_reply_send: "acct (add_mset r held) w \<Longrightarrow> acct held (reply_send r v w)"
  unfolding reply_send_def by (rule acct_resolve) simp_all

lemma acct_pendingD: "acct (add_mset r held) w \<Longrightarrow> r < length (replies w) \<and> replies w ! r = Pending"
  unfolding acct_def by (drule spec[of _ r]) (auto split: if_splits)

lemma acct_reply_drop: "acct (add_mset r held) w \<Longrightarrow> acct held (reply_drop r w)"
  using acct_pendingD[of r held w] by (simp add: reply_drop_def acct_resolve)

lemma acct_drop_envelope:
  assumes "acct (queue_replies [e] + held) w"
  shows "acct held (drop_envelope e w)"
proof (cases "reply_of e")
  case None
  then have "drop_envelope e w = w"
    by (auto simp: drop_envelope_def drop_dispatch_def reply_of_def split: dispatch_fn.splits)
  with None assms show ?thesis by simp
next
  case (Some r)
  then have "drop_envelope e w = reply_drop r w"
    by (auto simp: drop_envelope_def drop_dispatch_def reply_of_def split: dispatch_fn.splits)
  with Some assms show ?thesis by (simp add: acct_reply_drop)
qed

lemma call_dispatch_comm:
  assumes "call_dispatch cls f act ctx w = (res, act', ctx', w')"
  shows "\<exists>w1. comm_ext w w1 \<and> chans w' = chans w1 \<and> log w' = log w1 \<and> shared w' = shared w1
    \<and> confirms w' = confirms w1 \<and> length (replies w') = length (replies w1)"
proof (cases f)
  case (SendFn a msg r)
  obtain res1 act1 ctx1 w1 where h: "call_handle cls a msg act ctx w = (res1, act1, ctx1, w1)"
    by (metis prod_cases4)
  with SendFn assms call_handle_comm[OF h] show ?thesis
    by (intro exI[of _ w1]) (auto simp: call_dispatch_def split: sum.splits fault.splits)
next
  case (DoSendFn a msg)
  obtain res1 act1 ctx1 w1 where h: "call_handle cls a msg act ctx w = (res1, act1, ctx1, w1)"
    by (metis prod_cases4)
  with DoSendFn assms call_handle_comm[OF h] show ?thesis
    by (intro exI[of _ w1]) (auto simp: call_dispatch_def split: sum.splits)
next
  case (OnStopFn a)
  show ?thesis
  proof (cases "any_type act = a")
    case True
    obtain res1 v1 ctx1 w1 where e: "exec (cls_stopped (cls a) (any_val act)) (any_val act) ctx
        (log_event (EvStopped (context_id ctx)) w) = (res1, v1, ctx1, w1)"
      by (metis prod_cases4)
    have "comm_ext w w1" using exec_comm[OF e] by (blast intro: comm_ext_trans comm_ext_log)
    with OnStopFn True assms e show ?thesis
      by (intro exI[of _ w1]) (auto simp: call_dispatch_def split: sum.splits)
  next
    case False
    with OnStopFn assms show ?thesis by (intro exI[of _ w]) (auto simp: call_dispatch_def)
  qed
qed

lemma call_dispatch_acct:
  assumes "call_dispatch cls (env_dispatch e) act ctx w = (res, act', ctx', w')"
    and "acct (queue_replies [e] + held) w"
  shows "acct (case res of Inl (Blocking _) \<Rightarrow> queue_replies [e] + held | _ \<Rightarrow> held) w'"
proof (cases "env_dispatch e")
  case (SendFn a msg r)
  then have q: "reply_of e = Some r" by (simp add: reply_of_def)
  obtain res1 act1 ctx1 w1 where h: "call_handle cls a msg act ctx w = (res1, act1, ctx1, w1)"
    by (metis prod_cases4)
  from call_handle_acct[OF h assms(2)] have "acct (add_mset r held) w1" by (simp add: q)
  with SendFn assms(1) h show ?thesis
    by (auto simp: call_dispatch_def q intro: acct_reply_send acct_reply_drop
        split: sum.splits fault.splits)
next
  case (DoSendFn a msg)
  then have q: "reply_of e = None" by (simp add: reply_of_def)
  obtain res1 act1 ctx1 w1 where h: "call_handle cls a msg act ctx w = (res1, act1, ctx1, w1)"
    by (metis prod_cases4)
  from call_handle_acct[OF h assms(2)] DoSendFn assms(1) h show ?thesis
    by (auto simp: call_dispatch_def q split: sum.splits fault.splits)
next
  case (OnStopFn a)
  then have q: "reply_of e = None" by (simp add: reply_of_def)
  show ?thesis
  proof (cases "any_type act = a")
    case True
    obtain res1 v1 ctx1 w1 where x: "exec (cls_stopped (cls a) (any_val act)) (any_val act) ctx
        (log_event (EvStopped (context_id ctx)) w) = (res1, v1, ctx1, w1)"
      by (metis prod_cases4)
    from exec_acct[OF x] assms(2) have "acct held w1" by (simp add: q)
    with OnStopFn True assms(1) x show ?thesis
      by (auto simp: call_dispatch_def q split: sum.splits fault.splits)
  next
    case False
    with OnStopFn assms q show ?thesis by (auto simp: call_dispatch_def)
  qed
qed

lemma call_dispatch_messages:
  assumes "call_dispatch cls f act ctx w = (res, act', ctx', w')" and "only_messages w"
  shows "only_messages w'"
proof -
  have h: "only_messages w1"
    if "call_handle cls a msg act ctx w = (res1, act1, ctx1, w1)" for a msg res1 act1 ctx1 w1
    using that assms(2) by (auto elim!: call_handle_E dest: exec_messages)
  have x: "only_messages w1"
    if "exec p self ctx (log_event ev w) = (res1, v1, ctx1, w1)" for p self ev res1 v1 ctx1 w1
    using exec_messages[OF that] assms(2) by simp
  have r: "only_messages (reply_send q v w1) = only_messages w1"
    "only_messages (reply_drop q w1) = only_messages w1" for q v and w1 :: "('a, 'b) world"
    by (simp_all add: only_messages_def)
  show ?thesis
    using assms by (cases f) (auto simp: call_dispatch_def r dest: h x
        split: if_splits prod.splits sum.splits fault.splits)
qed

lemma call_dispatch_context:
  assumes "call_dispatch cls f act ctx w = (res, act', ctx', w')"
  shows "ctx' = ctx \<or> ctx' = context_stop ctx"
  using assms
  by (cases f) (auto simp: call_dispatch_def call_handle_def dest: exec_context
      split: if_splits prod.splits sum.splits fault.splits)

lemma call_dispatch_type:
  assumes "call_dispatch cls f act ctx w = (res, act', ctx', w')"
  shows "any_type act' = any_type act"
  using assms
  by (cases f) (auto simp: call_dispatch_def call_handle_def
      split: if_splits prod.splits sum.splits fault.splits)

text \<open>In a context without a spawner a call adds at most its own event to the trace.\<close>

definition call_event :: "'v dispatch_fn \<Rightarrow> 'v any \<Rightarrow> actor_id \<Rightarrow> 'v event list" where
  "call_event f act i =
     (case f of
        SendFn a m _ \<Rightarrow> if any_type act = a then [EvHandled i m] else []
      | DoSendFn a m \<Rightarrow> if any_type act = a then [EvHandled i m] else []
      | OnStopFn a \<Rightarrow> if any_type act = a then [EvStopped i] else [])"

lemma call_dispatch_quiet:
  assumes "call_dispatch cls f act ctx w = (res, act', ctx', w')" and "ctx_spawn_shared ctx = None"
  shows "log w' = log w @ call_event f act (ctx_actor_id ctx) \<and> shared w' = shared w"
  using assms
  by (cases f) (auto simp: call_dispatch_def call_handle_def call_event_def dest!: exec_quiet
      split: if_splits prod.splits sum.splits fault.splits)

end
