(* ===== verification/System.thy ===== *)
theory System
  imports Callbacks
begin

text \<open>
  The single-threaded runtime \<^verbatim>\<open>ActorSystem\<close> of \<^verbatim>\<open>src/system.rs\<close>: spawning, the event loop
  \<^verbatim>\<open>run\<close>, the non-blocking \<^verbatim>\<open>run_once\<close>, dispatch of one envelope and removal of actors. A loop
  may never end when callbacks keep sending, so both loops are partial functions: \<open>None\<close> is
  not returning. Where \<^verbatim>\<open>recv\<close> blocks the loop's result is \<open>Waiting\<close>; calling the loop again
  on the state after another thread has acted continues it.

  \<open>sys_step\<close> collects what can happen to a system: a spawn, an action of another thread on a
  channel, one iteration of an event loop. The invariants are proved of every reachable state.
\<close>

section \<open>State\<close>

text \<open>
  \<^verbatim>\<open>tx\<close> and \<^verbatim>\<open>rx\<close> name a channel of the world; the system owns the receiver of channel
  \<open>sys_rx\<close> and, until \<^verbatim>\<open>run\<close>, one sender of it.
\<close>

record ('v, 'e) actor_system =
  actors :: "'v actor_map"
  sys_rx :: nat
  sys_tx :: "nat option"
  sys_next_id :: u64
  sys_running :: bool
  sys_world :: "('v, 'e) world"

definition no_shared :: "'v spawn_shared" where
  "no_shared = \<lparr>control_txs = [], msg_txs = [], actor_maps = [], next_id = 0, next_worker = 0,
     num_workers = 0, running = False\<rparr>"

definition system_new :: "'e \<Rightarrow> ('v, 'e) actor_system" where
  "system_new e =
     \<lparr>actors = hm_new, sys_rx = 0, sys_tx = Some 0, sys_next_id = 1, sys_running = False,
      sys_world = \<lparr>chans = [chan_new], replies = [], confirms = [], shared = no_shared,
        env = e, log = []\<rparr>\<rparr>"

section \<open>Operations\<close>

text \<open>
  \<^verbatim>\<open>spawn\<close>: the argument \<open>oc\<close> says whether \<^verbatim>\<open>+=\<close> checks for overflow. A panic in \<^verbatim>\<open>started\<close>
  unwinds: the sender cloned for the address is dropped.
\<close>

definition sys_spawn ::
  "bool \<Rightarrow> ('v, 'e) prog \<Rightarrow> type_id \<Rightarrow> 'v \<Rightarrow> ('v, 'e) actor_system \<Rightarrow>
   (fault + addr) \<times> ('v, 'e) actor_system" where
  "sys_spawn oc started a v s =
     (let i = ActorId (sys_next_id s) in
      case add_profile oc (sys_next_id s) 1 of
        None \<Rightarrow> (Inl (Panicking (PStr ''attempt to add with overflow'')), s)
      | Some n \<Rightarrow>
          (let s1 = s\<lparr>sys_next_id := n\<rparr> in
           case sys_tx s1 of
             None \<Rightarrow> (Inl (Panicking (PString ''spawn called after run'')), s1)
           | Some tx \<Rightarrow>
               (let w1 = upd_chan tx chan_clone_tx (sys_world s1);
                    ctx = context_new i
                in case exec started v ctx (log_event (EvStarted i a) w1) of
                     (Inl f, _, _, w2) \<Rightarrow>
                       (Inl f, s1\<lparr>sys_world := upd_chan tx chan_drop_tx w2\<rparr>)
                   | (Inr _, v', _, w2) \<Rightarrow>
                       (Inr (addr_new i tx a),
                        s1\<lparr>actors := hm_insert i
                             \<lparr>actor = \<lparr>any_type = a, any_val = v'\<rparr>, on_stop = OnStopFn a\<rparr> (actors s1),
                           sys_world := w2\<rparr>))))"

definition sys_remove_actor ::
  "('v, 'e) classes \<Rightarrow> actor_id \<Rightarrow> ('v, 'e) actor_system \<Rightarrow>
   (fault + unit) \<times> ('v, 'e) actor_system" where
  "sys_remove_actor cls i s =
     (case hm_get (actors s) i of
        None \<Rightarrow> (Inr (), s)
      | Some cell \<Rightarrow>
          (let s1 = s\<lparr>actors := hm_remove i (actors s)\<rparr> in
           case call_dispatch cls (on_stop cell) (actor cell) (context_new i) (sys_world s1) of
             (res, _, _, w') \<Rightarrow> (res, s1\<lparr>sys_world := w'\<rparr>)))"

definition sys_dispatch ::
  "('v, 'e) classes \<Rightarrow> 'v message \<Rightarrow> ('v, 'e) actor_system \<Rightarrow>
   (fault + unit) \<times> ('v, 'e) actor_system" where
  "sys_dispatch cls e s =
     (let i = env_actor_id e in
      case hm_get (actors s) i of
        None \<Rightarrow> (Inr (), s\<lparr>sys_world := drop_envelope e (sys_world s)\<rparr>)
      | Some cell \<Rightarrow>
          (case call_dispatch cls (env_dispatch e) (actor cell) (context_new i) (sys_world s) of
             (res, act', ctx', w') \<Rightarrow>
               (let s1 = s\<lparr>actors := hm_insert i (cell\<lparr>actor := act'\<rparr>) (actors s), sys_world := w'\<rparr>
                in case res of
                     Inl f \<Rightarrow> (Inl f, s1)
                   | Inr _ \<Rightarrow>
                       (if \<not> context_is_running ctx' then sys_remove_actor cls i s1
                        else (Inr (), s1)))))"

fun sys_remove_all ::
  "('v, 'e) classes \<Rightarrow> actor_id list \<Rightarrow> ('v, 'e) actor_system \<Rightarrow>
   (fault + unit) \<times> ('v, 'e) actor_system" where
  "sys_remove_all cls [] s = (Inr (), s)"
| "sys_remove_all cls (i # is) s =
     (case sys_remove_actor cls i s of
        (Inl f, s') \<Rightarrow> (Inl f, s')
      | (Inr _, s') \<Rightarrow> sys_remove_all cls is s')"

text \<open>\<open>order\<close> is the order in which the \<^verbatim>\<open>HashMap\<close> yields its keys.\<close>

definition sys_stop_all_actors ::
  "(actor_id list \<Rightarrow> actor_id list) \<Rightarrow> ('v, 'e) classes \<Rightarrow> ('v, 'e) actor_system \<Rightarrow>
   (fault + unit) \<times> ('v, 'e) actor_system" where
  "sys_stop_all_actors order cls s = sys_remove_all cls (order (hm_keys (actors s))) s"

definition sys_shutdown :: "('v, 'e) actor_system \<Rightarrow> ('v, 'e) actor_system" where
  "sys_shutdown s = s\<lparr>sys_running := False\<rparr>"

definition sys_actor_count :: "('v, 'e) actor_system \<Rightarrow> nat" where
  "sys_actor_count s = length (actors s)"

text \<open>One receive from the system's channel.\<close>

definition sys_recv :: "('v, 'e) actor_system \<Rightarrow> 'v message recv \<times> ('v, 'e) actor_system" where
  "sys_recv s =
     (case chan_try_recv (chan_at (sys_world s) (sys_rx s)) of
        (r, c') \<Rightarrow> (r, s\<lparr>sys_world := upd_chan (sys_rx s) (\<lambda>_. c') (sys_world s)\<rparr>))"

text \<open>How a loop ends: it returns, a callback's fault unwinds it, or \<^verbatim>\<open>recv\<close> waits.\<close>

datatype 'a loop_end = Finished 'a | Unwound fault | Waiting

partial_function (option) sys_run_loop ::
  "('v, 'e) classes \<Rightarrow> ('v, 'e) actor_system \<Rightarrow> (unit loop_end \<times> ('v, 'e) actor_system) option" where
  "sys_run_loop cls s =
     (if sys_running s then
        (case sys_recv s of
           (Received e, s1) \<Rightarrow>
             (case sys_dispatch cls e s1 of
                (Inl f, s2) \<Rightarrow> Some (Unwound f, s2)
              | (Inr _, s2) \<Rightarrow> sys_run_loop cls s2)
         | (Disconnected, s1) \<Rightarrow> sys_run_loop cls (s1\<lparr>sys_running := False\<rparr>)
         | (Empty, s1) \<Rightarrow> Some (Waiting, s1))
      else Some (Finished (), s))"

text \<open>The first two statements of \<^verbatim>\<open>run\<close>: dropping \<^verbatim>\<open>tx\<close> drops one sender.\<close>

definition sys_begin_run :: "('v, 'e) actor_system \<Rightarrow> ('v, 'e) actor_system" where
  "sys_begin_run s =
     (let s1 = s\<lparr>sys_running := True\<rparr> in
      case sys_tx s1 of
        None \<Rightarrow> s1
      | Some tx \<Rightarrow> s1\<lparr>sys_tx := None, sys_world := upd_chan tx chan_drop_tx (sys_world s1)\<rparr>)"

text \<open>
  The loop of \<^verbatim>\<open>run\<close> from its current state, and \<^verbatim>\<open>stop_all_actors\<close> once it ends. \<open>Waiting\<close> is
  \<^verbatim>\<open>run\<close> blocked in \<^verbatim>\<open>recv\<close>; it goes on with \<open>sys_resume\<close> when another thread has acted.
\<close>

definition sys_resume ::
  "(actor_id list \<Rightarrow> actor_id list) \<Rightarrow> ('v, 'e) classes \<Rightarrow> ('v, 'e) actor_system \<Rightarrow>
   (unit loop_end \<times> ('v, 'e) actor_system) option" where
  "sys_resume order cls s =
     (case sys_run_loop cls s of
        Some (Finished _, s1) \<Rightarrow>
          (case sys_stop_all_actors order cls s1 of
             (Inl f, s2) \<Rightarrow> Some (Unwound f, s2)
           | (Inr _, s2) \<Rightarrow> Some (Finished (), s2))
      | r \<Rightarrow> r)"

definition sys_run ::
  "(actor_id list \<Rightarrow> actor_id list) \<Rightarrow> ('v, 'e) classes \<Rightarrow> ('v, 'e) actor_system \<Rightarrow>
   (unit loop_end \<times> ('v, 'e) actor_system) option" where
  "sys_run order cls s = sys_resume order cls (sys_begin_run s)"

text \<open>
  \<^verbatim>\<open>run_once\<close>; the counter is a \<open>nat\<close>, a \<^verbatim>\<open>usize\<close> would need \<open>2 ^ 64\<close> messages to overflow.
\<close>

partial_function (option) sys_run_once_loop ::
  "('v, 'e) classes \<Rightarrow> nat \<Rightarrow> ('v, 'e) actor_system \<Rightarrow> (nat loop_end \<times> ('v, 'e) actor_system) option" where
  "sys_run_once_loop cls n s =
     (case sys_recv s of
        (Received e, s1) \<Rightarrow>
          (case sys_dispatch cls e s1 of
             (Inl f, s2) \<Rightarrow> Some (Unwound f, s2)
           | (Inr _, s2) \<Rightarrow> sys_run_once_loop cls (Suc n) s2)
      | (_, s1) \<Rightarrow> Some (Finished n, s1))"

definition sys_run_once ::
  "('v, 'e) classes \<Rightarrow> ('v, 'e) actor_system \<Rightarrow> (nat loop_end \<times> ('v, 'e) actor_system) option" where
  "sys_run_once cls s = sys_run_once_loop cls 0 s"

declare sys_run_loop.simps [code] and sys_run_once_loop.simps [code]

section \<open>What can happen to a system\<close>

text \<open>
  Other threads hold addresses and act on the channels between two iterations of the loop. The
  guard of a spawn bounds the number of spawns by \<open>2 ^ 64 - 2\<close>, where ids would be used again.
\<close>

inductive sys_step ::
  "('v, 'e) classes \<Rightarrow> ('v, 'e) actor_system \<Rightarrow> ('v, 'e) actor_system \<Rightarrow> bool" for cls where
  step_spawn: "Suc (unat (sys_next_id s)) < 2 ^ 64 \<Longrightarrow> sys_spawn oc st a v s = (r, s') \<Longrightarrow>
     sys_step cls s s'"
| step_send: "sys_step cls s (s\<lparr>sys_world := snd (addr_send_begin adr m (sys_world s))\<rparr>)"
| step_do_send: "sys_step cls s (s\<lparr>sys_world := snd (addr_do_send adr m (sys_world s))\<rparr>)"
| step_clone: "sys_step cls s (s\<lparr>sys_world := snd (addr_clone adr (sys_world s))\<rparr>)"
| step_drop: "sys_step cls s (s\<lparr>sys_world := addr_drop adr (sys_world s)\<rparr>)"
| step_env: "sys_step cls s (s\<lparr>sys_world := (sys_world s)\<lparr>env := e\<rparr>\<rparr>)"
| step_begin_run: "sys_step cls s (sys_begin_run s)"
| step_shutdown: "sys_step cls s (sys_shutdown s)"
| step_recv: "sys_recv s = (Received e, s1) \<Longrightarrow> sys_dispatch cls e s1 = (r, s2) \<Longrightarrow>
     (\<forall>q. r \<noteq> Inl (Blocking q)) \<Longrightarrow> sys_step cls s s2"
| step_remove: "sys_remove_actor cls i s = (r, s') \<Longrightarrow> (\<forall>q. r \<noteq> Inl (Blocking q)) \<Longrightarrow>
     sys_step cls s s'"

inductive sys_steps ::
  "('v, 'e) classes \<Rightarrow> ('v, 'e) actor_system \<Rightarrow> ('v, 'e) actor_system \<Rightarrow> bool" for cls where
  steps_refl: "sys_steps cls s s"
| steps_step: "sys_steps cls s s' \<Longrightarrow> sys_step cls s' s'' \<Longrightarrow> sys_steps cls s s''"

lemma sys_steps_trans: "sys_steps cls s' s'' \<Longrightarrow> sys_steps cls s s' \<Longrightarrow> sys_steps cls s s''"
  by (induction rule: sys_steps.induct) (auto intro: sys_steps.intros)

lemma sys_step_steps: "sys_step cls s s' \<Longrightarrow> sys_steps cls s s'"
  by (rule steps_step[OF steps_refl])

inductive_cases sys_stepE: "sys_step cls s s'"


section \<open>The invariant\<close>

text \<open>
  The life of every actor so far is well-formed; exactly living actors are stored, each with
  the \<^verbatim>\<open>stopped\<close> closure of its own type; ids not handed out yet have no history.
\<close>

definition sys_life :: "('v, 'e) actor_system \<Rightarrow> bool" where
  "sys_life s \<longleftrightarrow>
     hm_wf (actors s)
   \<and> (\<forall>i cell. hm_get (actors s) i = Some cell \<longrightarrow>
        life i (log (sys_world s)) = Alive \<and> on_stop cell = OnStopFn (any_type (actor cell)))
   \<and> (\<forall>i. life i (log (sys_world s)) \<noteq> Broken)
   \<and> (\<forall>i. ActorId (sys_next_id s) \<le> i \<longrightarrow> life i (log (sys_world s)) = Unborn)"

text \<open>
  The system's channel is the only one and its receiver lives as long as the system; every pending reply is owed by exactly one
  queued envelope, and only messages are queued.
\<close>

definition sys_comm :: "('v, 'e) actor_system \<Rightarrow> bool" where
  "sys_comm s \<longleftrightarrow>
     sys_rx s = 0 \<and> sys_tx s \<in> {None, Some 0}
   \<and> length (chans (sys_world s)) = 1 \<and> chan_open (chan_at (sys_world s) 0)
   \<and> acct {#} (sys_world s) \<and> only_messages (sys_world s)"

lemma sys_life_frame:
  assumes "sys_life s" and "actors s' = actors s" and "sys_next_id s' = sys_next_id s"
    and "log (sys_world s') = log (sys_world s)"
  shows "sys_life s'"
  using assms by (simp add: sys_life_def)

lemma sys_life_new: "sys_life (system_new e)"
  by (simp add: sys_life_def system_new_def)

lemma sys_life_remove:
  assumes inv: "sys_life s" and r: "sys_remove_actor cls i s = (r, s')"
  shows "sys_life s'" "hm_get (actors s') i = None"
    "\<And>j. hm_get (actors s') j = (if j = i then None else hm_get (actors s) j)"
    "\<And>cell. hm_get (actors s) i = Some cell \<Longrightarrow> life i (log (sys_world s')) = Dead"
    "\<And>j. j \<noteq> i \<Longrightarrow> life j (log (sys_world s')) = life j (log (sys_world s))"
    "sys_next_id s' = sys_next_id s"
proof -
  have *: "sys_life s' \<and> (\<forall>j. hm_get (actors s') j = (if j = i then None else hm_get (actors s) j))
    \<and> (\<forall>cell. hm_get (actors s) i = Some cell \<longrightarrow> life i (log (sys_world s')) = Dead)
    \<and> (\<forall>j. j \<noteq> i \<longrightarrow> life j (log (sys_world s')) = life j (log (sys_world s)))
    \<and> sys_next_id s' = sys_next_id s"
  proof (cases "hm_get (actors s) i")
    case None
    with inv r show ?thesis by (auto simp: sys_remove_actor_def)
  next
    case (Some cell)
    then have cell: "on_stop cell = OnStopFn (any_type (actor cell))" and al: "life i (log (sys_world s)) = Alive"
      using inv by (auto simp: sys_life_def)
    obtain res act' ctx' w' where d: "call_dispatch cls (on_stop cell) (actor cell) (context_new i)
        (sys_world s) = (res, act', ctx', w')" by (metis prod_cases4)
    have s': "s' = s\<lparr>actors := hm_remove i (actors s), sys_world := w'\<rparr>"
      using r Some d by (simp add: sys_remove_actor_def Let_def)
    have "log w' = log (sys_world s) @ [EvStopped i]"
      using call_dispatch_quiet[OF d] cell by (simp add: call_event_def)
    with inv al show ?thesis
      unfolding sys_life_def s' by (auto simp: less_eq_actor_id_def)
  qed
  then show "sys_life s'" "hm_get (actors s') i = None"
    "\<And>j. hm_get (actors s') j = (if j = i then None else hm_get (actors s) j)"
    "\<And>cell. hm_get (actors s) i = Some cell \<Longrightarrow> life i (log (sys_world s')) = Dead"
    "\<And>j. j \<noteq> i \<Longrightarrow> life j (log (sys_world s')) = life j (log (sys_world s))"
    "sys_next_id s' = sys_next_id s"
    by auto
qed

text \<open>What an envelope's closure puts into the trace of an actor that is stored.\<close>

lemma sys_life_after_call:
  assumes inv: "sys_life s" and cell: "hm_get (actors s) i = Some cell"
    and d: "call_dispatch cls (env_dispatch e) (actor cell) (context_new i) (sys_world s) = (res, act', ctx', w')"
    and f: "\<And>a. env_dispatch e \<noteq> OnStopFn a"
  shows "sys_life (s\<lparr>actors := hm_insert i (cell\<lparr>actor := act'\<rparr>) (actors s), sys_world := w'\<rparr>)"
proof -
  have "log w' = log (sys_world s) @ call_event (env_dispatch e) (actor cell) i"
    using call_dispatch_quiet[OF d] by simp
  moreover have "call_event (env_dispatch e) (actor cell) i = [] \<or>
      (\<exists>m. call_event (env_dispatch e) (actor cell) i = [EvHandled i m])"
    using f by (auto simp: call_event_def split: dispatch_fn.splits)
  ultimately have l: "life j (log w') = life j (log (sys_world s))" for j
    using inv cell by (auto simp: sys_life_def)
  show ?thesis
    using inv cell call_dispatch_type[OF d] unfolding sys_life_def by (auto simp: l)
qed

lemma sys_life_dispatch:
  assumes inv: "sys_life s" and r: "sys_dispatch cls e s = (r, s')"
    and f: "\<And>a. env_dispatch e \<noteq> OnStopFn a"
  shows "sys_life s'"
proof (cases "hm_get (actors s) (env_actor_id e)")
  case None
  with inv r show ?thesis
    by (auto simp: sys_dispatch_def intro: sys_life_frame[OF inv])
next
  case (Some cell)
  obtain res act' ctx' w' where d: "call_dispatch cls (env_dispatch e) (actor cell)
      (context_new (env_actor_id e)) (sys_world s) = (res, act', ctx', w')" by (metis prod_cases4)
  from sys_life_after_call[OF inv Some d f]
  show ?thesis
    using r Some d sys_life_remove(1)
    by (auto simp: sys_dispatch_def Let_def split: sum.splits if_splits)
qed


lemma sys_recv_Received:
  assumes "sys_recv s = (Received e, s1)"
  obtains es where "chan_queue (chan_at (sys_world s) (sys_rx s)) = e # es"
    "\<And>c. chan_queue (chan_at (sys_world s1) c) =
        (if c = sys_rx s then es else chan_queue (chan_at (sys_world s) c))"
    "\<And>c. chan_open (chan_at (sys_world s1) c) = chan_open (chan_at (sys_world s) c)"
    "length (chans (sys_world s1)) = length (chans (sys_world s))"
    "replies (sys_world s1) = replies (sys_world s)"
proof -
  let ?ch = "chan_at (sys_world s) (sys_rx s)"
  obtain es where q: "chan_queue ?ch = e # es"
    using assms by (auto simp: sys_recv_def chan_try_recv_def split: list.splits if_splits)
  then have l: "sys_rx s < length (chans (sys_world s))"
    by (auto simp: chan_at_def split: if_splits)
  have s1: "s1 = s\<lparr>sys_world := upd_chan (sys_rx s) (\<lambda>_. ?ch\<lparr>chan_queue := es\<rparr>) (sys_world s)\<rparr>"
    using assms q by (auto simp: sys_recv_def chan_try_recv_simps)
  show ?thesis by (rule that[OF q]) (use l in \<open>simp_all add: s1\<close>)
qed

lemma sys_recv_frame:
  "sys_recv s = (r, s1) \<Longrightarrow> actors s1 = actors s \<and> sys_rx s1 = sys_rx s \<and> sys_tx s1 = sys_tx s
     \<and> sys_next_id s1 = sys_next_id s \<and> sys_running s1 = sys_running s
     \<and> log (sys_world s1) = log (sys_world s)"
  by (auto simp: sys_recv_def split: prod.splits)

lemma sys_recv_not_Received:
  assumes "sys_recv s = (r, s1)" and "\<And>e. r \<noteq> Received e"
  shows "chan_queue (chan_at (sys_world s) (sys_rx s)) = []" "s1 = s"
    "r = (if chan_senders (chan_at (sys_world s) (sys_rx s)) = 0 then Disconnected else Empty)"
proof -
  let ?ch = "chan_at (sys_world s) (sys_rx s)"
  show q: "chan_queue ?ch = []"
    using assms by (auto simp: sys_recv_def chan_try_recv_def split: list.splits)
  have u: "upd_chan (sys_rx s) (\<lambda>_. ?ch) (sys_world s) = sys_world s"
    by (simp add: upd_chan_def chan_at_def) (metis list_update_beyond list_update_id not_less
        world.surjective world.update_convs(1))
  show "s1 = s" "r = (if chan_senders ?ch = 0 then Disconnected else Empty)"
    using assms(1) q by (auto simp: sys_recv_def chan_try_recv_simps u split: if_splits)
qed

lemma sys_comm_recv:
  assumes inv: "sys_comm s" and r: "sys_recv s = (Received e, s1)"
  shows "acct (queue_replies [e]) (sys_world s1)" "only_messages (sys_world s1)" "is_message e"
    "chan_open (chan_at (sys_world s1) (sys_rx s1))" "sys_rx s1 = sys_rx s" "sys_tx s1 = sys_tx s"
    "length (chans (sys_world s1)) = 1" "sys_rx s1 = 0"
proof -
  obtain es where e: "chan_queue (chan_at (sys_world s) (sys_rx s)) = e # es"
    "\<And>c. chan_queue (chan_at (sys_world s1) c) =
        (if c = sys_rx s then es else chan_queue (chan_at (sys_world s) c))"
    "\<And>c. chan_open (chan_at (sys_world s1) c) = chan_open (chan_at (sys_world s) c)"
    "length (chans (sys_world s1)) = length (chans (sys_world s))"
    "replies (sys_world s1) = replies (sys_world s)"
    using sys_recv_Received[OF r] by metis
  show rx: "sys_rx s1 = sys_rx s" and "sys_tx s1 = sys_tx s"
    using sys_recv_frame[OF r] by simp_all
  have "owed (sys_world s) = queue_replies [e] + owed (sys_world s1)"
    by (rule owed_pop[OF e(1,4,2)])
  then show "acct (queue_replies [e]) (sys_world s1)"
    using inv by (simp add: sys_comm_def acct_def e(5))
  show "only_messages (sys_world s1)"
  proof (rule only_messages_frame[of _ "sys_world s"])
    show "set (chan_queue (chan_at (sys_world s1) c)) \<subseteq> set (chan_queue (chan_at (sys_world s) c))" for c
      using e(1) by (auto simp: e(2))
  qed (use inv in \<open>simp add: sys_comm_def\<close>)
  show "is_message e"
    using inv e(1) by (metis list.set_intros(1) only_messages_def sys_comm_def)
  show "length (chans (sys_world s1)) = 1" and "sys_rx s1 = 0"
    using inv e(4) rx by (simp_all add: sys_comm_def)
  show "chan_open (chan_at (sys_world s1) (sys_rx s1))"
    using inv rx e(3) by (simp add: sys_comm_def)
qed

lemma call_dispatch_chans:
  assumes "call_dispatch cls f act ctx w = (res, act', ctx', w')"
  shows "chan_open (chan_at w' c) = chan_open (chan_at w c)" "length (chans w') = length (chans w)"
proof -
  obtain w1 where "comm_ext w w1" "chans w' = chans w1"
    using call_dispatch_comm[OF assms] by blast
  then show "chan_open (chan_at w' c) = chan_open (chan_at w c)" "length (chans w') = length (chans w)"
    by (simp_all add: comm_ext_def chan_at_cong[of w' w1])
qed

lemma sys_comm_remove:
  assumes inv: "sys_comm s" and r: "sys_remove_actor cls i s = (r, s')"
    and stop: "\<And>cell. hm_get (actors s) i = Some cell \<Longrightarrow> \<exists>a. on_stop cell = OnStopFn a"
  shows "sys_comm s'"
proof (cases "hm_get (actors s) i")
  case None
  with inv r show ?thesis by (simp add: sys_remove_actor_def)
next
  case (Some cell)
  define e where "e = \<lparr>env_actor_id = i, env_dispatch = on_stop cell\<rparr>"
  have none: "reply_of e = None" using stop[OF Some] by (auto simp: e_def reply_of_def)
  obtain res act' ctx' w' where d: "call_dispatch cls (env_dispatch e) (actor cell) (context_new i)
      (sys_world s) = (res, act', ctx', w')" by (metis prod_cases4)
  have s': "s' = s\<lparr>actors := hm_remove i (actors s), sys_world := w'\<rparr>"
    using r Some d by (simp add: sys_remove_actor_def Let_def e_def)
  have "acct (queue_replies [e] + {#}) (sys_world s)" using inv none by (simp add: sys_comm_def)
  from call_dispatch_acct[OF d this] none have "acct {#} w'"
    by (simp split: sum.splits fault.splits)
  with call_dispatch_messages[OF d] call_dispatch_chans[OF d] inv show ?thesis
    by (simp add: sys_comm_def s')
qed

lemma sys_comm_dispatch:
  assumes inv: "sys_comm s" and rcv: "sys_recv s = (Received e, s1)" and life: "sys_life s"
    and r: "sys_dispatch cls e s1 = (r, s2)" and nb: "\<forall>q. r \<noteq> Inl (Blocking q)"
  shows "sys_comm s2"
proof -
  note c = sys_comm_recv[OF inv rcv]
  have tx: "sys_tx s1 \<in> {None, Some (sys_rx s1)}" using inv c(5,6) by (simp add: sys_comm_def)
  have act: "actors s1 = actors s" using sys_recv_frame[OF rcv] by simp
  show ?thesis
  proof (cases "hm_get (actors s1) (env_actor_id e)")
    case None
    have "only_messages (drop_envelope e (sys_world s1))"
      by (rule only_messages_frame[OF _ c(2)]) simp
    then show ?thesis
      using r None c tx acct_drop_envelope[of e "{#}" "sys_world s1"]
      by (auto simp: sys_dispatch_def sys_comm_def)
  next
    case (Some cell)
    obtain res act' ctx' w' where d: "call_dispatch cls (env_dispatch e) (actor cell)
        (context_new (env_actor_id e)) (sys_world s1) = (res, act', ctx', w')" by (metis prod_cases4)
    define s3 where "s3 = s1\<lparr>actors := hm_insert (env_actor_id e) (cell\<lparr>actor := act'\<rparr>) (actors s1),
        sys_world := w'\<rparr>"
    have nb': "res \<noteq> Inl (Blocking q)" for q
      using r nb Some d by (auto simp: sys_dispatch_def)
    have "acct {#} w'"
      using call_dispatch_acct[OF d, of "{#}"] c(1) nb' by (auto split: sum.splits fault.splits)
    then have s3: "sys_comm s3"
      using c tx call_dispatch_messages[OF d] call_dispatch_chans[OF d]
      by (simp add: sys_comm_def s3_def)
    have stop: "\<exists>a. on_stop cell' = OnStopFn a"
      if "hm_get (actors s3) (env_actor_id e) = Some cell'" for cell'
      using that life Some act by (auto simp: s3_def sys_life_def)
    have "s2 = s3 \<or> sys_remove_actor cls (env_actor_id e) s3 = (r, s2)"
      using r Some d by (auto simp: sys_dispatch_def Let_def s3_def split: sum.splits if_splits)
    with s3 sys_comm_remove[OF s3 _ stop] show ?thesis by metis
  qed
qed


lemma next_id_above:
  assumes "Suc (unat n) < 2 ^ 64" and "ActorId (n + 1) \<le> i"
  shows "ActorId n \<le> i" and "i \<noteq> ActorId n"
  using assms by (auto simp: less_eq_actor_id_def word_le_nat_alt unat_plus_one)

lemma sys_spawn_E:
  assumes "sys_spawn oc st a v s = (r, s')" and "Suc (unat (sys_next_id s)) < 2 ^ 64"
  obtains (No_tx) "sys_tx s = None" "r = Inl (Panicking (PString ''spawn called after run''))"
      "s' = s\<lparr>sys_next_id := sys_next_id s + 1\<rparr>"
  | (Start_fault) tx f w2 where "sys_tx s = Some tx" "r = Inl f"
      "s' = s\<lparr>sys_next_id := sys_next_id s + 1, sys_world := upd_chan tx chan_drop_tx w2\<rparr>"
      "\<exists>v' ctx'. exec st v (context_new (ActorId (sys_next_id s))) (log_event (EvStarted (ActorId (sys_next_id s)) a)
          (upd_chan tx chan_clone_tx (sys_world s))) = (Inl f, v', ctx', w2)"
  | (Spawned) tx x v' ctx' w2 where "sys_tx s = Some tx" "r = Inr (addr_new (ActorId (sys_next_id s)) tx a)"
      "s' = s\<lparr>sys_next_id := sys_next_id s + 1, actors := hm_insert (ActorId (sys_next_id s))
          \<lparr>actor = \<lparr>any_type = a, any_val = v'\<rparr>, on_stop = OnStopFn a\<rparr> (actors s), sys_world := w2\<rparr>"
      "exec st v (context_new (ActorId (sys_next_id s))) (log_event (EvStarted (ActorId (sys_next_id s)) a)
          (upd_chan tx chan_clone_tx (sys_world s))) = (Inr x, v', ctx', w2)"
proof -
  have n: "add_profile oc (sys_next_id s) 1 = Some (sys_next_id s + 1)"
    using assms(2) by (intro add_profile_small) simp
  show ?thesis
  proof (cases "sys_tx s")
    case None
    with assms(1) n No_tx show ?thesis by (auto simp: sys_spawn_def Let_def)
  next
    case (Some tx)
    obtain res v' ctx' w2 where x: "exec st v (context_new (ActorId (sys_next_id s)))
        (log_event (EvStarted (ActorId (sys_next_id s)) a) (upd_chan tx chan_clone_tx (sys_world s)))
        = (res, v', ctx', w2)" by (metis prod_cases4)
    show ?thesis
    proof (cases res)
      case (Inl f)
      with assms(1) n Some x Start_fault show ?thesis by (auto simp: sys_spawn_def Let_def)
    next
      case (Inr y)
      with assms(1) n Some x Spawned show ?thesis by (auto simp: sys_spawn_def Let_def)
    qed
  qed
qed

lemma sys_life_spawn:
  assumes inv: "sys_life s" and n: "Suc (unat (sys_next_id s)) < 2 ^ 64"
    and r: "sys_spawn oc st a v s = (r, s')"
  shows "sys_life s'"
proof -
  let ?i = "ActorId (sys_next_id s)"
  have un: "life ?i (log (sys_world s)) = Unborn" using inv by (simp add: sys_life_def)
  have above: "life j (log (sys_world s)) = Unborn \<and> j \<noteq> ?i" if "ActorId (sys_next_id s + 1) \<le> j" for j
    using next_id_above[OF n that] inv by (simp add: sys_life_def)
  have fresh: "hm_get (actors s) ?i = None"
    using inv un by (cases "hm_get (actors s) ?i") (auto simp: sys_life_def)
  have l: "life j (log w2) = (if j = ?i then Alive else life j (log (sys_world s)))"
    if "exec st v (context_new ?i) (log_event (EvStarted ?i a) (upd_chan tx chan_clone_tx (sys_world s)))
      = (res, v', ctx', w2)" for j tx res v' ctx' w2
    using exec_quiet[OF that] un by auto
  from r n show ?thesis
  proof (cases rule: sys_spawn_E)
    case No_tx
    with inv above show ?thesis by (auto simp: sys_life_def)
  next
    case (Start_fault tx f w2)
    then obtain v' ctx' where x: "exec st v (context_new ?i) (log_event (EvStarted ?i a)
        (upd_chan tx chan_clone_tx (sys_world s))) = (Inl f, v', ctx', w2)" by blast
    show ?thesis
      using inv above fresh unfolding sys_life_def Start_fault(3) by (auto simp: l[OF x])
  next
    case (Spawned tx x v' ctx' w2)
    show ?thesis
      using inv above unfolding sys_life_def Spawned(3) by (auto simp: l[OF Spawned(4)])
  qed
qed

lemma sys_comm_frame:
  assumes "sys_comm s" and "sys_rx s' = sys_rx s" and "sys_tx s' \<in> {None, sys_tx s}"
    and "chan_open (chan_at (sys_world s') (sys_rx s)) = chan_open (chan_at (sys_world s) (sys_rx s))"
    and "acct {#} (sys_world s')" and "only_messages (sys_world s')"
    and "length (chans (sys_world s')) = length (chans (sys_world s))"
  shows "sys_comm s'"
  using assms by (auto simp: sys_comm_def)

lemma sys_comm_spawn:
  assumes inv: "sys_comm s" and n: "Suc (unat (sys_next_id s)) < 2 ^ 64"
    and r: "sys_spawn oc st a v s = (r, s')"
  shows "sys_comm s'"
proof -
  let ?i = "ActorId (sys_next_id s)"
  have x: "acct {#} w2 \<and> only_messages w2
      \<and> chan_open (chan_at w2 (sys_rx s)) = chan_open (chan_at (sys_world s) (sys_rx s))
      \<and> length (chans w2) = length (chans (sys_world s))"
    if "exec st v (context_new ?i) (log_event (EvStarted ?i a) (upd_chan tx chan_clone_tx (sys_world s)))
      = (res, v', ctx', w2)" for tx res v' ctx' w2
    using exec_acct[OF that, of "{#}"] exec_messages[OF that] exec_comm[OF that] inv
    by (auto simp: sys_comm_def comm_ext_def)
  from r n show ?thesis
  proof (cases rule: sys_spawn_E)
    case No_tx
    with inv show ?thesis by (simp add: sys_comm_def)
  next
    case (Start_fault tx f w2)
    with x show ?thesis by (intro sys_comm_frame[OF inv]) auto
  next
    case (Spawned tx y v' ctx' w2)
    with x[OF Spawned(4)] show ?thesis by (intro sys_comm_frame[OF inv]) auto
  qed
qed

section \<open>Every reachable state\<close>

definition sys_inv :: "('v, 'e) actor_system \<Rightarrow> bool" where
  "sys_inv s \<longleftrightarrow> sys_life s \<and> sys_comm s"

lemma sys_inv_new: "sys_inv (system_new e)"
proof -
  have "acct {#} (sys_world (system_new e :: ('a, 'b) actor_system))"
    by (simp add: acct_def owed_def system_new_def chan_at_def chan_new_def)
  then show ?thesis
    by (simp add: sys_inv_def sys_life_new sys_comm_def)
      (simp add: only_messages_def system_new_def chan_at_def chan_new_def)
qed

lemma sys_begin_run_inv: "sys_inv s \<Longrightarrow> sys_inv (sys_begin_run s)"
proof -
  assume inv: "sys_inv s"
  then show ?thesis
    by (auto simp: sys_inv_def sys_begin_run_def sys_comm_def Let_def
        intro: sys_life_frame split: option.splits)
qed

lemma sys_dispatch_message:
  "sys_comm s \<Longrightarrow> sys_recv s = (Received e, s1) \<Longrightarrow> env_dispatch e \<noteq> OnStopFn a"
  using sys_comm_recv(3)[of s e s1] by (auto simp: is_message_def)

lemma sys_step_inv: "sys_step cls s s' \<Longrightarrow> sys_inv s \<Longrightarrow> sys_inv s'"
proof (induction rule: sys_step.induct)
  case (step_spawn s oc st a v r s')
  then show ?case by (auto simp: sys_inv_def intro: sys_life_spawn sys_comm_spawn)
next
  case (step_send s adr m)
  then show ?case
    using messages.api_send[of "sys_world s" adr m]
    by (auto simp: sys_inv_def sys_comm_def acct_send_begin intro: sys_life_frame)
next
  case (step_do_send s adr m)
  then show ?case
    using messages.api_do_send[of "sys_world s" adr m]
    by (auto simp: sys_inv_def sys_comm_def acct_do_send intro: sys_life_frame)
next
  case (step_clone s adr)
  then show ?case
    using messages.api_clone[of "sys_world s" adr] reply_acct.api_clone[of "sys_world s" adr]
    by (auto simp: sys_inv_def sys_comm_def intro: sys_life_frame)
next
  case (step_drop s adr)
  then show ?case
    using messages.api_drop[of "sys_world s" adr] reply_acct.api_drop[of "sys_world s" adr]
    by (auto simp: sys_inv_def sys_comm_def intro: sys_life_frame)
next
  case (step_env s e)
  then show ?case
    using messages.api_env[of "sys_world s" e] reply_acct.api_env[of "sys_world s" e]
    by (auto simp: sys_inv_def sys_comm_def intro: sys_life_frame)
next
  case (step_begin_run s)
  then show ?case by (rule sys_begin_run_inv)
next
  case (step_shutdown s)
  then show ?case by (auto simp: sys_inv_def sys_shutdown_def sys_comm_def intro: sys_life_frame)
next
  case (step_recv s e s1 r s2)
  have "sys_life s1"
    using step_recv sys_recv_frame[OF step_recv(1)] by (auto simp: sys_inv_def intro: sys_life_frame)
  then have "sys_life s2"
    using sys_life_dispatch[OF _ step_recv(2)] sys_dispatch_message[OF _ step_recv(1)] step_recv(4)
    by (simp add: sys_inv_def)
  with step_recv show ?case by (auto simp: sys_inv_def intro: sys_comm_dispatch)
next
  case (step_remove i s r s')
  then have "\<exists>a. on_stop cell = OnStopFn a" if "hm_get (actors s) i = Some cell" for cell
    using that by (auto simp: sys_inv_def sys_life_def)
  with step_remove show ?case
    by (auto simp: sys_inv_def intro: sys_life_remove(1) sys_comm_remove)
qed

lemma sys_steps_inv: "sys_steps cls s s' \<Longrightarrow> sys_inv s \<Longrightarrow> sys_inv s'"
  by (induction rule: sys_steps.induct) (auto intro: sys_step_inv)

end
