(* ===== verification/System_Loops.thy ===== *)
theory System_Loops
  imports System
begin

text \<open>
  The event loops of \<^verbatim>\<open>ActorSystem\<close> as a whole: they make only the steps of \<open>sys_step\<close>, what
  they leave behind when they return, and when they return.
\<close>

section \<open>The loops make steps\<close>

lemma sys_recv_dispatch_step:
  "sys_recv s = (Received e, s1) \<Longrightarrow> sys_dispatch cls e s1 = (Inr u, s2) \<Longrightarrow> sys_step cls s s2"
  by (rule step_recv) auto

lemma sys_run_once_loop_E:
  assumes "sys_run_once_loop cls n s = Some (Finished m, s')"
  shows "sys_steps cls s s' \<and> n \<le> m \<and> (\<exists>r. sys_recv s' = (r, s') \<and> (\<forall>e. r \<noteq> Received e))"
proof -
  have "\<forall>k. fst res = Finished k \<longrightarrow> sys_steps cls s (snd res) \<and> n \<le> k \<and>
      (\<exists>r. sys_recv (snd res) = (r, snd res) \<and> (\<forall>e. r \<noteq> Received e))"
    if "sys_run_once_loop cls n s = Some res" for res
  proof (rule sys_run_once_loop.raw_induct[where P = "\<lambda>cls n s res. \<forall>k. fst res = Finished k \<longrightarrow>
      sys_steps cls s (snd res) \<and> n \<le> k \<and>
      (\<exists>r. sys_recv (snd res) = (r, snd res) \<and> (\<forall>e. r \<noteq> Received e))", OF _ that])
    fix f :: "('a, 'b) classes \<Rightarrow> nat \<Rightarrow> ('a, 'b) actor_system \<Rightarrow> (nat loop_end \<times> ('a, 'b) actor_system) option"
      and cls n s res
    assume IH: "\<And>cls n s res. f cls n s = Some res \<Longrightarrow> \<forall>k. fst res = Finished k \<longrightarrow>
        sys_steps cls s (snd res) \<and> n \<le> k \<and> (\<exists>r. sys_recv (snd res) = (r, snd res) \<and> (\<forall>e. r \<noteq> Received e))"
      and eq: "(case sys_recv s of
          (Received e, s1) \<Rightarrow>
            (case sys_dispatch cls e s1 of
               (Inl g, s2) \<Rightarrow> Some (Unwound g, s2)
             | (Inr _, s2) \<Rightarrow> f cls (Suc n) s2)
        | (_, s1) \<Rightarrow> Some (Finished n, s1)) = Some res"
    obtain r s1 where rc: "sys_recv s = (r, s1)" by (cases "sys_recv s")
    show "\<forall>k. fst res = Finished k \<longrightarrow> sys_steps cls s (snd res) \<and> n \<le> k \<and>
        (\<exists>r. sys_recv (snd res) = (r, snd res) \<and> (\<forall>e. r \<noteq> Received e))"
    proof (cases "\<exists>e. r = Received e")
      case True
      then obtain e where re: "r = Received e" by blast
      obtain d s2 where d: "sys_dispatch cls e s1 = (d, s2)" by (cases "sys_dispatch cls e s1")
      show ?thesis
      proof (cases d)
        case (Inl g)
        with eq rc re d show ?thesis by auto
      next
        case (Inr u)
        then have st: "sys_steps cls s s2"
          using rc re d by (auto intro: sys_step_steps sys_recv_dispatch_step)
        from Inr eq rc re d have "f cls (Suc n) s2 = Some res" by simp
        from IH[OF this] st show ?thesis by (auto intro: sys_steps_trans)
      qed
    next
      case False
      with sys_recv_not_Received(2)[OF rc] have "s1 = s" by blast
      with False eq rc show ?thesis by (cases r) (auto intro: steps_refl)
    qed
  qed
  from this[OF assms] show ?thesis by simp
qed

lemma sys_run_once_empty:
  assumes "sys_run_once cls s = Some (Finished m, s')"
  shows "chan_queue (chan_at (sys_world s') (sys_rx s')) = []"
    and "sys_run_once cls s' = Some (Finished 0, s')" and "sys_steps cls s s'"
proof -
  obtain r where r: "sys_recv s' = (r, s')" "\<forall>e. r \<noteq> Received e" and st: "sys_steps cls s s'"
    using sys_run_once_loop_E assms unfolding sys_run_once_def by metis
  show "chan_queue (chan_at (sys_world s') (sys_rx s')) = []"
    using r(2) by (intro sys_recv_not_Received(1)[OF r(1)]) simp
  show "sys_run_once cls s' = Some (Finished 0, s')"
    unfolding sys_run_once_def using r by (subst sys_run_once_loop.simps) (auto split: recv.splits)
  show "sys_steps cls s s'" by (rule st)
qed

section \<open>Stopping every actor\<close>

lemma sys_remove_all_E:
  assumes "sys_inv s" and "sys_remove_all cls is s = (Inr u, s')"
  shows "sys_inv s' \<and> (\<forall>j. hm_get (actors s') j = (if j \<in> set is then None else hm_get (actors s) j))
    \<and> (\<forall>j. life j (log (sys_world s')) =
         (if j \<in> set is \<and> hm_get (actors s) j \<noteq> None then Dead else life j (log (sys_world s))))"
  using assms
proof (induction "is" arbitrary: s)
  case (Cons i "is")
  obtain d s1 where d: "sys_remove_actor cls i s = (d, s1)" by (cases "sys_remove_actor cls i s")
  with Cons.prems(2) have dr: "d = Inr ()" and rest: "sys_remove_all cls is s1 = (Inr u, s')"
    by (auto split: sum.splits)
  have inv1: "sys_inv s1"
    using sys_step_inv[OF step_remove[OF d] Cons.prems(1)] dr by simp
  have l: "sys_life s" using Cons.prems(1) by (simp add: sys_inv_def)
  note r = sys_life_remove(3)[OF l d] sys_life_remove(4)[OF l d] sys_life_remove(5)[OF l d]
  have dead: "life i (log (sys_world s1)) = Dead" if "hm_get (actors s) i \<noteq> None"
    using that r(2) by auto
  have none: "life i (log (sys_world s1)) = life i (log (sys_world s))" if "hm_get (actors s) i = None"
    using that d by (auto simp: sys_remove_actor_def)
  from Cons.IH[OF inv1 rest] r(1,3) dead none show ?case by auto
qed auto

lemma sys_stop_all_E:
  assumes inv: "sys_inv s" and ord: "permutes_keys order"
    and stop: "sys_stop_all_actors order cls s = (Inr u, s')"
  shows "actors s' = []" and "sys_inv s'"
    and "\<And>j. hm_get (actors s) j \<noteq> None \<Longrightarrow> life j (log (sys_world s')) = Dead"
    and "\<And>j. life j (log (sys_world s)) = Dead \<Longrightarrow> life j (log (sys_world s')) = Dead"
proof -
  have s: "set (order (hm_keys (actors s))) = {j. hm_get (actors s) j \<noteq> None}"
    by (simp add: permutes_keys_set[OF ord] set_hm_keys)
  note e = sys_remove_all_E[OF inv stop[unfolded sys_stop_all_actors_def]]
  show "sys_inv s'" using e by blast
  have "hm_get (actors s') j = None" for j using e s by auto
  then have "hm_keys (actors s') = []" by (simp add: hm.keys_Nil_iff)
  then show "actors s' = []" by (simp add: hm_keys_def)
  show "hm_get (actors s) j \<noteq> None \<Longrightarrow> life j (log (sys_world s')) = Dead" for j
    using e s by auto
  show "life j (log (sys_world s)) = Dead \<Longrightarrow> life j (log (sys_world s')) = Dead" for j
    using e s by auto
qed

text \<open>Stored actors stay stored until they are stopped, and the dead stay dead.\<close>

lemma life_dead_append: "life i evs = Dead \<Longrightarrow> life i (evs @ fs) \<in> {Dead, Broken}"
proof (induction fs rule: rev_induct)
  case (snoc ev fs)
  then show ?case by (cases ev) (auto simp flip: append_assoc)
qed simp

lemma sys_remove_log: "sys_remove_actor cls i s = (r, s') \<Longrightarrow> \<exists>evs. log (sys_world s') = log (sys_world s) @ evs"
  by (auto simp: sys_remove_actor_def Let_def dest!: call_dispatch_quiet split: option.splits prod.splits)

lemma sys_dispatch_log:
  assumes "sys_dispatch cls e s = (r, s')"
  shows "\<exists>evs. log (sys_world s') = log (sys_world s) @ evs"
proof (cases "hm_get (actors s) (env_actor_id e)")
  case (Some cell)
  obtain res act' ctx' w' where d: "call_dispatch cls (env_dispatch e) (actor cell)
      (context_new (env_actor_id e)) (sys_world s) = (res, act', ctx', w')" by (metis prod_cases4)
  have "log w' = log (sys_world s) @ call_event (env_dispatch e) (actor cell) (env_actor_id e)"
    using call_dispatch_quiet[OF d] by simp
  with assms Some d show ?thesis
    by (auto simp: sys_dispatch_def Let_def dest: sys_remove_log split: sum.splits if_splits)
qed (use assms in \<open>auto simp: sys_dispatch_def\<close>)

lemma sys_step_log: "sys_step cls s s' \<Longrightarrow> \<exists>evs. log (sys_world s') = log (sys_world s) @ evs"
proof (induction rule: sys_step.induct)
  case (step_spawn s oc st a v r s')
  from step_spawn(2,1) show ?case
    by (cases rule: sys_spawn_E) (auto dest!: exec_quiet)
next
  case (step_recv s e s1 r s2)
  then show ?case using sys_dispatch_log[OF step_recv(2)] sys_recv_frame[OF step_recv(1)] by simp
next
  case (step_remove i s r s')
  then show ?case by (blast intro: sys_remove_log)
qed (auto simp: sys_begin_run_def sys_shutdown_def Let_def split: option.splits)

lemma sys_dispatch_stored:
  assumes inv: "sys_life s" and r: "sys_dispatch cls e s = (r, s')"
    and f: "\<And>a. env_dispatch e \<noteq> OnStopFn a" and j: "hm_get (actors s) j \<noteq> None"
  shows "hm_get (actors s') j \<noteq> None \<or> life j (log (sys_world s')) = Dead"
proof (cases "hm_get (actors s) (env_actor_id e)")
  case None
  with r j show ?thesis by (auto simp: sys_dispatch_def)
next
  case (Some cell)
  obtain res act' ctx' w' where d: "call_dispatch cls (env_dispatch e) (actor cell)
      (context_new (env_actor_id e)) (sys_world s) = (res, act', ctx', w')" by (metis prod_cases4)
  define s1 where "s1 = s\<lparr>actors := hm_insert (env_actor_id e) (cell\<lparr>actor := act'\<rparr>) (actors s),
      sys_world := w'\<rparr>"
  have inv1: "sys_life s1" unfolding s1_def by (rule sys_life_after_call[OF inv Some d f])
  have j1: "hm_get (actors s1) j \<noteq> None" using j by (simp add: s1_def)
  have "s' = s1 \<or> sys_remove_actor cls (env_actor_id e) s1 = (r, s')"
    using r Some d by (auto simp: sys_dispatch_def Let_def s1_def split: sum.splits if_splits)
  then show ?thesis
  proof
    assume rm: "sys_remove_actor cls (env_actor_id e) s1 = (r, s')"
    show ?thesis
      using sys_life_remove(3)[OF inv1 rm, of j] sys_life_remove(4)[OF inv1 rm] j1
      by (cases "j = env_actor_id e") auto
  qed (use j1 in simp)
qed

definition stored_or_dead :: "actor_id set \<Rightarrow> ('v, 'e) actor_system \<Rightarrow> bool" where
  "stored_or_dead I s \<longleftrightarrow>
     (\<forall>i \<in> I. hm_get (actors s) i \<noteq> None \<or> life i (log (sys_world s)) = Dead)"

lemma sys_step_stored:
  assumes "sys_step cls s s'" and "sys_inv s" and "hm_get (actors s) j \<noteq> None"
  shows "hm_get (actors s') j \<noteq> None \<or> life j (log (sys_world s')) = Dead"
  using assms
proof (induction rule: sys_step.induct)
  case (step_spawn s oc st a v r s')
  from step_spawn(2,1,4) show ?case
    by (cases rule: sys_spawn_E) auto
next
  case (step_recv s e s1 r s2)
  have "sys_life s1"
    using step_recv sys_recv_frame[OF step_recv(1)] by (auto simp: sys_inv_def intro: sys_life_frame)
  from sys_dispatch_stored[OF this step_recv(2)] show ?case
    using step_recv sys_dispatch_message[OF _ step_recv(1)] sys_recv_frame[OF step_recv(1)]
    by (simp add: sys_inv_def)
next
  case (step_remove i s r s')
  then have l: "sys_life s" by (simp add: sys_inv_def)
  show ?case
    using sys_life_remove(3)[OF l step_remove(1), of j] sys_life_remove(4)[OF l step_remove(1)] step_remove(4)
    by (cases "j = i") auto
qed (auto simp: sys_begin_run_def sys_shutdown_def Let_def split: option.splits)

lemma sys_steps_stored:
  "sys_steps cls s s' \<Longrightarrow> sys_inv s \<Longrightarrow> stored_or_dead I s \<Longrightarrow> stored_or_dead I s'"
proof (induction rule: sys_steps.induct)
  case (steps_step s s' s'')
  then have inv: "sys_inv s'" and st: "stored_or_dead I s'" by (auto intro: sys_steps_inv)
  have inv'': "sys_inv s''" using steps_step(2) inv by (rule sys_step_inv)
  have "life i (log (sys_world s'')) = Dead" if "life i (log (sys_world s')) = Dead" for i
  proof -
    obtain evs where "log (sys_world s'') = log (sys_world s') @ evs"
      using sys_step_log[OF steps_step(2)] by blast
    moreover have "life i (log (sys_world s'')) \<noteq> Broken"
      using inv'' by (simp add: sys_inv_def sys_life_def)
    ultimately show ?thesis using life_dead_append[OF that, of evs] by simp
  qed
  with sys_step_stored[OF steps_step(2) inv] st show ?case
    unfolding stored_or_dead_def by blast
qed

section \<open>The blocking loop\<close>

lemma sys_run_loop_E:
  assumes "sys_run_loop cls s = Some (Finished u, s')"
  shows "sys_steps cls s s'"
proof -
  have "fst res = Finished () \<longrightarrow> sys_steps cls s (snd res)" if "sys_run_loop cls s = Some res" for res
  proof (rule sys_run_loop.raw_induct[where P = "\<lambda>cls s res. fst res = Finished () \<longrightarrow>
      sys_steps cls s (snd res)", OF _ that])
    fix f :: "('a, 'b) classes \<Rightarrow> ('a, 'b) actor_system \<Rightarrow> (unit loop_end \<times> ('a, 'b) actor_system) option"
      and cls s res
    assume IH: "\<And>cls s res. f cls s = Some res \<Longrightarrow> fst res = Finished () \<longrightarrow> sys_steps cls s (snd res)"
      and eq: "(if sys_running s then
          (case sys_recv s of
             (Received e, s1) \<Rightarrow>
               (case sys_dispatch cls e s1 of
                  (Inl g, s2) \<Rightarrow> Some (Unwound g, s2)
                | (Inr _, s2) \<Rightarrow> f cls s2)
           | (Empty, s1) \<Rightarrow> Some (Waiting, s1)
           | (Disconnected, s1) \<Rightarrow> f cls (s1\<lparr>sys_running := False\<rparr>))
        else Some (Finished (), s)) = Some res"
    show "fst res = Finished () \<longrightarrow> sys_steps cls s (snd res)"
    proof (cases "sys_running s")
      case False
      with eq show ?thesis by (auto intro: steps_refl)
    next
      case True
      obtain r s1 where rc: "sys_recv s = (r, s1)" by (cases "sys_recv s")
      show ?thesis
      proof (cases r)
        case (Received e)
        obtain d s2 where d: "sys_dispatch cls e s1 = (d, s2)" by (cases "sys_dispatch cls e s1")
        show ?thesis
        proof (cases d)
          case (Inl g)
          with eq rc Received d True show ?thesis by auto
        next
          case (Inr v)
          then have "sys_step cls s s2" using rc Received d by (auto intro: sys_recv_dispatch_step)
          moreover have "f cls s2 = Some res" using eq rc Received d True Inr by simp
          ultimately show ?thesis using IH by (blast intro: sys_steps_trans sys_step_steps)
        qed
      next
        case Empty
        with eq rc True show ?thesis by auto
      next
        case Disconnected
        with sys_recv_not_Received(2)[OF rc] have "s1 = s" by blast
        with eq rc True Disconnected have "f cls (sys_shutdown s) = Some res" by (simp add: sys_shutdown_def)
        with IH show ?thesis by (blast intro: sys_steps_trans sys_step_steps step_shutdown)
      qed
    qed
  qed
  from this[OF assms] show ?thesis by simp
qed

section \<open>Callbacks that send nothing\<close>

text \<open>A callback that returns without sending, spawning or panicking.\<close>

primrec silent :: "('v, 'e) prog \<Rightarrow> bool" where
  "silent (Return r) = True"
| "silent (Panic p) = False"
| "silent (SetSelf v k) = silent k"
| "silent (CtxId k) = (\<forall>i. silent (k i))"
| "silent (CtxStop k) = silent k"
| "silent (DoSend a m k) = False"
| "silent (Notify a m k) = False"
| "silent (SendWait a m k) = False"
| "silent (CloneAddr a k) = (\<forall>a'. silent (k a'))"
| "silent (DropAddr a k) = silent k"
| "silent (SpawnChild a v st k) = False"
| "silent (Shared f k) = (\<forall>e. silent (k e))"

lemma exec_silent:
  assumes "silent p" and "exec p self ctx w = (res, self', ctx', w')"
  shows "(\<exists>r. res = Inr r) \<and> (\<forall>c. chan_queue (chan_at w' c) = chan_queue (chan_at w c))"
  using assms
proof (induction p arbitrary: self ctx w)
  case (CtxId k)
  then show ?case using CtxId.IH[of "k (ctx_actor_id ctx)" self ctx w] by simp
next
  case (CloneAddr a k)
  then show ?case
    using CloneAddr.IH[of "k a" self ctx "snd (addr_clone a w)"] by (simp add: case_prod_beta)
next
  case (Shared f k)
  then show ?case using Shared.IH[of "k (env w)" self ctx "w\<lparr>env := f (env w)\<rparr>"] by simp
qed auto

lemma call_dispatch_silent:
  assumes sil: "\<And>a v m. silent (cls_handle (cls a) v m)" "\<And>a v. silent (cls_stopped (cls a) v)"
    and ty: "(\<exists>m r. f = SendFn (any_type act) m r) \<or> (\<exists>m. f = DoSendFn (any_type act) m) \<or> f = OnStopFn (any_type act)"
    and d: "call_dispatch cls f act ctx w = (res, act', ctx', w')"
  shows "res = Inr () \<and> (\<forall>c. chan_queue (chan_at w' c) = chan_queue (chan_at w c))"
proof -
  have h: "(\<exists>r. res1 = Inr r) \<and> (\<forall>c. chan_queue (chan_at w1 c) = chan_queue (chan_at w c))"
    if "call_handle cls (any_type act) m act ctx w = (res1, act1, ctx1, w1)" for m res1 act1 ctx1 w1
    using that by (auto elim!: call_handle_E dest!: exec_silent[OF sil(1)])
  show ?thesis
    using ty d by (auto simp: call_dispatch_def dest!: h exec_silent[OF sil(2)]
        split: prod.splits sum.splits fault.splits)
qed

text \<open>Every queued message has the type of the actor stored under its id.\<close>

definition message_type :: "'v message \<Rightarrow> type_id option" where
  "message_type e = (case env_dispatch e of SendFn a _ _ \<Rightarrow> Some a | DoSendFn a _ \<Rightarrow> Some a | _ \<Rightarrow> None)"

definition well_typed :: "('v, 'e) actor_system \<Rightarrow> bool" where
  "well_typed s \<longleftrightarrow>
     (\<forall>e \<in> set (chan_queue (chan_at (sys_world s) (sys_rx s))). \<forall>cell.
        hm_get (actors s) (env_actor_id e) = Some cell \<longrightarrow> message_type e = Some (any_type (actor cell)))
   \<and> (\<forall>i cell. hm_get (actors s) i = Some cell \<longrightarrow> on_stop cell = OnStopFn (any_type (actor cell)))"


definition silent_classes :: "('v, 'e) classes \<Rightarrow> bool" where
  "silent_classes cls \<longleftrightarrow>
     (\<forall>a v m. silent (cls_handle (cls a) v m)) \<and> (\<forall>a v. silent (cls_stopped (cls a) v))"

lemma sys_remove_silent:
  assumes sil: "silent_classes cls" and wt: "well_typed s" and r: "sys_remove_actor cls i s = (res, s')"
  shows "res = Inr () \<and> well_typed s' \<and> sys_rx s' = sys_rx s
    \<and> (\<forall>c. chan_queue (chan_at (sys_world s') c) = chan_queue (chan_at (sys_world s) c))"
proof (cases "hm_get (actors s) i")
  case None
  with wt r show ?thesis by (auto simp: sys_remove_actor_def)
next
  case (Some cell)
  then have st: "on_stop cell = OnStopFn (any_type (actor cell))" using wt by (simp add: well_typed_def)
  obtain res1 act' ctx' w' where d: "call_dispatch cls (on_stop cell) (actor cell) (context_new i)
      (sys_world s) = (res1, act', ctx', w')" by (metis prod_cases4)
  have c: "res1 = Inr () \<and> (\<forall>c. chan_queue (chan_at w' c) = chan_queue (chan_at (sys_world s) c))"
    using sil st by (intro call_dispatch_silent[OF _ _ _ d]) (auto simp: silent_classes_def)
  have "s' = s\<lparr>actors := hm_remove i (actors s), sys_world := w'\<rparr>" "res = res1"
    using r Some d by (simp_all add: sys_remove_actor_def Let_def)
  with c wt show ?thesis by (auto simp: well_typed_def split: if_splits)
qed

lemma sys_dispatch_silent:
  assumes sil: "silent_classes cls" and wt: "well_typed s"
    and ty: "\<And>cell. hm_get (actors s) (env_actor_id e) = Some cell \<Longrightarrow> message_type e = Some (any_type (actor cell))"
    and r: "sys_dispatch cls e s = (res, s')"
  shows "res = Inr () \<and> well_typed s' \<and> sys_rx s' = sys_rx s
    \<and> (\<forall>c. chan_queue (chan_at (sys_world s') c) = chan_queue (chan_at (sys_world s) c))"
proof (cases "hm_get (actors s) (env_actor_id e)")
  case None
  with wt r show ?thesis by (auto simp: sys_dispatch_def well_typed_def)
next
  case (Some cell)
  obtain res1 act' ctx' w' where d: "call_dispatch cls (env_dispatch e) (actor cell)
      (context_new (env_actor_id e)) (sys_world s) = (res1, act', ctx', w')" by (metis prod_cases4)
  have c: "res1 = Inr () \<and> (\<forall>c. chan_queue (chan_at w' c) = chan_queue (chan_at (sys_world s) c))"
    using sil ty[OF Some] by (intro call_dispatch_silent[OF _ _ _ d])
      (auto simp: silent_classes_def message_type_def split: dispatch_fn.splits)
  define s1 where "s1 = s\<lparr>actors := hm_insert (env_actor_id e) (cell\<lparr>actor := act'\<rparr>) (actors s),
      sys_world := w'\<rparr>"
  have wt1: "well_typed s1"
    using wt c Some call_dispatch_type[OF d] by (auto simp: well_typed_def s1_def)
  have "(res = Inr () \<and> s' = s1) \<or> sys_remove_actor cls (env_actor_id e) s1 = (res, s')"
    using r Some d c by (auto simp: sys_dispatch_def Let_def s1_def split: if_splits)
  with c wt1 sys_remove_silent[OF sil wt1] show ?thesis by (auto simp: s1_def)
qed

lemma sys_run_once_silent:
  assumes "silent_classes cls" and "well_typed s"
    and "length (chan_queue (chan_at (sys_world s) (sys_rx s))) = k"
  shows "\<exists>s'. sys_run_once_loop cls n s = Some (Finished (n + k), s')"
  using assms
proof (induction k arbitrary: n s)
  case 0
  obtain r s1 where r: "sys_recv s = (r, s1)" by (cases "sys_recv s")
  with 0(3) show ?case
    by (subst sys_run_once_loop.simps)
      (auto simp: sys_recv_def chan_try_recv_simps split: if_splits)
next
  case (Suc k)
  then obtain e es where q: "chan_queue (chan_at (sys_world s) (sys_rx s)) = e # es"
    by (metis length_Suc_conv)
  obtain r s1 where r: "sys_recv s = (r, s1)" by (cases "sys_recv s")
  have re: "r = Received e" using r q by (auto simp: sys_recv_def chan_try_recv_simps)
  note fr = sys_recv_frame[OF r]
  obtain es' where s1: "chan_queue (chan_at (sys_world s) (sys_rx s)) = e # es'"
    "\<And>c. chan_queue (chan_at (sys_world s1) c) =
        (if c = sys_rx s then es' else chan_queue (chan_at (sys_world s) c))"
    using sys_recv_Received[OF r[unfolded re]] by metis
  have wt1: "well_typed s1" and
    ty: "\<And>cell. hm_get (actors s1) (env_actor_id e) = Some cell \<Longrightarrow> message_type e = Some (any_type (actor cell))"
    using Suc.prems(2) fr s1(1) by (auto simp: well_typed_def s1(2))
  obtain d s2 where d: "sys_dispatch cls e s1 = (d, s2)" by (cases "sys_dispatch cls e s1")
  have c: "d = Inr () \<and> well_typed s2 \<and> sys_rx s2 = sys_rx s1
      \<and> (\<forall>c. chan_queue (chan_at (sys_world s2) c) = chan_queue (chan_at (sys_world s1) c))"
    using sys_dispatch_silent[OF Suc.prems(1) wt1 ty d] .
  have "length (chan_queue (chan_at (sys_world s2) (sys_rx s2))) = k"
    using c fr s1 Suc.prems(3) by simp
  then obtain s' where "sys_run_once_loop cls (Suc n) s2 = Some (Finished (Suc n + k), s')"
    using Suc.IH[OF Suc.prems(1), of s2 "Suc n"] c by blast
  with r re d c show ?case by (subst sys_run_once_loop.simps) auto
qed

end
