(* ===== verification/Demo.thy ===== *)
theory Demo
  imports System_Loops
begin

text \<open>
  The actors of \<^verbatim>\<open>src/main.rs\<close> (a counter and a printer) and its main function, over the model
  of \<^verbatim>\<open>ActorSystem\<close>. They also serve as the concrete user code at which properties of the
  system are instantiated. Values of the program's Rust types are the constructors of
  \<open>demo_val\<close>; what is printed to standard output is the shared state.
\<close>

datatype demo_val =
    CounterActor usize | PrinterActor
  | Increment | GetCount | Print string
  | Usize usize | Unit

definition counter_type :: type_id where
  "counter_type = 0"

definition printer_type :: type_id where
  "printer_type = 1"

text \<open>
  \<^verbatim>\<open>self.count += 1; self.count\<close>, with the overflow check of the build profile. Messages for
  which an actor has no \<^verbatim>\<open>Handler\<close> do not type-check in Rust; the last equations stand for them.
\<close>

fun counter_handle :: "bool \<Rightarrow> demo_val \<Rightarrow> demo_val \<Rightarrow> (demo_val, string list) prog" where
  "counter_handle oc (CounterActor n) Increment =
     (case add_profile oc n 1 of
        None \<Rightarrow> Panic (PStr ''attempt to add with overflow'')
      | Some m \<Rightarrow> SetSelf (CounterActor m) (Return (Usize m)))"
| "counter_handle oc (CounterActor n) GetCount = Return (Usize n)"
| "counter_handle oc _ _ = Panic POther"

fun printer_handle :: "demo_val \<Rightarrow> demo_val \<Rightarrow> (demo_val, string list) prog" where
  "printer_handle PrinterActor (Print s) =
     Shared (\<lambda>out. out @ [''Printer received: '' @ s]) (\<lambda>_. Return Unit)"
| "printer_handle _ _ = Panic POther"

text \<open>Both actors keep the empty default \<^verbatim>\<open>started\<close> and \<^verbatim>\<open>stopped\<close>.\<close>

definition demo_started :: "(demo_val, string list) prog" where
  "demo_started = Return Unit"

definition demo_classes :: "bool \<Rightarrow> (demo_val, string list) classes" where
  "demo_classes oc a =
     (if a = counter_type
      then \<lparr>cls_handle = counter_handle oc, cls_stopped = (\<lambda>_. Return Unit)\<rparr>
      else \<lparr>cls_handle = printer_handle, cls_stopped = (\<lambda>_. Return Unit)\<rparr>)"

section \<open>The main function\<close>

type_synonym demo_system = "(demo_val, string list) actor_system"

text \<open>
  One blocking \<^verbatim>\<open>send\<close> by the sender thread while the main thread is in \<^verbatim>\<open>system.run()\<close>: the
  message is queued, the event loop runs until it waits again, the reply is received.
\<close>

definition demo_send ::
  "bool \<Rightarrow> addr \<Rightarrow> demo_val \<Rightarrow> demo_system \<Rightarrow> ((send_error + demo_val) \<times> demo_system) option" where
  "demo_send oc adr m s =
     (case addr_send_begin adr m (sys_world s) of
        (Inl err, w) \<Rightarrow> Some (Inl err, s\<lparr>sys_world := w\<rparr>)
      | (Inr r, w) \<Rightarrow>
          (case sys_resume id (demo_classes oc) (s\<lparr>sys_world := w\<rparr>) of
             Some (Waiting, s') \<Rightarrow> map_option (\<lambda>res. (res, s')) (addr_send_result r (sys_world s'))
           | _ \<Rightarrow> None))"

text \<open>
  The sender's loop \<^verbatim>\<open>for _i in 1..=5\<close>; an \<^verbatim>\<open>unwrap\<close> of an error would panic, which is \<open>None\<close>
  here.
\<close>

fun demo_rounds :: "bool \<Rightarrow> nat \<Rightarrow> addr \<Rightarrow> addr \<Rightarrow> demo_system \<Rightarrow> demo_system option" where
  "demo_rounds oc 0 counter printer s = Some s"
| "demo_rounds oc (Suc k) counter printer s =
     (case demo_send oc counter Increment s of
        Some (Inr (Usize c), s1) \<Rightarrow>
          (case demo_send oc printer
                  (Print (''Counter incremented to '' @ decimal (unat c))) s1 of
             Some (Inr _, s2) \<Rightarrow> demo_rounds oc k counter printer s2
           | _ \<Rightarrow> None)
      | _ \<Rightarrow> None)"

definition demo_main :: "bool \<Rightarrow> demo_system option" where
  "demo_main oc =
     (case sys_spawn oc demo_started counter_type (CounterActor 0) (system_new []) of
        (Inr counter, s1) \<Rightarrow>
          (case sys_spawn oc demo_started printer_type PrinterActor s1 of
             (Inr printer, s2) \<Rightarrow>
               (case sys_run id (demo_classes oc) s2 of
                  Some (Waiting, s3) \<Rightarrow>
                    (case demo_rounds oc 5 counter printer s3 of
                       Some s4 \<Rightarrow>
                         (case sys_resume id (demo_classes oc)
                                 (s4\<lparr>sys_world := addr_drop printer (addr_drop counter (sys_world s4))\<rparr>) of
                            Some (Finished _, s5) \<Rightarrow>
                              Some (s5\<lparr>sys_world := (sys_world s5)\<lparr>env := env (sys_world s5)
                                       @ [''Actor system shut down cleanly.'']\<rparr>\<rparr>)
                          | _ \<Rightarrow> None)
                     | None \<Rightarrow> None)
                | _ \<Rightarrow> None)
           | _ \<Rightarrow> None)
      | _ \<Rightarrow> None)"


text \<open>The system of the main function after its first spawn, and with one message queued.\<close>

definition demo_spawned :: demo_system where
  "demo_spawned = snd (sys_spawn True demo_started counter_type (CounterActor 0) (system_new []))"

definition demo_addr :: addr where
  "demo_addr = addr_new (ActorId 1) 0 counter_type"

definition demo_queued :: demo_system where
  "demo_queued = demo_spawned\<lparr>sys_world := snd (addr_send_begin demo_addr Increment (sys_world demo_spawned))\<rparr>"

lemma demo_spawned_steps: "sys_steps cls (system_new []) demo_spawned"
proof (rule sys_step_steps[OF step_spawn])
  show "sys_spawn True demo_started counter_type (CounterActor 0) (system_new []) =
      (fst (sys_spawn True demo_started counter_type (CounterActor 0) (system_new [])), demo_spawned)"
    by (simp add: demo_spawned_def)
qed (simp add: system_new_def)

lemma demo_queued_steps: "sys_steps cls (system_new []) demo_queued"
  unfolding demo_queued_def by (rule steps_step[OF demo_spawned_steps step_send])

lemma demo_spawned_actor: "hm_get (actors demo_spawned) (ActorId 1) =
    Some \<lparr>actor = \<lparr>any_type = counter_type, any_val = CounterActor 0\<rparr>, on_stop = OnStopFn counter_type\<rparr>"
  by code_simp

lemma demo_queued_actor: "hm_get (actors demo_queued) (ActorId 1) =
    Some \<lparr>actor = \<lparr>any_type = counter_type, any_val = CounterActor 0\<rparr>, on_stop = OnStopFn counter_type\<rparr>"
  by code_simp

section \<open>Property\<close>

text \<open>
  The main function of the crate, run on the model with or without overflow checks, returns:
  the five increments are answered 1 to 5 and printed in order, every actor has been removed
  and stopped, and the final line is printed.
\<close>

theorem demo_main_output:
  "\<exists>s. demo_main oc = Some s \<and> actors s = []
     \<and> env (sys_world s) =
         [''Printer received: Counter incremented to 1'', ''Printer received: Counter incremented to 2'',
          ''Printer received: Counter incremented to 3'', ''Printer received: Counter incremented to 4'',
          ''Printer received: Counter incremented to 5'', ''Actor system shut down cleanly.'']
     \<and> life (ActorId 1) (log (sys_world s)) = Dead \<and> life (ActorId 2) (log (sys_world s)) = Dead"
proof -
  let ?out = "\<lambda>s. (actors s, env (sys_world s), life (ActorId 1) (log (sys_world s)),
      life (ActorId 2) (log (sys_world s)))"
  let ?exp = "([], [''Printer received: Counter incremented to 1'', ''Printer received: Counter incremented to 2'',
      ''Printer received: Counter incremented to 3'', ''Printer received: Counter incremented to 4'',
      ''Printer received: Counter incremented to 5'', ''Actor system shut down cleanly.''], Dead, Dead)"
  have "map_option ?out (demo_main True) = Some ?exp" by code_simp
  moreover have "map_option ?out (demo_main False) = Some ?exp" by code_simp
  ultimately have "map_option ?out (demo_main oc) = Some ?exp" by (cases oc) simp_all
  then show ?thesis by auto
qed

end
