(* ===== verification/System_Props.thy ===== *)
theory System_Props
  imports Demo
begin

text \<open>
  The properties of \<^verbatim>\<open>ActorSystem\<close>: what holds in every state a system can reach, what its
  two loops leave behind when they return, and what one dispatch does on each of its branches.
  The concrete user code of the witnesses is that of \<open>Demo\<close>.
\<close>

section \<open>Reachable states\<close>

lemma sys_reach_inv: "sys_steps cls (system_new e) s \<Longrightarrow> sys_inv s"
  by (rule sys_steps_inv[OF _ sys_inv_new])

text \<open>
  C1: in every state a system can reach, whatever its actors and other threads do, each actor's
  callbacks have run in the documented order: \<^verbatim>\<open>started\<close> once and first, messages only
  between \<^verbatim>\<open>started\<close> and \<^verbatim>\<open>stopped\<close>, \<^verbatim>\<open>stopped\<close> at most once and last. Stored actors are
  started and not yet stopped, and ids not yet allocated have no history.
\<close>

theorem sys_lifecycle:
  assumes "sys_steps cls (system_new e) s"
  shows "(\<forall>i. life i (log (sys_world s)) \<noteq> Broken)
    \<and> (\<forall>i cell. hm_get (actors s) i = Some cell \<longrightarrow> life i (log (sys_world s)) = Alive)
    \<and> (\<forall>i. ActorId (sys_next_id s) \<le> i \<longrightarrow> life i (log (sys_world s)) = Unborn)"
  using sys_reach_inv[OF assms] by (simp add: sys_inv_def sys_life_def)

theorem sys_lifecycle_witness:
  "life (ActorId 1) (log (sys_world demo_queued)) = Alive
   \<and> life (ActorId 9) (log (sys_world demo_queued)) = Unborn"
proof -
  have "ActorId (sys_next_id demo_queued) \<le> ActorId 9" by code_simp
  with sys_lifecycle[OF demo_queued_steps] demo_queued_actor show ?thesis by blast
qed

text \<open>The queue of the system's channel decides which replies are pending.\<close>

lemma count_queue_replies:
  "count (queue_replies es) r = length (filter (\<lambda>e. reply_of e = Some r) es)"
  by (induction es) (auto split: option.splits)

lemma sys_pending_count:
  assumes "sys_comm s"
  shows "length (filter (\<lambda>e. reply_of e = Some r) (chan_queue (chan_at (sys_world s) (sys_rx s)))) =
    (if r < length (replies (sys_world s)) \<and> replies (sys_world s) ! r = Pending then 1 else 0)"
proof -
  have "owed (sys_world s) = queue_replies (chan_queue (chan_at (sys_world s) (sys_rx s)))"
    using assms by (simp add: owed_def sys_comm_def)
  moreover have "acct {#} (sys_world s)" using assms by (simp add: sys_comm_def)
  ultimately show ?thesis by (simp only: acct_def count_queue_replies add_0_left)
qed

text \<open>
  C3: no caller of \<^verbatim>\<open>Addr::send\<close> is forgotten. In every reachable state a reply somebody waits
  for belongs to exactly one envelope in the system's queue, and a reply already given or
  dropped to none, so it is never answered twice.
\<close>

theorem sys_replies_accounted:
  assumes "sys_steps cls (system_new e) s" and "r < length (replies (sys_world s))"
  shows "length (filter (\<lambda>m. reply_of m = Some r) (chan_queue (chan_at (sys_world s) (sys_rx s)))) =
    (if replies (sys_world s) ! r = Pending then 1 else 0)"
  using sys_pending_count[of s r] sys_reach_inv[OF assms(1)] assms(2) by (simp add: sys_inv_def)

theorem sys_replies_accounted_witness:
  "replies (sys_world demo_queued) ! 0 = Pending
   \<and> length (filter (\<lambda>m. reply_of m = Some 0)
        (chan_queue (chan_at (sys_world demo_queued) (sys_rx demo_queued)))) = 1"
proof -
  have "0 < length (replies (sys_world demo_queued))" and "replies (sys_world demo_queued) ! 0 = Pending"
    by code_simp+
  with sys_replies_accounted[OF demo_queued_steps] show ?thesis by simp
qed

section \<open>What the loops leave behind\<close>

text \<open>
  C21: when \<^verbatim>\<open>run_once\<close> returns, the queue is empty, every \<^verbatim>\<open>send\<close> made so far has its result,
  and a second \<^verbatim>\<open>run_once\<close> processes nothing and changes nothing.
\<close>

theorem sys_run_once_answers_all:
  assumes "sys_steps cls (system_new e) s" and "sys_run_once cls s = Some (Finished m, s')"
  shows "chan_queue (chan_at (sys_world s') (sys_rx s')) = []
    \<and> (\<forall>r < length (replies (sys_world s')). addr_send_result r (sys_world s') \<noteq> None)
    \<and> sys_run_once cls s' = Some (Finished 0, s')"
proof -
  note o = sys_run_once_empty[OF assms(2)]
  have "sys_inv s'" using sys_steps_inv[OF o(3)] sys_reach_inv[OF assms(1)] by blast
  with o(1) have "replies (sys_world s') ! r \<noteq> Pending" if "r < length (replies (sys_world s'))" for r
    using sys_pending_count[of s' r] that by (auto simp: sys_inv_def)
  then show ?thesis using o(1,2) by (auto simp: addr_send_result_def split: reply.splits)
qed

theorem sys_run_once_answers_all_witness:
  "\<exists>s'. sys_run_once (demo_classes True) demo_queued = Some (Finished 1, s')
     \<and> sys_run_once (demo_classes True) s' = Some (Finished 0, s')
     \<and> addr_send_result 0 (sys_world s') = Some (Inr (Usize 1))"
proof -
  have "map_option (\<lambda>(r, s'). (r, addr_send_result 0 (sys_world s')))
      (sys_run_once (demo_classes True) demo_queued) = Some (Finished 1, Some (Inr (Usize 1)))"
    by code_simp
  then obtain s' where s': "sys_run_once (demo_classes True) demo_queued = Some (Finished 1, s')"
    and a: "addr_send_result 0 (sys_world s') = Some (Inr (Usize 1))"
    by auto
  with sys_run_once_answers_all[OF demo_queued_steps s'] show ?thesis by blast
qed

text \<open>
  C11: when \<^verbatim>\<open>run\<close> returns, whichever order the map yields its keys in, no actor is left, and
  every actor that was stored when \<^verbatim>\<open>run\<close> was called has had its \<^verbatim>\<open>stopped\<close> called exactly
  once, as its last callback.
\<close>

theorem sys_run_stops_all:
  assumes "sys_steps cls (system_new e) s" and "permutes_keys order"
    and "sys_run order cls s = Some (Finished u, s')"
  shows "actors s' = []
    \<and> (\<forall>i cell. hm_get (actors s) i = Some cell \<longrightarrow> life i (log (sys_world s')) = Dead)"
proof -
  obtain s1 where loop: "sys_run_loop cls (sys_begin_run s) = Some (Finished (), s1)"
    and stop: "sys_stop_all_actors order cls s1 = (Inr (), s')"
    using assms(3) by (auto simp: sys_run_def sys_resume_def split: option.splits prod.splits
        loop_end.splits sum.splits)
  define I where "I = {i. hm_get (actors s) i \<noteq> None}"
  have inv: "sys_inv s" by (rule sys_reach_inv[OF assms(1)])
  have steps: "sys_steps cls s s1"
    using sys_steps_trans[OF sys_run_loop_E[OF loop] sys_step_steps[OF step_begin_run]] .
  have inv1: "sys_inv s1" by (rule sys_steps_inv[OF steps inv])
  have "stored_or_dead I s" by (auto simp: I_def stored_or_dead_def)
  then have st: "stored_or_dead I s1" by (rule sys_steps_stored[OF steps inv])
  note e = sys_stop_all_E[OF inv1 assms(2) stop]
  have "life i (log (sys_world s')) = Dead" if "i \<in> I" for i
    using st that e(3,4) unfolding stored_or_dead_def by blast
  with e(1) show ?thesis by (auto simp: I_def)
qed

text \<open>The main function's system after its first spawn, its only address dropped.\<close>

definition demo_released :: demo_system where
  "demo_released = demo_spawned\<lparr>sys_world := addr_drop demo_addr (sys_world demo_spawned)\<rparr>"

lemma demo_released_steps: "sys_steps cls (system_new []) demo_released"
  unfolding demo_released_def by (rule steps_step[OF demo_spawned_steps step_drop])

theorem sys_run_stops_all_witness:
  "\<exists>s'. sys_run rev (demo_classes True) demo_released = Some (Finished (), s')
     \<and> actors s' = [] \<and> life (ActorId 1) (log (sys_world s')) = Dead"
proof -
  have "map_option fst (sys_run rev (demo_classes True) demo_released) = Some (Finished ())"
    by code_simp
  then obtain s' where s': "sys_run rev (demo_classes True) demo_released = Some (Finished (), s')"
    by auto
  have "hm_get (actors demo_released) (ActorId 1) = hm_get (actors demo_spawned) (ActorId 1)"
    by (simp add: demo_released_def)
  with sys_run_stops_all[OF demo_released_steps permutes_keys_rev s'] s' demo_spawned_actor
  show ?thesis by auto
qed

text \<open>
  \<^verbatim>\<open>run\<close> sets \<^verbatim>\<open>running\<close> itself, so a \<^verbatim>\<open>shutdown\<close> requested before \<^verbatim>\<open>run\<close> is without
  effect. (While \<^verbatim>\<open>run\<close> is active it holds the system by \<^verbatim>\<open>&mut self\<close>, so \<^verbatim>\<open>shutdown\<close>, which
  needs \<^verbatim>\<open>&mut self\<close> too, cannot be called then either.)
\<close>

theorem sys_shutdown_before_run: "sys_run order cls (sys_shutdown s) = sys_run order cls s"
  by (simp add: sys_run_def sys_begin_run_def sys_shutdown_def Let_def)

text \<open>
  \<^verbatim>\<open>run_once\<close> returns when handlers send nothing: it processes exactly the messages that
  are queued, however many there are.
\<close>

theorem sys_run_once_returns:
  assumes "silent_classes cls" and "well_typed s"
  shows "\<exists>s'. sys_run_once cls s =
    Some (Finished (length (chan_queue (chan_at (sys_world s) (sys_rx s)))), s')"
  using sys_run_once_silent[OF assms refl, of 0] by (simp add: sys_run_once_def)

text \<open>A class whose handlers return at once.\<close>

definition idle_classes :: "(demo_val, string list) classes" where
  "idle_classes a = \<lparr>cls_handle = (\<lambda>_ _. Return Unit), cls_stopped = (\<lambda>_. Return Unit)\<rparr>"

theorem sys_run_once_returns_witness:
  "\<exists>s'. sys_run_once idle_classes demo_queued = Some (Finished 1, s')"
proof -
  have "silent_classes idle_classes" by (simp add: silent_classes_def idle_classes_def)
  moreover have "well_typed demo_queued"
  proof -
    have "actors demo_queued = [(ActorId 1,
        \<lparr>actor = \<lparr>any_type = counter_type, any_val = CounterActor 0\<rparr>, on_stop = OnStopFn counter_type\<rparr>)]"
      by code_simp
    moreover have "map (\<lambda>m. (env_actor_id m, message_type m))
        (chan_queue (chan_at (sys_world demo_queued) (sys_rx demo_queued))) = [(ActorId 1, Some counter_type)]"
      by code_simp
    ultimately show ?thesis by (auto simp: well_typed_def hm_get_def split: if_splits)
  qed
  moreover have "length (chan_queue (chan_at (sys_world demo_queued) (sys_rx demo_queued))) = 1"
    by code_simp
  ultimately show ?thesis using sys_run_once_returns[of idle_classes demo_queued] by simp
qed

section \<open>One dispatch\<close>

text \<open>The system after one \<^verbatim>\<open>send\<close> and the loop's receive of it, when nothing else was queued.\<close>

lemma recv_after_send:
  assumes "sys_inv s" and "chan_queue (chan_at (sys_world s) (sys_rx s)) = []"
    and "addr_tx adr = sys_rx s"
    and "addr_send_begin adr m (sys_world s) = (Inr r, w)"
    and "sys_recv (s\<lparr>sys_world := w\<rparr>) = (rc, s1)"
  shows "rc = Received \<lparr>env_actor_id = addr_actor_id adr, env_dispatch = SendFn (addr_type adr) m r\<rparr>"
    and "r < length (replies (sys_world s1))" and "replies (sys_world s1) ! r = Pending"
    and "actors s1 = actors s" and "log (sys_world s1) = log (sys_world s)"
proof -
  have w: "w = snd (addr_send_begin adr m (sys_world s))" using assms(4) by simp
  have o: "chan_open (chan_at (sys_world s) (sys_rx s))" using assms(1) by (simp add: sys_inv_def sys_comm_def)
  have r: "r = length (replies (sys_world s))"
    using addr_send_begin_simps(8)[of adr m "sys_world s"] assms(3,4) o by simp
  have q: "chan_queue (chan_at w (sys_rx s)) =
      [\<lparr>env_actor_id = addr_actor_id adr, env_dispatch = SendFn (addr_type adr) m r\<rparr>]"
    using assms(2,3) o by (simp add: w r chan_queue_send_begin)
  then show rc: "rc = Received \<lparr>env_actor_id = addr_actor_id adr, env_dispatch = SendFn (addr_type adr) m r\<rparr>"
    using assms(5) by (auto simp: sys_recv_def chan_try_recv_simps)
  have "replies (sys_world s1) = replies w" and "actors s1 = actors s" and "log (sys_world s1) = log w"
    using assms(5) by (auto simp: sys_recv_def split: prod.splits)
  moreover have "replies w = replies (sys_world s) @ [Pending]"
    using assms(3) o by (simp add: w replies_send_begin)
  ultimately show "r < length (replies (sys_world s1))" "replies (sys_world s1) ! r = Pending"
    "actors s1 = actors s" "log (sys_world s1) = log (sys_world s)"
    by (simp_all add: r w)
qed

text \<open>
  C7: a request is answered with the handler's result. When an address of the system sends to a
  stored actor of its type and the handler returns \<open>v\<close> without stopping its context, the loop's
  next turn handles that message, the waiting \<^verbatim>\<open>send\<close> returns \<open>Ok(v)\<close>, and the actor's new state
  is stored under its id.
\<close>

theorem sys_request_reply:
  assumes "sys_steps cls (system_new e) s" and "chan_queue (chan_at (sys_world s) (sys_rx s)) = []"
    and "addr_tx adr = sys_rx s" and "hm_get (actors s) (addr_actor_id adr) = Some cell"
    and "any_type (actor cell) = addr_type adr"
    and "addr_send_begin adr m (sys_world s) = (Inr r, w)"
    and "sys_recv (s\<lparr>sys_world := w\<rparr>) = (Received msg, s1)"
    and "exec (cls_handle (cls (addr_type adr)) (any_val (actor cell)) m) (any_val (actor cell))
      (context_new (addr_actor_id adr)) (log_event (EvHandled (addr_actor_id adr) m) (sys_world s1))
      = (Inr v, v', ctx', w')"
    and "ctx_running ctx'" and "sys_dispatch cls msg s1 = (res, s2)"
  shows "res = Inr () \<and> addr_send_result r (sys_world s2) = Some (Inr v)
    \<and> (\<exists>cell'. hm_get (actors s2) (addr_actor_id adr) = Some cell' \<and> any_val (actor cell') = v')
    \<and> log (sys_world s2) = log (sys_world s) @ [EvHandled (addr_actor_id adr) m]"
proof -
  note r = recv_after_send[OF sys_reach_inv[OF assms(1)] assms(2,3,6,7)]
  have "length (replies w') \<ge> length (replies (sys_world s1))"
    using exec_comm[OF assms(8)] by (auto simp: comm_ext_def)
  then have l: "r < length (replies w')" using r(2) by simp
  have "log w' = log (sys_world s) @ [EvHandled (addr_actor_id adr) m]"
    using exec_quiet[OF assms(8)] r(5) by simp
  then show ?thesis
    using assms(4,5,8,9,10) r(1,4) l
    by (auto simp: sys_dispatch_def call_dispatch_def call_handle_def Let_def reply_send_def
        addr_send_result_def)
qed


theorem sys_request_reply_witness:
  "\<exists>s1 s2 msg r w. addr_send_begin demo_addr Increment (sys_world demo_spawned) = (Inr r, w)
     \<and> sys_recv (demo_spawned\<lparr>sys_world := w\<rparr>) = (Received msg, s1)
     \<and> sys_dispatch (demo_classes True) msg s1 = (Inr (), s2)
     \<and> addr_send_result r (sys_world s2) = Some (Inr (Usize 1))"
proof -
  obtain r w where sb: "addr_send_begin demo_addr Increment (sys_world demo_spawned) = (r, w)" by fastforce
  have "fst (addr_send_begin demo_addr Increment (sys_world demo_spawned)) = Inr 0" by code_simp
  with sb have s: "addr_send_begin demo_addr Increment (sys_world demo_spawned) = (Inr 0, w)" by simp
  have emp: "chan_queue (chan_at (sys_world demo_spawned) (sys_rx demo_spawned)) = []"
    and rx: "addr_tx demo_addr = sys_rx demo_spawned" and ty: "addr_type demo_addr = counter_type"
    and i: "addr_actor_id demo_addr = ActorId 1"
    by code_simp+
  obtain rc s1 where rc: "sys_recv (demo_spawned\<lparr>sys_world := w\<rparr>) = (rc, s1)" by fastforce
  note r = recv_after_send[OF sys_reach_inv[OF demo_spawned_steps] emp rx s rc]
  obtain res s2 where d: "sys_dispatch (demo_classes True)
      \<lparr>env_actor_id = addr_actor_id demo_addr, env_dispatch = SendFn (addr_type demo_addr) Increment 0\<rparr> s1
      = (res, s2)" by fastforce
  have add: "add_profile True (0 :: usize) 1 = Some 1" by code_simp
  have x: "exec (cls_handle (demo_classes True (addr_type demo_addr)) (CounterActor 0) Increment)
      (CounterActor 0) (context_new (addr_actor_id demo_addr)) w0
      = (Inr (Usize 1), CounterActor 1, context_new (addr_actor_id demo_addr), w0)" for w0
    by (simp add: demo_classes_def ty add)
  have c: "hm_get (actors demo_spawned) (addr_actor_id demo_addr) = Some
      \<lparr>actor = \<lparr>any_type = counter_type, any_val = CounterActor 0\<rparr>, on_stop = OnStopFn counter_type\<rparr>"
    by (simp add: i demo_spawned_actor)
  have "res = Inr () \<and> addr_send_result 0 (sys_world s2) = Some (Inr (Usize 1))"
    using sys_request_reply[OF demo_spawned_steps emp rx c _ s rc[unfolded r(1)] _ _ d] x by (simp add: ty)
  with s rc r(1) d show ?thesis by blast
qed

text \<open>
  C24: an actor that calls \<^verbatim>\<open>ctx.stop()\<close> while it handles a request still answers that request.
  It is then removed and its \<^verbatim>\<open>stopped\<close> has run; the other actors stay as they are, and any
  later message to it is dropped without a callback.
\<close>

theorem sys_stop_request:
  assumes "sys_steps cls (system_new e) s" and "hm_get (actors s) (env_actor_id msg) = Some cell"
    and "env_dispatch msg = SendFn (any_type (actor cell)) m r" and "r < length (replies (sys_world s))"
    and "exec (cls_handle (cls (any_type (actor cell))) (any_val (actor cell)) m) (any_val (actor cell))
      (context_new (env_actor_id msg)) (log_event (EvHandled (env_actor_id msg) m) (sys_world s))
      = (Inr v, v', ctx', w')"
    and "\<not> ctx_running ctx'" and "sys_dispatch cls msg s = (res, s2)"
  shows "addr_send_result r (sys_world s2) = Some (Inr v)
    \<and> (\<forall>j. hm_get (actors s2) j = (if j = env_actor_id msg then None else hm_get (actors s) j))
    \<and> life (env_actor_id msg) (log (sys_world s2)) = Dead
    \<and> (\<forall>msg'. env_actor_id msg' = env_actor_id msg \<longrightarrow>
         sys_dispatch cls msg' s2 = (Inr (), s2\<lparr>sys_world := drop_envelope msg' (sys_world s2)\<rparr>))"
proof -
  let ?i = "env_actor_id msg"
  define s1 where "s1 = s\<lparr>actors := hm_insert ?i (cell\<lparr>actor := (actor cell)\<lparr>any_val := v'\<rparr>\<rparr>) (actors s),
      sys_world := reply_send r v w'\<rparr>"
  have l: "r < length (replies w')"
    using exec_comm[OF assms(5)] assms(4) by (auto simp: comm_ext_def)
  have d: "call_dispatch cls (env_dispatch msg) (actor cell) (context_new ?i) (sys_world s) =
      (Inr (), (actor cell)\<lparr>any_val := v'\<rparr>, ctx', reply_send r v w')"
    using assms(3,5) by (simp add: call_dispatch_def call_handle_def)
  have life: "sys_life s" using sys_reach_inv[OF assms(1)] by (simp add: sys_inv_def)
  have inv1: "sys_life s1"
    unfolding s1_def using assms(3) by (intro sys_life_after_call[OF life assms(2) d]) auto
  have rm: "sys_remove_actor cls ?i s1 = (res, s2)"
    using assms(2,6,7) d by (simp add: sys_dispatch_def Let_def s1_def)
  note k = sys_life_remove(3)[OF inv1 rm] sys_life_remove(4)[OF inv1 rm]
  have "\<exists>rs. replies (sys_world s2) = replies (sys_world s1) @ rs"
  proof -
    obtain act'' ctx'' res'' where x: "exec (cls_stopped (cls (any_type (actor cell))) v') v' (context_new ?i)
        (log_event (EvStopped ?i) (sys_world s1)) = (res'', act'', ctx'', sys_world s2)"
      using rm life assms(2) by (auto simp: sys_remove_actor_def s1_def Let_def call_dispatch_def sys_life_def
          split: prod.splits sum.splits)
    show ?thesis using exec_comm[OF x] by (simp add: comm_ext_def)
  qed
  then have "addr_send_result r (sys_world s2) = Some (Inr v)"
    using l by (auto simp: s1_def addr_send_result_def reply_send_def nth_append)
  then show ?thesis using k by (auto simp: s1_def sys_dispatch_def)
qed


text \<open>A class that stops at its first message.\<close>

definition quit_classes :: "(demo_val, string list) classes" where
  "quit_classes a = \<lparr>cls_handle = (\<lambda>_ _. CtxStop (Return Unit)), cls_stopped = (\<lambda>_. Return Unit)\<rparr>"

definition demo_increment :: "demo_val message" where
  "demo_increment = \<lparr>env_actor_id = ActorId 1, env_dispatch = SendFn counter_type Increment 0\<rparr>"

theorem sys_stop_request_witness:
  "\<exists>res s2. sys_dispatch quit_classes demo_increment demo_queued = (res, s2)
     \<and> addr_send_result 0 (sys_world s2) = Some (Inr Unit) \<and> hm_get (actors s2) (ActorId 1) = None"
proof -
  obtain res s2 where d: "sys_dispatch quit_classes demo_increment demo_queued = (res, s2)" by fastforce
  have c: "hm_get (actors demo_queued) (env_actor_id demo_increment) = Some
      \<lparr>actor = \<lparr>any_type = counter_type, any_val = CounterActor 0\<rparr>, on_stop = OnStopFn counter_type\<rparr>"
    by (simp add: demo_increment_def demo_queued_actor)
  have n: "0 < length (replies (sys_world demo_queued))" by code_simp
  have x: "exec (cls_handle (quit_classes a) v0 m) v0 ctx w0 = (Inr Unit, v0, context_stop ctx, w0)"
    for a v0 m ctx w0
    by (simp add: quit_classes_def)
  show ?thesis
    using sys_stop_request[OF demo_queued_steps c _ n x _ d] d by (simp add: demo_increment_def)
qed

text \<open>
  C25: a request to an actor that is not there (never spawned, or removed) is not left waiting:
  the loop's next turn drops it, the waiting \<^verbatim>\<open>send\<close> returns \<^verbatim>\<open>Err(ActorNotRunning)\<close>, and no
  actor is called or changed.
\<close>

theorem sys_send_to_absent:
  assumes "sys_steps cls (system_new e) s" and "chan_queue (chan_at (sys_world s) (sys_rx s)) = []"
    and "addr_tx adr = sys_rx s" and "hm_get (actors s) (addr_actor_id adr) = None"
    and "addr_send_begin adr m (sys_world s) = (Inr r, w)"
    and "sys_recv (s\<lparr>sys_world := w\<rparr>) = (Received msg, s1)" and "sys_dispatch cls msg s1 = (res, s2)"
  shows "res = Inr () \<and> addr_send_result r (sys_world s2) = Some (Inl ActorNotRunning)
    \<and> actors s2 = actors s \<and> log (sys_world s2) = log (sys_world s)"
proof -
  note r = recv_after_send[OF sys_reach_inv[OF assms(1)] assms(2,3,5,6)]
  show ?thesis
    using assms(4,7) r
    by (auto simp: sys_dispatch_def addr_send_result_def drop_envelope_def drop_dispatch_def nth_reply_drop)
qed

definition stray_addr :: addr where
  "stray_addr = addr_new (ActorId 7) 0 counter_type"

theorem sys_send_to_absent_witness:
  "\<exists>s1 s2 msg w. addr_send_begin stray_addr Increment (sys_world demo_spawned) = (Inr 0, w)
     \<and> sys_recv (demo_spawned\<lparr>sys_world := w\<rparr>) = (Received msg, s1)
     \<and> sys_dispatch (demo_classes True) msg s1 = (Inr (), s2)
     \<and> addr_send_result 0 (sys_world s2) = Some (Inl ActorNotRunning)"
proof -
  obtain r w where sb: "addr_send_begin stray_addr Increment (sys_world demo_spawned) = (r, w)" by fastforce
  have "fst (addr_send_begin stray_addr Increment (sys_world demo_spawned)) = Inr 0" by code_simp
  with sb have s: "addr_send_begin stray_addr Increment (sys_world demo_spawned) = (Inr 0, w)" by simp
  have emp: "chan_queue (chan_at (sys_world demo_spawned) (sys_rx demo_spawned)) = []"
    and rx: "addr_tx stray_addr = sys_rx demo_spawned"
    and no: "map_option (\<lambda>_. ()) (hm_get (actors demo_spawned) (addr_actor_id stray_addr)) = None"
    by code_simp+
  from no have none: "hm_get (actors demo_spawned) (addr_actor_id stray_addr) = None" by simp
  obtain rc s1 where rc: "sys_recv (demo_spawned\<lparr>sys_world := w\<rparr>) = (rc, s1)" by fastforce
  note r = recv_after_send[OF sys_reach_inv[OF demo_spawned_steps] emp rx s rc]
  obtain res s2 where d: "sys_dispatch (demo_classes True)
      \<lparr>env_actor_id = addr_actor_id stray_addr, env_dispatch = SendFn (addr_type stray_addr) Increment 0\<rparr> s1
      = (res, s2)" by fastforce
  show ?thesis
    using sys_send_to_absent[OF demo_spawned_steps emp rx none s rc[unfolded r(1)] d] s rc r(1) d by blast
qed

section \<open>Spawning\<close>

lemma demo_spawned_next: "sys_next_id demo_spawned = 2"
  by code_simp

text \<open>
  C28: a spawn that returns gives an address that works: its id has never been used before, the
  actor is stored under it with its type and has been started, the address leads to the open
  channel of the system, and no other actor is affected.
\<close>

theorem sys_spawn_contract:
  assumes "sys_steps cls (system_new e) s" and "Suc (unat (sys_next_id s)) < 2 ^ 64"
    and "sys_spawn oc st a v s = (Inr adr, s')"
  shows "adr = addr_new (ActorId (sys_next_id s)) (sys_rx s) a
    \<and> hm_get (actors s) (addr_actor_id adr) = None \<and> life (addr_actor_id adr) (log (sys_world s)) = Unborn
    \<and> (\<exists>cell. hm_get (actors s') (addr_actor_id adr) = Some cell \<and> any_type (actor cell) = a)
    \<and> life (addr_actor_id adr) (log (sys_world s')) = Alive
    \<and> (\<forall>j. j \<noteq> addr_actor_id adr \<longrightarrow> hm_get (actors s') j = hm_get (actors s) j)
    \<and> chan_open (chan_at (sys_world s') (addr_tx adr))"
proof -
  have inv: "sys_inv s" by (rule sys_reach_inv[OF assms(1)])
  have inv': "sys_inv s'" by (rule sys_step_inv[OF step_spawn[OF assms(2,3)] inv])
  have un: "life (ActorId (sys_next_id s)) (log (sys_world s)) = Unborn"
    using inv by (simp add: sys_inv_def sys_life_def)
  then have none: "hm_get (actors s) (ActorId (sys_next_id s)) = None"
    using inv by (cases "hm_get (actors s) (ActorId (sys_next_id s))") (auto simp: sys_inv_def sys_life_def)
  from assms(3,2) show ?thesis
  proof (cases rule: sys_spawn_E)
    case (Spawned tx x v' ctx' w2)
    have tx: "tx = sys_rx s" using Spawned(1) inv by (auto simp: sys_inv_def sys_comm_def)
    have "life (ActorId (sys_next_id s)) (log (sys_world s')) = Alive"
      using inv' by (auto simp: sys_inv_def sys_life_def Spawned(3))
    moreover have "chan_open (chan_at (sys_world s') (sys_rx s))"
      using inv' by (simp add: sys_inv_def sys_comm_def Spawned(3))
    ultimately show ?thesis using un none Spawned(2) tx by (auto simp: Spawned(3))
  qed auto
qed

theorem sys_spawn_contract_witness:
  "\<exists>s'. sys_spawn True demo_started printer_type PrinterActor demo_spawned = (Inr (addr_new (ActorId 2) 0 printer_type), s')
     \<and> hm_get (actors s') (ActorId 1) = hm_get (actors demo_spawned) (ActorId 1)"
proof -
  have f: "fst (sys_spawn True demo_started printer_type PrinterActor demo_spawned) =
      Inr (addr_new (ActorId 2) 0 printer_type)" by code_simp
  have n: "Suc (unat (sys_next_id demo_spawned)) < 2 ^ 64" by (simp add: demo_spawned_next)
  obtain s' where s': "sys_spawn True demo_started printer_type PrinterActor demo_spawned =
      (Inr (addr_new (ActorId 2) 0 printer_type), s')"
    using f by (metis prod.collapse)
  from sys_spawn_contract[OF demo_spawned_steps n s'] s' show ?thesis by simp
qed

text \<open>
  Once \<^verbatim>\<open>run\<close> has begun, \<^verbatim>\<open>spawn\<close> panics with its documented message, before any callback
  of the new actor has been called and without touching actors, channels or trace.
\<close>

theorem sys_spawn_after_run:
  assumes "Suc (unat (sys_next_id s)) < 2 ^ 64"
  shows "sys_spawn oc st a v (sys_begin_run s) =
    (Inl (Panicking (PString ''spawn called after run'')),
     (sys_begin_run s)\<lparr>sys_next_id := sys_next_id s + 1\<rparr>)"
proof -
  have "sys_tx (sys_begin_run s) = None" and "sys_next_id (sys_begin_run s) = sys_next_id s"
    by (simp_all add: sys_begin_run_def Let_def split: option.split)
  with assms show ?thesis by (simp add: sys_spawn_def Let_def add_profile_small)
qed

theorem sys_spawn_after_run_witness:
  "fst (sys_spawn True demo_started printer_type PrinterActor (sys_begin_run demo_spawned)) =
     Inl (Panicking (PString ''spawn called after run''))"
proof -
  have n: "Suc (unat (sys_next_id demo_spawned)) < 2 ^ 64" by (simp add: demo_spawned_next)
  show ?thesis using sys_spawn_after_run[OF n] by simp
qed

end
