(* ===== verification/Testkit.thy ===== *)
theory Testkit
  imports System_Loops
begin

text \<open>
  \<^verbatim>\<open>TestKit\<close>, \<^verbatim>\<open>TestProbe\<close> and \<^verbatim>\<open>ProbeActor\<close> of \<^verbatim>\<open>src/testkit.rs\<close> over the model of
  \<^verbatim>\<open>ActorSystem\<close>. The vectors behind \<^verbatim>\<open>Arc<Mutex<Vec<M>>>\<close> that probes and tests share are
  a store in the shared state of the world, addressed by number.
\<close>

section \<open>Probes\<close>

text \<open>The values of a program under test: those of its own types, and probe actors.\<close>

datatype 'u kit_val = ProbeActor nat | UserVal 'u

record ('u, 'x) kit_env =
  probe_store :: "'u kit_val list list"
  user_env :: 'x

type_synonym ('u, 'x) test_kit = "('u kit_val, ('u, 'x) kit_env) actor_system"

text \<open>\<^verbatim>\<open>self.messages.lock().unwrap().push(msg); M::Result::default()\<close>\<close>

fun probe_handle :: "'u kit_val \<Rightarrow> 'u kit_val \<Rightarrow> 'u kit_val \<Rightarrow> ('u kit_val, ('u, 'x) kit_env) prog" where
  "probe_handle dflt (ProbeActor k) msg =
     Shared (\<lambda>e. e\<lparr>probe_store := (probe_store e)[k := probe_store e ! k @ [msg]]\<rparr>) (\<lambda>_. Return dflt)"
| "probe_handle dflt (UserVal _) msg = Panic POther"

text \<open>
  The classes of a program under test: \<open>probe_of a\<close> is \<open>Some dflt\<close> if \<open>a\<close> is the type
  \<^verbatim>\<open>ProbeActor<M>\<close> of a message type whose \<^verbatim>\<open>Result\<close> has the default \<open>dflt\<close>.
\<close>

definition kit_classes ::
  "(type_id \<Rightarrow> 'u kit_val option) \<Rightarrow> ('u kit_val, ('u, 'x) kit_env) classes \<Rightarrow>
   ('u kit_val, ('u, 'x) kit_env) classes" where
  "kit_classes probe_of cls a =
     (case probe_of a of
        Some dflt \<Rightarrow> \<lparr>cls_handle = probe_handle dflt, cls_stopped = (\<lambda>_. Return dflt)\<rparr>
      | None \<Rightarrow> cls a)"

record test_probe =
  messages :: nat
  probe_address :: addr

section \<open>The kit\<close>

definition kit_new :: "'x \<Rightarrow> ('u, 'x) test_kit" where
  "kit_new x = system_new \<lparr>probe_store = [], user_env = x\<rparr>"

definition kit_spawn ::
  "bool \<Rightarrow> ('u kit_val, ('u, 'x) kit_env) prog \<Rightarrow> type_id \<Rightarrow> 'u kit_val \<Rightarrow> ('u, 'x) test_kit \<Rightarrow>
   (fault + addr) \<times> ('u, 'x) test_kit" where
  "kit_spawn oc started a v s = sys_spawn oc started a v s"

text \<open>\<^verbatim>\<open>ProbeActor\<close> has the empty default \<^verbatim>\<open>started\<close>; \<open>a\<close> is the type \<^verbatim>\<open>ProbeActor<M>\<close>.\<close>

definition kit_spawn_probe ::
  "bool \<Rightarrow> type_id \<Rightarrow> ('u, 'x) test_kit \<Rightarrow> (fault + test_probe) \<times> ('u, 'x) test_kit" where
  "kit_spawn_probe oc a s =
     (let k = length (probe_store (env (sys_world s)));
          s1 = s\<lparr>sys_world := (sys_world s)\<lparr>env := (env (sys_world s))
                 \<lparr>probe_store := probe_store (env (sys_world s)) @ [[]]\<rparr>\<rparr>\<rparr>
      in case sys_spawn oc (Return (ProbeActor k)) a (ProbeActor k) s1 of
           (Inl f, s2) \<Rightarrow> (Inl f, s2)
         | (Inr adr, s2) \<Rightarrow> (Inr \<lparr>messages = k, probe_address = adr\<rparr>, s2))"

partial_function (option) kit_run_until_idle ::
  "('u kit_val, ('u, 'x) kit_env) classes \<Rightarrow> ('u, 'x) test_kit \<Rightarrow>
   (unit loop_end \<times> ('u, 'x) test_kit) option" where
  "kit_run_until_idle cls s =
     (case sys_run_once cls s of
        None \<Rightarrow> None
      | Some (r, s') \<Rightarrow>
          (case r of
             Finished n \<Rightarrow> (if n > 0 then kit_run_until_idle cls s' else Some (Finished (), s'))
           | Unwound f \<Rightarrow> Some (Unwound f, s')
           | Waiting \<Rightarrow> Some (Waiting, s')))"

declare kit_run_until_idle.simps [code]

section \<open>What a test asks a probe\<close>

definition probe_id :: "test_probe \<Rightarrow> actor_id" where
  "probe_id p = addr_id (probe_address p)"

definition probe_recipient :: "test_probe \<Rightarrow> ('u, 'x) test_kit \<Rightarrow> addr \<times> ('u, 'x) test_kit" where
  "probe_recipient p s =
     (case addr_clone (probe_address p) (sys_world s) of (a, w) \<Rightarrow> (a, s\<lparr>sys_world := w\<rparr>))"

definition probe_all :: "test_probe \<Rightarrow> ('u, 'x) test_kit \<Rightarrow> 'u kit_val list" where
  "probe_all p s = probe_store (env (sys_world s)) ! messages p"

definition probe_count :: "test_probe \<Rightarrow> ('u, 'x) test_kit \<Rightarrow> nat" where
  "probe_count p s = length (probe_store (env (sys_world s)) ! messages p)"

definition probe_received_any :: "test_probe \<Rightarrow> ('u, 'x) test_kit \<Rightarrow> bool" where
  "probe_received_any p s \<longleftrightarrow> probe_count p s > 0"

definition probe_first :: "test_probe \<Rightarrow> ('u, 'x) test_kit \<Rightarrow> 'u kit_val option" where
  "probe_first p s =
     (case probe_store (env (sys_world s)) ! messages p of [] \<Rightarrow> None | m # _ \<Rightarrow> Some m)"

definition probe_reset :: "test_probe \<Rightarrow> ('u, 'x) test_kit \<Rightarrow> ('u, 'x) test_kit" where
  "probe_reset p s = s\<lparr>sys_world := (sys_world s)\<lparr>env := (env (sys_world s))
     \<lparr>probe_store := (probe_store (env (sys_world s)))[messages p := []]\<rparr>\<rparr>\<rparr>"

definition probe_any_match :: "test_probe \<Rightarrow> ('u kit_val \<Rightarrow> bool) \<Rightarrow> ('u, 'x) test_kit \<Rightarrow> bool" where
  "probe_any_match p pred s \<longleftrightarrow> list_ex pred (probe_store (env (sys_world s)) ! messages p)"

definition probe_clone :: "test_probe \<Rightarrow> ('u, 'x) test_kit \<Rightarrow> test_probe \<times> ('u, 'x) test_kit" where
  "probe_clone p s =
     (case addr_clone (probe_address p) (sys_world s) of
        (a, w) \<Rightarrow> (\<lparr>messages = messages p, probe_address = a\<rparr>, s\<lparr>sys_world := w\<rparr>))"

section \<open>Draining\<close>

text \<open>A \<^verbatim>\<open>run_once\<close> that returns leaves nothing for a second one.\<close>

lemma kit_run_until_idle_once:
  "kit_run_until_idle cls s =
     (case sys_run_once cls s of
        None \<Rightarrow> None
      | Some (Finished n, s') \<Rightarrow> Some (Finished (), s')
      | Some (Unwound f, s') \<Rightarrow> Some (Unwound f, s')
      | Some (Waiting, s') \<Rightarrow> Some (Waiting, s'))"
proof -
  have again: "kit_run_until_idle cls s' = Some (Finished (), s')"
    if "sys_run_once cls s = Some (Finished n, s')" for n s'
    using sys_run_once_empty(2)[OF that] by (subst kit_run_until_idle.simps) simp
  show ?thesis
    by (subst kit_run_until_idle.simps) (auto simp: again split: option.splits prod.splits loop_end.splits)
qed

text \<open>A queue of messages for one probe.\<close>

definition probe_stored :: "nat \<Rightarrow> type_id \<Rightarrow> actor_id \<Rightarrow> ('u, 'x) test_kit \<Rightarrow> bool" where
  "probe_stored k a i s \<longleftrightarrow>
     (\<exists>cell. hm_get (actors s) i = Some cell \<and> actor cell = \<lparr>any_type = a, any_val = ProbeActor k\<rparr>)
   \<and> k < length (probe_store (env (sys_world s)))"

lemma sys_recv_env: "sys_recv s = (r, s1) \<Longrightarrow> env (sys_world s1) = env (sys_world s)"
  by (auto simp: sys_recv_def split: prod.splits)

lemma probe_dispatch:
  assumes "probe_stored k a i s" and "probe_of a = Some dflt"
    and "sys_dispatch (kit_classes probe_of cls) \<lparr>env_actor_id = i, env_dispatch = DoSendFn a m\<rparr> s = (r, s')"
  shows "r = Inr ()" and "probe_stored k a i s'" and "sys_rx s' = sys_rx s"
    and "chans (sys_world s') = chans (sys_world s)"
    and "probe_store (env (sys_world s')) =
      (probe_store (env (sys_world s)))[k := probe_store (env (sys_world s)) ! k @ [m]]"
  using assms
  by (auto simp: probe_stored_def sys_dispatch_def call_dispatch_def call_handle_def kit_classes_def Let_def)

lemma probe_run_once:
  assumes "probe_stored k a i s" and "probe_of a = Some dflt"
    and "chan_queue (chan_at (sys_world s) (sys_rx s)) =
      map (\<lambda>m. \<lparr>env_actor_id = i, env_dispatch = DoSendFn a m\<rparr>) ms"
  shows "\<exists>s'. sys_run_once_loop (kit_classes probe_of cls) n s = Some (Finished (n + length ms), s')
    \<and> probe_store (env (sys_world s')) ! k = probe_store (env (sys_world s)) ! k @ ms"
  using assms
proof (induction ms arbitrary: n s)
  case Nil
  obtain r s1 where r: "sys_recv s = (r, s1)" by (cases "sys_recv s")
  with Nil(3) have "\<forall>e. r \<noteq> Received e" by (auto simp: sys_recv_def chan_try_recv_simps split: if_splits)
  with sys_recv_not_Received(2)[OF r] r show ?case
    by (subst sys_run_once_loop.simps) (auto split: recv.splits)
next
  case (Cons m ms)
  let ?e = "\<lambda>m. \<lparr>env_actor_id = i, env_dispatch = DoSendFn a m\<rparr>"
  obtain r s1 where r: "sys_recv s = (r, s1)" by (cases "sys_recv s")
  have re: "r = Received (?e m)" using r Cons.prems(3) by (auto simp: sys_recv_def chan_try_recv_simps)
  obtain es' where q: "chan_queue (chan_at (sys_world s) (sys_rx s)) = ?e m # es'"
    "\<And>c. chan_queue (chan_at (sys_world s1) c) =
        (if c = sys_rx s then es' else chan_queue (chan_at (sys_world s) c))"
    using sys_recv_Received[OF r[unfolded re]] by metis
  have st1: "probe_stored k a i s1"
    using Cons.prems(1) sys_recv_frame[OF r] sys_recv_env[OF r] by (simp add: probe_stored_def)
  obtain d s2 where d: "sys_dispatch (kit_classes probe_of cls) (?e m) s1 = (d, s2)" by fastforce
  note p = probe_dispatch[OF st1 Cons.prems(2) d]
  have "chan_queue (chan_at (sys_world s2) (sys_rx s2)) = map ?e ms"
    using Cons.prems(3) q p(3) sys_recv_frame[OF r] by (simp add: chan_at_cong[OF p(4)])
  from Cons.IH[OF p(2) Cons.prems(2) this, of "Suc n"] obtain s' where
    s': "sys_run_once_loop (kit_classes probe_of cls) (Suc n) s2 = Some (Finished (Suc n + length ms), s')"
    "probe_store (env (sys_world s')) ! k = probe_store (env (sys_world s2)) ! k @ ms" by blast
  have "probe_store (env (sys_world s2)) ! k = probe_store (env (sys_world s)) ! k @ [m]"
    using st1 p(5) sys_recv_env[OF r] by (simp add: probe_stored_def)
  with s' r re d p(1) show ?case by (subst sys_run_once_loop.simps) auto
qed

text \<open>Several messages sent to one address by \<^verbatim>\<open>do_send\<close>.\<close>

definition do_send_all :: "addr \<Rightarrow> 'v list \<Rightarrow> ('v, 'e) actor_system \<Rightarrow> ('v, 'e) actor_system" where
  "do_send_all adr ms s = fold (\<lambda>m t. t\<lparr>sys_world := snd (addr_do_send adr m (sys_world t))\<rparr>) ms s"

lemma do_send_all_queue:
  assumes "chan_open (chan_at (sys_world s) (addr_tx adr))" and "sys_rx s = addr_tx adr"
  shows "chan_queue (chan_at (sys_world (do_send_all adr ms s)) (sys_rx (do_send_all adr ms s))) =
      chan_queue (chan_at (sys_world s) (sys_rx s)) @
      map (\<lambda>m. \<lparr>env_actor_id = addr_actor_id adr, env_dispatch = DoSendFn (addr_type adr) m\<rparr>) ms
    \<and> actors (do_send_all adr ms s) = actors s
    \<and> env (sys_world (do_send_all adr ms s)) = env (sys_world s)"
  using assms
proof (induction ms arbitrary: s)
  case (Cons m ms)
  define t where "t = s\<lparr>sys_world := snd (addr_do_send adr m (sys_world s))\<rparr>"
  have s: "do_send_all adr (m # ms) s = do_send_all adr ms t" by (simp add: do_send_all_def t_def)
  have "chan_open (chan_at (sys_world t) (addr_tx adr))" "sys_rx t = addr_tx adr"
    using Cons.prems by (simp_all add: t_def)
  from Cons.IH[OF this] Cons.prems show ?case
    unfolding s by (simp add: t_def chan_queue_do_send)
qed (simp add: do_send_all_def)

section \<open>Properties\<close>

text \<open>
  \<^verbatim>\<open>run_until_idle\<close> returns exactly when one \<^verbatim>\<open>run_once\<close> does and leaves the same state:
  its loop never needs a second productive round, because \<^verbatim>\<open>run_once\<close> only returns on an empty
  queue. A panic in a callback comes out of both.
\<close>

theorem kit_idle_is_run_once:
  "kit_run_until_idle cls s =
     (case sys_run_once cls s of
        None \<Rightarrow> None
      | Some (r, s') \<Rightarrow> Some (case r of Finished n \<Rightarrow> Finished () | Unwound f \<Rightarrow> Unwound f | Waiting \<Rightarrow> Waiting, s'))"
  by (simp add: kit_run_until_idle_once split: option.splits loop_end.splits)

text \<open>
  C34: a probe records exactly the messages sent to it, in the order they were sent. After
  \<^verbatim>\<open>spawn_probe\<close> on an idle kit and any list of \<^verbatim>\<open>do_send\<close>s to the probe, \<^verbatim>\<open>run_until_idle\<close>
  returns and \<^verbatim>\<open>all\<close>, \<^verbatim>\<open>count\<close>, \<^verbatim>\<open>first\<close> and \<^verbatim>\<open>any_match\<close> report these messages.
\<close>

theorem kit_probe_records:
  assumes "sys_steps (kit_classes probe_of cls) (kit_new x) s" and "Suc (unat (sys_next_id s)) < 2 ^ 64"
    and "chan_queue (chan_at (sys_world s) (sys_rx s)) = []" and "probe_of a = Some dflt"
    and "kit_spawn_probe oc a s = (Inr p, s1)"
  shows "\<exists>s2. kit_run_until_idle (kit_classes probe_of cls) (do_send_all (probe_address p) ms s1) =
      Some (Finished (), s2)
    \<and> probe_all p s2 = ms \<and> probe_count p s2 = length ms
    \<and> probe_first p s2 = (case ms of [] \<Rightarrow> None | m # _ \<Rightarrow> Some m)
    \<and> probe_any_match p pred s2 = list_ex pred ms"
proof -
  define k where "k = length (probe_store (env (sys_world s)))"
  define s0 where "s0 = s\<lparr>sys_world := (sys_world s)\<lparr>env := (env (sys_world s))
      \<lparr>probe_store := probe_store (env (sys_world s)) @ [[]]\<rparr>\<rparr>\<rparr>"
  have inv: "sys_inv s"
    by (rule sys_steps_inv[OF assms(1)]) (simp add: kit_new_def sys_inv_new)
  obtain adr where sp: "sys_spawn oc (Return (ProbeActor k)) a (ProbeActor k) s0 = (Inr adr, s1)"
    and p: "p = \<lparr>messages = k, probe_address = adr\<rparr>"
    using assms(5) by (auto simp: kit_spawn_probe_def Let_def k_def s0_def split: prod.splits sum.splits)
  have n0: "Suc (unat (sys_next_id s0)) < 2 ^ 64" using assms(2) by (simp add: s0_def)
  have st: "probe_stored k a (addr_actor_id adr) s1 \<and> addr_type adr = a \<and> sys_rx s1 = addr_tx adr
      \<and> chan_open (chan_at (sys_world s1) (addr_tx adr))
      \<and> chan_queue (chan_at (sys_world s1) (sys_rx s1)) = []
      \<and> probe_store (env (sys_world s1)) ! k = []"
    using sp n0
  proof (cases rule: sys_spawn_E)
    case (Spawned tx y v' ctx' w2)
    have "tx = sys_rx s" using Spawned(1) inv by (auto simp: sys_inv_def sys_comm_def s0_def)
    with Spawned(2-4) inv assms(3) show ?thesis
      by (auto simp: probe_stored_def s0_def k_def sys_inv_def sys_comm_def)
  qed auto
  let ?t = "do_send_all (probe_address p) ms s1"
  note q = do_send_all_queue[of s1 adr ms]
  have "chan_queue (chan_at (sys_world ?t) (sys_rx ?t)) =
      map (\<lambda>m. \<lparr>env_actor_id = addr_actor_id adr, env_dispatch = DoSendFn a m\<rparr>) ms"
    and "probe_stored k a (addr_actor_id adr) ?t" and "probe_store (env (sys_world ?t)) ! k = []"
    using q st p by (auto simp: probe_stored_def)
  from probe_run_once[where a = a and probe_of = probe_of and n = 0 and cls = cls, OF this(2) assms(4) this(1)] this(3) obtain s2 where
    "sys_run_once (kit_classes probe_of cls) ?t = Some (Finished (length ms), s2)"
    "probe_store (env (sys_world s2)) ! k = ms"
    by (auto simp: sys_run_once_def)
  then show ?thesis
    by (auto simp: kit_run_until_idle_once p probe_all_def probe_count_def probe_first_def probe_any_match_def)
qed

text \<open>A kit whose only actor is one probe.\<close>

definition demo_probe_of :: "type_id \<Rightarrow> nat kit_val option" where
  "demo_probe_of a = (if a = 0 then Some (UserVal 0) else None)"

definition demo_kit_classes :: "(nat kit_val, (nat, unit) kit_env) classes" where
  "demo_kit_classes _ = \<lparr>cls_handle = (\<lambda>_ _. Panic POther), cls_stopped = (\<lambda>_. Return (UserVal 0))\<rparr>"

theorem kit_probe_records_witness:
  "\<exists>p s1 s2. kit_spawn_probe True 0 (kit_new ()) = (Inr p, s1)
     \<and> kit_run_until_idle (kit_classes demo_probe_of demo_kit_classes)
         (do_send_all (probe_address p) [UserVal 5, UserVal 7] s1) = Some (Finished (), s2)
     \<and> probe_all p s2 = [UserVal 5, UserVal 7]"
proof -
  have n: "Suc (unat (sys_next_id (kit_new () :: (nat, unit) test_kit))) < 2 ^ 64"
    and q: "chan_queue (chan_at (sys_world (kit_new () :: (nat, unit) test_kit)) (sys_rx (kit_new () :: (nat, unit) test_kit))) = []"
    by (simp_all add: kit_new_def system_new_def chan_at_def chan_new_def)
  have "map_option (\<lambda>_. ()) (case fst (kit_spawn_probe True 0 (kit_new () :: (nat, unit) test_kit)) of
      Inr p \<Rightarrow> Some p | Inl _ \<Rightarrow> None) = Some ()" by code_simp
  then obtain p s1 where p: "kit_spawn_probe True 0 (kit_new () :: (nat, unit) test_kit) = (Inr p, s1)"
    by (cases "kit_spawn_probe True 0 (kit_new () :: (nat, unit) test_kit)") (auto split: sum.splits)
  have o: "demo_probe_of 0 = Some (UserVal 0)" by (simp add: demo_probe_of_def)
  have "sys_steps (kit_classes demo_probe_of demo_kit_classes) (kit_new ()) (kit_new ())" by (rule steps_refl)
  from kit_probe_records[where probe_of = demo_probe_of and a = 0 and ms = "[UserVal 5, UserVal 7]", OF this n q o p] p
  show ?thesis by blast
qed

end
