(* ===== verification/Scheduler.thy ===== *)
theory Scheduler
  imports Actor
begin

text \<open>
  The per-worker round-robin scheduler of \<^verbatim>\<open>src/scheduler.rs\<close>: a mailbox per actor and a queue
  of the actors that have messages. The operations are translated one by one; \<open>sched_turn\<close> is
  the use \<^verbatim>\<open>Worker::run\<close> makes of them. The contract they meet is stated twice: as the locales
  \<open>mailbox_scheduler\<close> and \<open>fair_scheduler\<close> (what a client may rely on over any sequence of
  operations), and as an abstract ring of non-empty mailboxes that the operations refine.
\<close>

section \<open>State and operations\<close>

record 'd scheduler =
  mailboxes :: "(actor_id, 'd envelope list) hashmap"
  ready_queue :: "actor_id list"

definition sched_new :: "'d scheduler" where
  "sched_new = \<lparr>mailboxes = hm_new, ready_queue = []\<rparr>"

text \<open>\<^verbatim>\<open>entry(id).or_default()\<close> and \<^verbatim>\<open>get(&id)\<close> with the empty default.\<close>

definition mailbox :: "'d scheduler \<Rightarrow> actor_id \<Rightarrow> 'd envelope list" where
  "mailbox s i = (case hm_get (mailboxes s) i of None \<Rightarrow> [] | Some q \<Rightarrow> q)"

definition enqueue :: "'d envelope \<Rightarrow> 'd scheduler \<Rightarrow> 'd scheduler" where
  "enqueue e s =
     (let i = env_actor_id e;
          s' = s\<lparr>mailboxes := hm_insert i (vd_push_back e (mailbox s i)) (mailboxes s)\<rparr>
      in if i \<in> set (ready_queue s') then s'
         else s'\<lparr>ready_queue := vd_push_back i (ready_queue s')\<rparr>)"

definition has_pending :: "'d scheduler \<Rightarrow> actor_id \<Rightarrow> bool" where
  "has_pending s i =
     (case map_option (\<lambda>q. q \<noteq> []) (hm_get (mailboxes s) i) of None \<Rightarrow> False | Some b \<Rightarrow> b)"

text \<open>The \<^verbatim>\<open>for _ in 0..len\<close> loop; the \<^verbatim>\<open>?\<close> on \<^verbatim>\<open>pop_front\<close> returns \<^verbatim>\<open>None\<close>.\<close>

fun next_ready_loop :: "nat \<Rightarrow> 'd scheduler \<Rightarrow> actor_id option \<times> 'd scheduler" where
  "next_ready_loop 0 s = (None, s)"
| "next_ready_loop (Suc n) s =
     (case vd_pop_front (ready_queue s) of
        (None, _) \<Rightarrow> (None, s)
      | (Some i, rest) \<Rightarrow>
          (let s' = s\<lparr>ready_queue := rest\<rparr>
           in if has_pending s' i then (Some i, s') else next_ready_loop n s'))"

definition next_ready :: "'d scheduler \<Rightarrow> actor_id option \<times> 'd scheduler" where
  "next_ready s = next_ready_loop (length (ready_queue s)) s"

definition dequeue :: "actor_id \<Rightarrow> 'd scheduler \<Rightarrow> 'd envelope option \<times> 'd scheduler" where
  "dequeue i s =
     (case hm_get (mailboxes s) i of
        None \<Rightarrow> (None, s)
      | Some q \<Rightarrow> (case vd_pop_front q of
          (e, q') \<Rightarrow> (e, s\<lparr>mailboxes := hm_insert i q' (mailboxes s)\<rparr>)))"

definition cleanup_empty :: "actor_id \<Rightarrow> 'd scheduler \<Rightarrow> 'd scheduler" where
  "cleanup_empty i s =
     (if (case map_option (\<lambda>q. q = []) (hm_get (mailboxes s) i) of None \<Rightarrow> False | Some b \<Rightarrow> b)
      then s\<lparr>mailboxes := hm_remove i (mailboxes s)\<rparr> else s)"

definition requeue_if_ready :: "actor_id \<Rightarrow> 'd scheduler \<Rightarrow> 'd scheduler" where
  "requeue_if_ready i s =
     (if has_pending s i then s\<lparr>ready_queue := vd_push_back i (ready_queue s)\<rparr>
      else cleanup_empty i s)"

definition sched_remove_actor :: "actor_id \<Rightarrow> 'd scheduler \<Rightarrow> 'd scheduler" where
  "sched_remove_actor i s =
     s\<lparr>mailboxes := hm_remove i (mailboxes s), ready_queue := filter (\<lambda>j. j \<noteq> i) (ready_queue s)\<rparr>"

text \<open>One scheduling turn of \<^verbatim>\<open>Worker::run\<close>, the dispatch of the envelope left out.\<close>

definition sched_turn :: "'d scheduler \<Rightarrow> 'd envelope option \<times> 'd scheduler" where
  "sched_turn s =
     (case next_ready s of
        (None, s1) \<Rightarrow> (None, s1)
      | (Some i, s1) \<Rightarrow>
          (case dequeue i s1 of
             (None, s2) \<Rightarrow> (None, s2)
           | (Some e, s2) \<Rightarrow> (Some e, requeue_if_ready i s2)))"

lemmas [sched_defs] = enqueue_def next_ready_def dequeue_def cleanup_empty_def
  requeue_if_ready_def sched_remove_actor_def vd_push_back_def Let_def

section \<open>What each operation does to the mailboxes\<close>

lemma has_pending_iff: "has_pending s i \<longleftrightarrow> mailbox s i \<noteq> []"
  by (simp add: has_pending_def mailbox_def split: option.splits)

lemma mailbox_new [simp]: "mailbox sched_new i = []"
  by (simp add: mailbox_def sched_new_def)

lemma mailbox_ready_queue_upd [simp]: "mailbox (s\<lparr>ready_queue := r\<rparr>) i = mailbox s i"
  by (simp add: mailbox_def)

lemma mailbox_enqueue [simp]:
  "mailbox (enqueue e s) i = (if i = env_actor_id e then mailbox s i @ [e] else mailbox s i)"
  by (simp add: sched_defs mailbox_def)

lemma mailbox_dequeue [simp]:
  "mailbox (snd (dequeue i s)) j = (if j = i then tl (mailbox s i) else mailbox s j)"
  by (auto simp: dequeue_def mailbox_def vd_pop_front_def split: option.splits list.splits)

lemma fst_dequeue: "fst (dequeue i s) = (case mailbox s i of [] \<Rightarrow> None | e # _ \<Rightarrow> Some e)"
  by (auto simp: dequeue_def mailbox_def vd_pop_front_def split: option.splits list.splits)

lemma mailbox_cleanup_empty [simp]: "mailbox (cleanup_empty i s) j = mailbox s j"
  by (auto simp: cleanup_empty_def mailbox_def split: option.splits)

lemma mailbox_requeue [simp]: "mailbox (requeue_if_ready i s) j = mailbox s j"
  by (simp add: requeue_if_ready_def)

lemma mailbox_remove_actor [simp]:
  "mailbox (sched_remove_actor i s) j = (if j = i then [] else mailbox s j)"
  by (simp add: sched_remove_actor_def mailbox_def)

lemma ready_queue_dequeue [simp]: "ready_queue (snd (dequeue i s)) = ready_queue s"
  by (auto simp: dequeue_def split: option.splits prod.splits)

lemma ready_queue_cleanup_empty [simp]: "ready_queue (cleanup_empty i s) = ready_queue s"
  by (simp add: cleanup_empty_def)

lemma ready_queue_requeue:
  "ready_queue (requeue_if_ready i s) = ready_queue s @ (if mailbox s i = [] then [] else [i])"
  by (simp add: requeue_if_ready_def has_pending_iff vd_push_back_def)

lemma ready_queue_enqueue:
  "ready_queue (enqueue e s) =
     ready_queue s @ (if env_actor_id e \<in> set (ready_queue s) then [] else [env_actor_id e])"
  by (simp add: sched_defs)

lemma ready_queue_remove_actor [simp]:
  "ready_queue (sched_remove_actor i s) = filter (\<lambda>j. j \<noteq> i) (ready_queue s)"
  by (simp add: sched_remove_actor_def)

section \<open>The invariant\<close>

text \<open>
  With no actor in dispatch, the ready queue holds exactly the actors that have messages, each
  once. While actor \<open>i\<close> is being dispatched (between \<^verbatim>\<open>next_ready\<close> and \<^verbatim>\<open>requeue_if_ready\<close>) it
  is out of the queue, whatever its mailbox holds. Envelopes lie in the mailbox of the actor
  they are addressed to, and no empty mailbox is kept.
\<close>

definition sched_inv :: "actor_id option \<Rightarrow> 'd scheduler \<Rightarrow> bool" where
  "sched_inv cur s \<longleftrightarrow>
     hm_wf (mailboxes s) \<and> distinct (ready_queue s)
   \<and> (\<forall>i. i \<in> set (ready_queue s) \<longleftrightarrow> mailbox s i \<noteq> [] \<and> cur \<noteq> Some i)
   \<and> (\<forall>i. \<forall>e \<in> set (mailbox s i). env_actor_id e = i)
   \<and> (\<forall>i. hm_get (mailboxes s) i = Some [] \<longrightarrow> cur = Some i)"

lemma sched_inv_new [inv_intros]: "sched_inv None sched_new"
  by (simp add: sched_inv_def) (simp add: sched_new_def)

lemma sched_inv_enqueue [inv_intros]: "sched_inv None s \<Longrightarrow> sched_inv None (enqueue e s)"
  unfolding sched_inv_def by (auto simp: ready_queue_enqueue) (auto simp: sched_defs split: if_splits)

lemma sched_inv_remove_actor [inv_intros]:
  "sched_inv cur s \<Longrightarrow> sched_inv cur (sched_remove_actor i s)"
  unfolding sched_inv_def by (auto split: if_splits) (auto simp: sched_defs split: if_splits)

lemma sched_inv_dequeue [inv_intros]:
  assumes "sched_inv (Some i) s"
  shows "sched_inv (Some i) (snd (dequeue i s))"
proof -
  have wf: "hm_wf (mailboxes (snd (dequeue i s)))"
    using assms by (auto simp: sched_inv_def dequeue_def split: option.splits prod.splits)
  have empty: "j = i" if "hm_get (mailboxes (snd (dequeue i s))) j = Some []" for j
    using assms that by (auto simp: sched_inv_def dequeue_def split: option.splits prod.splits if_splits)
  show ?thesis
    using assms wf empty by (auto simp: sched_inv_def dest: in_set_tlD split: if_splits)
qed

lemma sched_inv_requeue [inv_intros]:
  assumes "sched_inv (Some i) s"
  shows "sched_inv None (requeue_if_ready i s)"
proof -
  have wf: "hm_wf (mailboxes (requeue_if_ready i s))"
    using assms by (auto simp: sched_inv_def requeue_if_ready_def cleanup_empty_def)
  have empty: "hm_get (mailboxes (requeue_if_ready i s)) j \<noteq> Some []" for j
    using assms by (auto simp: sched_inv_def requeue_if_ready_def cleanup_empty_def has_pending_def
        split: option.splits if_splits)
  show ?thesis
    using assms wf empty by (auto simp: sched_inv_def ready_queue_requeue)
qed

text \<open>Under the invariant \<^verbatim>\<open>next_ready\<close> takes the head of the queue at once.\<close>

lemma next_ready_Nil: "ready_queue s = [] \<Longrightarrow> next_ready s = (None, s)"
  by (simp add: next_ready_def)

lemma next_ready_Cons:
  assumes "sched_inv None s" and "ready_queue s = i # r"
  shows "next_ready s = (Some i, s\<lparr>ready_queue := r\<rparr>)"
proof -
  from assms have "mailbox s i \<noteq> []" by (auto simp: sched_inv_def)
  with assms show ?thesis by (simp add: next_ready_def has_pending_iff)
qed

lemma sched_inv_next_ready [inv_intros]:
  assumes "sched_inv None s" and "next_ready s = (Some i, s')"
  shows "sched_inv (Some i) s'"
proof (cases "ready_queue s")
  case Nil
  with assms show ?thesis by (simp add: next_ready_Nil)
next
  case (Cons j r)
  with assms show ?thesis
    by (auto simp: next_ready_Cons sched_inv_def)
qed

lemma sched_turn_Nil: "ready_queue s = [] \<Longrightarrow> sched_turn s = (None, s)"
  by (simp add: sched_turn_def next_ready_Nil)

text \<open>A turn serves the head of the queue and sends it to the back if it has more.\<close>

lemma sched_turn_Cons:
  assumes inv: "sched_inv None s" and rq: "ready_queue s = i # r"
  obtains e q s' where "mailbox s i = e # q" "sched_turn s = (Some e, s')" "env_actor_id e = i"
    "mailbox s' = (mailbox s)(i := q)" "ready_queue s' = r @ (if q = [] then [] else [i])"
proof -
  from inv rq have "mailbox s i \<noteq> []" by (auto simp: sched_inv_def)
  then obtain e q where mb: "mailbox s i = e # q" by (cases "mailbox s i") auto
  define s2 where "s2 = snd (dequeue i (s\<lparr>ready_queue := r\<rparr>))"
  have d: "dequeue i (s\<lparr>ready_queue := r\<rparr>) = (Some e, s2)"
    using mb fst_dequeue[of i "s\<lparr>ready_queue := r\<rparr>"] by (simp add: s2_def prod_eq_iff)
  have m2: "mailbox s2 j = (if j = i then q else mailbox s j)" for j
    by (simp add: s2_def mb)
  show ?thesis
  proof (rule that[OF mb])
    show "sched_turn s = (Some e, requeue_if_ready i s2)"
      by (simp add: sched_turn_def next_ready_Cons[OF inv rq] d)
    show "env_actor_id e = i" using inv mb by (auto simp: sched_inv_def)
    show "mailbox (requeue_if_ready i s2) = (mailbox s)(i := q)"
      by (simp add: fun_eq_iff m2)
    show "ready_queue (requeue_if_ready i s2) = r @ (if q = [] then [] else [i])"
      by (simp add: ready_queue_requeue m2) (simp add: s2_def)
  qed
qed

lemma sched_inv_turn [inv_intros]: "sched_inv None s \<Longrightarrow> sched_inv None (snd (sched_turn s))"
proof (cases "next_ready s")
  case (Pair nxt s1)
  assume inv: "sched_inv None s"
  show ?thesis
  proof (cases nxt)
    case None
    with Pair inv show ?thesis
      by (cases "ready_queue s") (auto simp: sched_turn_def next_ready_Nil next_ready_Cons)
  next
    case (Some i)
    have i1: "sched_inv (Some i) s1" using inv Pair Some by (auto intro: inv_intros)
    obtain x s2 where d: "dequeue i s1 = (x, s2)" by (cases "dequeue i s1")
    have "x \<noteq> None"
      using inv Pair Some d fst_dequeue[of i s1]
      by (cases "ready_queue s") (auto simp: next_ready_Nil next_ready_Cons sched_inv_def split: list.splits)
    then show ?thesis
      using Pair Some d i1 sched_inv_dequeue[OF i1] by (auto simp: sched_turn_def intro: sched_inv_requeue)
  qed
qed

section \<open>The contract, over any sequence of operations\<close>

datatype 'd sched_op = Enq "'d envelope" | Turn | Rem actor_id

text \<open>Run a sequence of operations; the served envelopes come out in order.\<close>

fun run_ops ::
  "('d envelope \<Rightarrow> 's \<Rightarrow> 's) \<Rightarrow> ('s \<Rightarrow> 'd envelope option \<times> 's) \<Rightarrow> (actor_id \<Rightarrow> 's \<Rightarrow> 's) \<Rightarrow>
   'd sched_op list \<Rightarrow> 's \<Rightarrow> 'd envelope list \<times> 's" where
  "run_ops enq turn rem [] s = ([], s)"
| "run_ops enq turn rem (Enq e # ops) s = run_ops enq turn rem ops (enq e s)"
| "run_ops enq turn rem (Rem i # ops) s = run_ops enq turn rem ops (rem i s)"
| "run_ops enq turn rem (Turn # ops) s =
     (case turn s of
        (None, s') \<Rightarrow> run_ops enq turn rem ops s'
      | (Some e, s') \<Rightarrow> (case run_ops enq turn rem ops s' of (es, s'') \<Rightarrow> (e # es, s'')))"

definition sched_run :: "'d sched_op list \<Rightarrow> 'd scheduler \<Rightarrow> 'd envelope list \<times> 'd scheduler" where
  "sched_run = run_ops enqueue sched_turn sched_remove_actor"

primrec added :: "'d sched_op list \<Rightarrow> 'd envelope list" where
  "added [] = []"
| "added (x # ops) = (case x of Enq e \<Rightarrow> e # added ops | _ \<Rightarrow> added ops)"

definition turns :: "'d sched_op list \<Rightarrow> nat" where
  "turns ops = length (filter (\<lambda>x. x = Turn) ops)"

definition sent_to :: "actor_id \<Rightarrow> 'd envelope list \<Rightarrow> 'd envelope list" where
  "sent_to i es = filter (\<lambda>e. env_actor_id e = i) es"

lemma sent_to_simps [simp]:
  "sent_to i [] = []"
  "sent_to i (e # es) = (if env_actor_id e = i then e # sent_to i es else sent_to i es)"
  "sent_to i (es @ fs) = sent_to i es @ sent_to i fs"
  by (simp_all add: sent_to_def)

lemma turns_simps [simp]:
  "turns [] = 0" "turns (x # ops) = (if x = Turn then Suc (turns ops) else turns ops)"
  by (simp_all add: turns_def)

text \<open>
  What \<^verbatim>\<open>Worker::run\<close> relies on: a turn takes the oldest message of some actor's mailbox and
  touches no other mailbox, and finds one whenever there is one.
\<close>

locale mailbox_scheduler =
  fixes enq :: "'d envelope \<Rightarrow> 's \<Rightarrow> 's"
    and turn :: "'s \<Rightarrow> 'd envelope option \<times> 's"
    and rem :: "actor_id \<Rightarrow> 's \<Rightarrow> 's"
    and box :: "'s \<Rightarrow> actor_id \<Rightarrow> 'd envelope list"
    and invar :: "'s \<Rightarrow> bool"
  assumes box_enq: "invar s \<Longrightarrow>
      box (enq e s) = (box s)(env_actor_id e := box s (env_actor_id e) @ [e])"
    and box_rem: "invar s \<Longrightarrow> box (rem i s) = (box s)(i := [])"
    and turn_Some: "invar s \<Longrightarrow> turn s = (Some e, s') \<Longrightarrow>
      \<exists>q. box s (env_actor_id e) = e # q \<and> box s' = (box s)(env_actor_id e := q)"
    and turn_None: "invar s \<Longrightarrow> turn s = (None, s') \<Longrightarrow> box s' = box s \<and> (\<forall>i. box s i = [])"
    and invar_enq: "invar s \<Longrightarrow> invar (enq e s)"
    and invar_turn: "invar s \<Longrightarrow> invar (snd (turn s))"
    and invar_rem: "invar s \<Longrightarrow> invar (rem i s)"
begin

abbreviation run :: "'d sched_op list \<Rightarrow> 's \<Rightarrow> 'd envelope list \<times> 's" where
  "run \<equiv> run_ops enq turn rem"

lemma run_induct [case_names Nil Enq Rem Turn]:
  assumes "\<And>s. P [] s"
    and "\<And>e ops s. P ops (enq e s) \<Longrightarrow> P (Enq e # ops) s"
    and "\<And>i ops s. P ops (rem i s) \<Longrightarrow> P (Rem i # ops) s"
    and "\<And>ops s. P ops (snd (turn s)) \<Longrightarrow> P (Turn # ops) s"
  shows "P ops s"
proof (induction ops arbitrary: s)
  case (Cons x ops)
  with assms show ?case by (cases x) auto
qed (rule assms(1))

lemma invar_run_ops: "invar s \<Longrightarrow> invar (snd (run ops s))"
proof (induction ops s rule: run_induct)
  case (Turn ops s)
  then show ?case
    using invar_turn[of s] by (auto split: option.splits prod.splits)
qed (auto intro: invar_enq invar_rem)

text \<open>
  First in, first out, per actor: as long as the actor is not removed, what was served of its
  messages and what is left in its mailbox are what was there and what was added, in order.
\<close>

lemma served_in_order:
  assumes "invar s" and "Rem i \<notin> set ops"
  shows "sent_to i (fst (run ops s)) @ box (snd (run ops s)) i = box s i @ sent_to i (added ops)"
  using assms
proof (induction ops s rule: run_induct)
  case (Enq e ops s)
  then show ?case by (simp add: box_enq invar_enq)
next
  case (Rem j ops s)
  then show ?case by (simp add: box_rem invar_rem)
next
  case (Turn ops s)
  obtain r s' where t: "turn s = (r, s')" by (cases "turn s")
  have i': "invar s'" using invar_turn[OF Turn.prems(1)] t by simp
  show ?case
  proof (cases r)
    case None
    with Turn t i' turn_None[of s s'] show ?thesis by simp
  next
    case (Some e)
    then obtain q where "box s (env_actor_id e) = e # q" "box s' = (box s)(env_actor_id e := q)"
      using turn_Some[of s e s'] t Turn.prems(1) by auto
    with Turn t i' Some show ?thesis by (auto split: prod.splits)
  qed
qed simp

end

text \<open>
  Fairness: \<open>pos s i\<close> bounds how many turns pass before actor \<open>i\<close>, which has messages, is served.
\<close>

locale fair_scheduler = mailbox_scheduler enq turn rem box invar
  for enq :: "'d envelope \<Rightarrow> 's \<Rightarrow> 's"
    and turn :: "'s \<Rightarrow> 'd envelope option \<times> 's"
    and rem :: "actor_id \<Rightarrow> 's \<Rightarrow> 's"
    and box :: "'s \<Rightarrow> actor_id \<Rightarrow> 'd envelope list"
    and invar :: "'s \<Rightarrow> bool" +
  fixes pos :: "'s \<Rightarrow> actor_id \<Rightarrow> nat"
  assumes pos_enq: "invar s \<Longrightarrow> box s i \<noteq> [] \<Longrightarrow> pos (enq e s) i = pos s i"
    and pos_rem: "invar s \<Longrightarrow> box s i \<noteq> [] \<Longrightarrow> j \<noteq> i \<Longrightarrow> pos (rem j s) i \<le> pos s i"
    and pos_turn: "invar s \<Longrightarrow> box s i \<noteq> [] \<Longrightarrow> turn s = (Some e, s') \<Longrightarrow>
      env_actor_id e \<noteq> i \<Longrightarrow> Suc (pos s' i) = pos s i"
    and pos_head: "invar s \<Longrightarrow> turn s = (Some e, s') \<Longrightarrow> pos s (env_actor_id e) = 0"
    and pos_rem_mono: "invar s \<Longrightarrow> box s i \<noteq> [] \<Longrightarrow> box s j \<noteq> [] \<Longrightarrow> k \<noteq> i \<Longrightarrow> k \<noteq> j \<Longrightarrow>
      pos s i < pos s j \<Longrightarrow> pos (rem k s) i < pos (rem k s) j"
    and pos_new: "invar s \<Longrightarrow> box s i \<noteq> [] \<Longrightarrow> box s (env_actor_id e) = [] \<Longrightarrow>
      pos s i < pos (enq e s) (env_actor_id e)"
    and pos_served: "invar s \<Longrightarrow> turn s = (Some e, s') \<Longrightarrow> box s' (env_actor_id e) \<noteq> [] \<Longrightarrow>
      box s i \<noteq> [] \<Longrightarrow> i \<noteq> env_actor_id e \<Longrightarrow> pos s' i < pos s' (env_actor_id e)"
begin

text \<open>
  No starvation: whatever is added meanwhile and whoever else is removed, an actor with a
  message is served within \<open>pos s i + 1\<close> turns.
\<close>

lemma served_within:
  assumes "invar s" and "box s i \<noteq> []" and "Rem i \<notin> set ops"
    and "pos s i < turns ops"
  shows "\<exists>e \<in> set (fst (run ops s)). env_actor_id e = i"
  using assms
proof (induction ops s rule: run_induct)
  case (Enq e ops s)
  then show ?case by (simp add: box_enq invar_enq pos_enq)
next
  case (Rem j ops s)
  then have "pos (rem j s) i \<le> pos s i" by (intro pos_rem) auto
  with Rem show ?case by (simp add: box_rem invar_rem)
next
  case (Turn ops s)
  obtain r s' where t: "turn s = (r, s')" by (cases "turn s")
  have i': "invar s'" using invar_turn[OF Turn.prems(1)] t by simp
  show ?case
  proof (cases r)
    case None
    with Turn t turn_None[of s s'] show ?thesis by simp
  next
    case (Some e)
    show ?thesis
    proof (cases "env_actor_id e = i")
      case True
      with t Some show ?thesis by (auto split: prod.splits)
    next
      case False
      with turn_Some[of s e s'] t Some Turn.prems have "box s' i \<noteq> []" by auto
      moreover have "Suc (pos s' i) = pos s i" using pos_turn Turn.prems t Some False by blast
      ultimately show ?thesis using Turn t i' Some by (auto split: prod.splits)
    qed
  qed
qed simp

text \<open>
  Bounded overtaking: while \<open>i\<close> waits, another actor is served at most once, and not at all if
  it stands behind \<open>i\<close>.
\<close>

definition behind :: "'s \<Rightarrow> actor_id \<Rightarrow> actor_id \<Rightarrow> bool" where
  "behind s i j \<longleftrightarrow> box s j = [] \<or> pos s i < pos s j"

lemma behind_enq:
  assumes "invar s" and "box s i \<noteq> []" and "behind s i j"
  shows "behind (enq e s) i j"
proof (cases "box s j = []")
  case True
  show ?thesis
  proof (cases "env_actor_id e = j")
    case True
    with \<open>box s j = []\<close> pos_new[OF assms(1,2), of e] pos_enq[OF assms(1,2)] show ?thesis
      by (auto simp: behind_def)
  next
    case False
    with True assms(1) show ?thesis by (simp add: behind_def box_enq)
  qed
next
  case False
  with assms pos_enq[OF assms(1,2)] pos_enq[OF assms(1) False] show ?thesis
    by (simp add: behind_def)
qed

lemma behind_rem:
  assumes "invar s" and "box s i \<noteq> []" and "k \<noteq> i" and "behind s i j"
  shows "behind (rem k s) i j"
  using assms pos_rem_mono[of s i j k] by (auto simp: behind_def box_rem)

lemma behind_turn:
  assumes "invar s" and "box s i \<noteq> []" and "turn s = (Some e, s')" and "env_actor_id e \<noteq> i"
  shows "behind s' i (env_actor_id e)"
    and "behind s i j \<Longrightarrow> j \<noteq> i \<Longrightarrow> env_actor_id e \<noteq> j \<and> behind s' i j"
proof -
  obtain q where q: "box s (env_actor_id e) = e # q" "box s' = (box s)(env_actor_id e := q)"
    using turn_Some assms by blast
  show "behind s' i (env_actor_id e)"
    using assms pos_served[of s e s' i] by (auto simp: behind_def)
  assume b: "behind s i j" and ji: "j \<noteq> i"
  have i: "Suc (pos s' i) = pos s i" using pos_turn assms by blast
  have ne: "env_actor_id e \<noteq> j"
  proof
    assume ej: "env_actor_id e = j"
    with b q have "pos s i < pos s j" by (simp add: behind_def)
    with pos_head[OF assms(1,3)] ej show False by simp
  qed
  have "behind s' i j"
  proof (cases "box s j = []")
    case True
    with q ne show ?thesis by (simp add: behind_def)
  next
    case False
    with b i ne pos_turn[OF assms(1) False assms(3)] show ?thesis by (auto simp: behind_def)
  qed
  with ne show "env_actor_id e \<noteq> j \<and> behind s' i j" by simp
qed

lemma overtaken_at_most_once:
  assumes "invar s" and "box s i \<noteq> []" and "Rem i \<notin> set ops" and "j \<noteq> i"
    and "\<forall>e \<in> set (fst (run ops s)). env_actor_id e \<noteq> i"
  shows "length (sent_to j (fst (run ops s))) \<le> (if behind s i j then 0 else 1)"
  using assms
proof (induction ops s rule: run_induct)
  case (Enq e ops s)
  then have "box (enq e s) i \<noteq> []" by (simp add: box_enq)
  with Enq behind_enq[of s i j e] show ?case by (cases "behind s i j") (auto simp: invar_enq split: if_splits)
next
  case (Rem k ops s)
  then have "box (rem k s) i \<noteq> []" by (simp add: box_rem)
  with Rem behind_rem[of s i k j] show ?case by (cases "behind s i j") (auto simp: invar_rem split: if_splits)
next
  case (Turn ops s)
  obtain r s' where t: "turn s = (r, s')" by (cases "turn s")
  have i': "invar s'" using invar_turn[OF Turn.prems(1)] t by simp
  show ?case
  proof (cases r)
    case None
    with Turn t turn_None[of s s'] show ?thesis by simp
  next
    case (Some e)
    note te = t[unfolded Some]
    obtain es s'' where rs: "run ops s' = (es, s'')" by (cases "run ops s'")
    from Turn.prems(5) te rs have ne: "env_actor_id e \<noteq> i"
      and rest: "\<forall>e \<in> set (fst (run ops s')). env_actor_id e \<noteq> i" by auto
    have "box s' i \<noteq> []" using turn_Some[OF Turn.prems(1) te] ne Turn.prems(2) by auto
    then have ih: "length (sent_to j es) \<le> (if behind s' i j then 0 else 1)"
      using Turn.IH te i' Turn.prems(3,4) rest rs by simp
    show ?thesis
      using behind_turn[OF Turn.prems(1,2) te ne] Turn.prems(4) ih te rs
      by (cases "env_actor_id e = j") (auto split: if_splits)
  qed
qed simp

end

section \<open>The scheduler meets the contract\<close>

definition rq_pos :: "actor_id list \<Rightarrow> actor_id \<Rightarrow> nat" where
  "rq_pos q i = length (takeWhile (\<lambda>j. j \<noteq> i) q)"

lemma rq_pos_append: "i \<in> set q \<Longrightarrow> rq_pos (q @ r) i = rq_pos q i"
  unfolding rq_pos_def by (induction q) auto

lemma rq_pos_new: "i \<notin> set q \<Longrightarrow> rq_pos (q @ i # r) i = length q"
  unfolding rq_pos_def by (induction q) auto

lemma rq_pos_Cons: "rq_pos (j # q) i = (if j = i then 0 else Suc (rq_pos q i))"
  by (simp add: rq_pos_def)

lemma rq_pos_less: "i \<in> set q \<Longrightarrow> rq_pos q i < length q"
  by (induction q) (auto simp: rq_pos_Cons)

lemma rq_pos_filter: "j \<noteq> i \<Longrightarrow> rq_pos (filter (\<lambda>k. k \<noteq> j) q) i \<le> rq_pos q i"
  by (induction q) (auto simp: rq_pos_Cons)

lemma rq_pos_filter_mono:
  "k \<noteq> i \<Longrightarrow> k \<noteq> j \<Longrightarrow> i \<in> set q \<Longrightarrow> rq_pos q i < rq_pos q j \<Longrightarrow>
   rq_pos (filter (\<lambda>l. l \<noteq> k) q) i < rq_pos (filter (\<lambda>l. l \<noteq> k) q) j"
  by (induction q) (auto simp: rq_pos_Cons split: if_splits)

lemma sched_inv_ready_iff: "sched_inv None s \<Longrightarrow> i \<in> set (ready_queue s) \<longleftrightarrow> mailbox s i \<noteq> []"
  by (simp add: sched_inv_def)

lemma sched_turn_SomeE:
  assumes "sched_inv None s" and "sched_turn s = (Some e, s')"
  obtains r q where "ready_queue s = env_actor_id e # r" "mailbox s (env_actor_id e) = e # q"
    "mailbox s' = (mailbox s)(env_actor_id e := q)"
    "ready_queue s' = r @ (if q = [] then [] else [env_actor_id e])"
    "env_actor_id e \<notin> set r"
proof (cases "ready_queue s")
  case Nil
  with assms show ?thesis by (simp add: sched_turn_Nil)
next
  case (Cons i r)
  with assms have "i \<notin> set r" by (simp add: sched_inv_def)
  with sched_turn_Cons[OF assms(1) Cons] that assms(2) Cons show ?thesis by (metis Pair_inject option.inject)
qed

lemma sched_turn_NoneE:
  assumes "sched_inv None s" and "sched_turn s = (None, s')"
  shows "s' = s" and "mailbox s i = []"
proof -
  have rq: "ready_queue s = []"
    using assms by (cases "ready_queue s") (auto elim: sched_turn_Cons)
  with assms show "s' = s" by (simp add: sched_turn_Nil)
  from rq assms(1) show "mailbox s i = []" by (simp add: sched_inv_def)
qed

interpretation rr: fair_scheduler enqueue sched_turn sched_remove_actor mailbox "sched_inv None"
  "\<lambda>s. rq_pos (ready_queue s)"
proof (unfold_locales, goal_cases)
  case (3 s e s')
  then show ?case by (auto elim: sched_turn_SomeE)
next
  case (4 s s')
  then show ?case by (auto dest: sched_turn_NoneE)
next
  case (8 s i e)
  then show ?case by (simp add: ready_queue_enqueue rq_pos_append sched_inv_ready_iff)
next
  case (9 s i j)
  then show ?case by (simp add: rq_pos_filter)
next
  case (10 s i e s')
  then have "i \<in> set (ready_queue s)" by (simp add: sched_inv_ready_iff)
  with 10 show ?case
    by (elim sched_turn_SomeE) (auto simp: rq_pos_Cons rq_pos_append)
next
  case (11 s e s')
  then show ?case by (elim sched_turn_SomeE) (auto simp: rq_pos_Cons)
next
  case (12 s i j k)
  then show ?case by (simp add: rq_pos_filter_mono sched_inv_ready_iff)
next
  case (13 s i e)
  then have "i \<in> set (ready_queue s)" "env_actor_id e \<notin> set (ready_queue s)"
    by (simp_all add: sched_inv_ready_iff)
  then show ?case by (simp add: ready_queue_enqueue rq_pos_new rq_pos_less)
next
  case (14 s e s' i)
  then have "i \<in> set (ready_queue s)" by (simp add: sched_inv_ready_iff)
  with 14 show ?case
    by (elim sched_turn_SomeE) (auto simp: rq_pos_new rq_pos_append rq_pos_less split: if_splits)
qed (auto simp: fun_eq_iff intro: inv_intros)


section \<open>An abstract view: a ring of non-empty mailboxes\<close>

text \<open>
  The scheduler's promise without its two data structures: a ring of actors, each with its
  pending messages. A message joins its actor's entry or opens a new entry at the end; a turn
  takes the first entry's oldest message and moves what is left to the end.
\<close>

type_synonym 'd ring = "(actor_id \<times> 'd envelope list) list"

fun ring_add :: "'d envelope \<Rightarrow> 'd ring \<Rightarrow> 'd ring" where
  "ring_add e [] = [(env_actor_id e, [e])]"
| "ring_add e ((i, q) # r) =
     (if i = env_actor_id e then (i, q @ [e]) # r else (i, q) # ring_add e r)"

fun ring_turn :: "'d ring \<Rightarrow> 'd envelope option \<times> 'd ring" where
  "ring_turn ((i, e # q) # r) = (Some e, if q = [] then r else r @ [(i, q)])"
| "ring_turn r = (None, r)"

definition ring_drop :: "actor_id \<Rightarrow> 'd ring \<Rightarrow> 'd ring" where
  "ring_drop i r = filter (\<lambda>p. fst p \<noteq> i) r"

definition ring_of :: "'d scheduler \<Rightarrow> 'd ring" where
  "ring_of s = map (\<lambda>i. (i, mailbox s i)) (ready_queue s)"

lemma ring_add_map:
  "distinct is \<Longrightarrow> ring_add e (map (\<lambda>i. (i, f i)) is) =
     map (\<lambda>i. (i, if i = env_actor_id e then f i @ [e] else f i)) is @
     (if env_actor_id e \<in> set is then [] else [(env_actor_id e, [e])])"
  by (induction "is") (auto intro: map_cong)

lemma ring_of_enqueue:
  assumes "sched_inv None s"
  shows "ring_of (enqueue e s) = ring_add e (ring_of s)"
proof -
  have "distinct (ready_queue s)" using assms by (simp add: sched_inv_def)
  moreover have "env_actor_id e \<notin> set (ready_queue s) \<Longrightarrow> mailbox s (env_actor_id e) = []"
    using assms by (simp add: sched_inv_def)
  ultimately show ?thesis
    by (simp add: ring_of_def ready_queue_enqueue ring_add_map)
qed

lemma ring_of_turn:
  assumes inv: "sched_inv None s"
  shows "ring_turn (ring_of s) = (fst (sched_turn s), ring_of (snd (sched_turn s)))"
proof (cases "ready_queue s")
  case Nil
  then show ?thesis by (simp add: ring_of_def sched_turn_Nil)
next
  case (Cons i r)
  obtain e q s' where t: "mailbox s i = e # q" "sched_turn s = (Some e, s')"
      "mailbox s' = (mailbox s)(i := q)" "ready_queue s' = r @ (if q = [] then [] else [i])"
    using sched_turn_Cons[OF inv Cons] by metis
  have "i \<notin> set r" using inv Cons by (simp add: sched_inv_def)
  then have "map (\<lambda>j. (j, mailbox s' j)) r = map (\<lambda>j. (j, mailbox s j)) r"
    by (intro map_cong) (auto simp: t(3))
  moreover have "mailbox s' i = q" by (simp add: t(3))
  ultimately show ?thesis by (simp add: ring_of_def Cons t(1,2,4))
qed

lemma ring_of_remove: "ring_of (sched_remove_actor i s) = ring_drop i (ring_of s)"
  by (auto simp: ring_of_def ring_drop_def filter_map comp_def intro!: map_cong filter_cong)

definition pending_count :: "'d scheduler \<Rightarrow> nat" where
  "pending_count s = sum_list (map (\<lambda>i. length (mailbox s i)) (ready_queue s))"

lemma pending_count_turn:
  assumes inv: "sched_inv None s"
  shows "pending_count (snd (sched_turn s)) = pending_count s - 1"
    and "fst (sched_turn s) = None \<longleftrightarrow> pending_count s = 0"
proof -
  have "pending_count (snd (sched_turn s)) = pending_count s - 1 \<and>
    (fst (sched_turn s) = None \<longleftrightarrow> pending_count s = 0)"
  proof (cases "ready_queue s")
    case Nil
    then show ?thesis by (simp add: pending_count_def sched_turn_Nil)
  next
    case (Cons i r)
    obtain e q s' where t: "mailbox s i = e # q" "sched_turn s = (Some e, s')"
        "mailbox s' = (mailbox s)(i := q)" "ready_queue s' = r @ (if q = [] then [] else [i])"
      using sched_turn_Cons[OF inv Cons] by metis
    have "i \<notin> set r" using inv Cons by (simp add: sched_inv_def)
    then have "(\<Sum>j\<leftarrow>r. length (mailbox s' j)) = (\<Sum>j\<leftarrow>r. length (mailbox s j))"
      by (intro arg_cong[where f = sum_list] map_cong) (auto simp: t(3))
    moreover have "mailbox s' i = q" by (simp add: t(3))
    ultimately show ?thesis by (simp add: pending_count_def Cons t(1,2,4))
  qed
  then show "pending_count (snd (sched_turn s)) = pending_count s - 1"
    and "fst (sched_turn s) = None \<longleftrightarrow> pending_count s = 0" by simp_all
qed

lemma sched_run_turns:
  "sched_inv None s \<Longrightarrow> n = pending_count s \<Longrightarrow>
   length (fst (sched_run (replicate n Turn) s)) = n \<and> ready_queue (snd (sched_run (replicate n Turn) s)) = []"
proof (induction n arbitrary: s)
  case 0
  then have "fst (sched_turn s) = None" using pending_count_turn(2) by auto
  then have "ready_queue s = []"
    using sched_turn_Cons[OF 0(1)] by (cases "ready_queue s") (auto simp: prod_eq_iff)
  then show ?case by (simp add: sched_run_def)
next
  case (Suc n)
  obtain r s' where t: "sched_turn s = (r, s')" by (cases "sched_turn s")
  have "r \<noteq> None" "pending_count s' = n" "sched_inv None s'"
    using pending_count_turn[OF Suc.prems(1)] sched_inv_turn[OF Suc.prems(1)] Suc.prems(2) t by auto
  with Suc.IH[of s'] t show ?case by (auto simp: sched_run_def split: prod.splits)
qed

section \<open>Properties\<close>

text \<open>A scheduler with messages for two actors, at which the properties are instantiated.\<close>

definition demo_sched :: "nat scheduler" where
  "demo_sched =
     enqueue \<lparr>env_actor_id = ActorId 2, env_dispatch = 30\<rparr>
      (enqueue \<lparr>env_actor_id = ActorId 1, env_dispatch = 20\<rparr>
        (enqueue \<lparr>env_actor_id = ActorId 1, env_dispatch = 10\<rparr> sched_new))"

lemma demo_sched_inv: "sched_inv None demo_sched"
  unfolding demo_sched_def by (intro inv_intros)

lemma demo_sched_eval:
  "demo_sched = \<lparr>mailboxes =
     [(ActorId 1, [\<lparr>env_actor_id = ActorId 1, env_dispatch = 10\<rparr>, \<lparr>env_actor_id = ActorId 1, env_dispatch = 20\<rparr>]),
      (ActorId 2, [\<lparr>env_actor_id = ActorId 2, env_dispatch = 30\<rparr>])],
     ready_queue = [ActorId 1, ActorId 2]\<rparr>"
  by (simp add: demo_sched_def sched_defs sched_new_def mailbox_def hm_defs)

text \<open>
  Whatever sequence of enqueues, turns and removals a worker makes, the ready queue holds
  exactly the actors with a non-empty mailbox, each once, every envelope lies in the mailbox of
  the actor it is addressed to, and no empty mailbox is kept.
\<close>

theorem sched_run_invariant: "sched_inv None (snd (sched_run ops sched_new))"
  unfolding sched_run_def by (rule rr.invar_run_ops) (rule sched_inv_new)

text \<open>
  C19: the scheduler refines the ring of non-empty mailboxes: \<^verbatim>\<open>enqueue\<close>, a turn (next_ready,
  dequeue, requeue_if_ready) and \<^verbatim>\<open>remove_actor\<close> act on the two data structures as the ring
  operations act on the ring.
\<close>

theorem sched_refines_ring:
  assumes "sched_inv None s"
  shows "ring_of (enqueue e s) = ring_add e (ring_of s)
    \<and> ring_turn (ring_of s) = (fst (sched_turn s), ring_of (snd (sched_turn s)))
    \<and> ring_of (sched_remove_actor i s) = ring_drop i (ring_of s)"
  using assms by (simp add: ring_of_enqueue ring_of_turn ring_of_remove)

theorem sched_refines_ring_witness:
  "ring_turn (ring_of demo_sched) = (fst (sched_turn demo_sched), ring_of (snd (sched_turn demo_sched)))
   \<and> map fst (ring_of demo_sched) = [ActorId 1, ActorId 2]"
  using sched_refines_ring[OF demo_sched_inv] by (simp add: ring_of_def) (simp add: demo_sched_eval)

text \<open>
  C5: no actor is starved: an actor with a pending message that stands at position \<open>p\<close> of the
  ready queue is served within the next \<open>p + 1\<close> turns, whatever arrives for whomever in
  between and whichever other actors are removed.
\<close>

theorem sched_no_starvation:
  assumes "sched_inv None s" and "mailbox s i \<noteq> []" and "Rem i \<notin> set ops"
    and "rq_pos (ready_queue s) i < turns ops"
  shows "sent_to i (fst (sched_run ops s)) \<noteq> []"
  using rr.served_within[OF assms] by (auto simp: sched_run_def sent_to_def filter_empty_conv)

theorem sched_no_starvation_witness:
  "sent_to (ActorId 2) (fst (sched_run
     [Enq \<lparr>env_actor_id = ActorId 1, env_dispatch = 40\<rparr>, Turn, Rem (ActorId 1), Turn] demo_sched)) \<noteq> []"
  by (rule sched_no_starvation[OF demo_sched_inv])
    (simp_all add: demo_sched_eval mailbox_def hm_defs rq_pos_def)

text \<open>
  C9: no message is lost, duplicated or reordered: as long as the actor is not removed, the
  messages served to it followed by what is left in its mailbox are its old mailbox followed by
  the messages enqueued for it, in that order.
\<close>

theorem sched_per_actor_fifo:
  assumes "sched_inv None s" and "Rem i \<notin> set ops"
  shows "sent_to i (fst (sched_run ops s)) @ mailbox (snd (sched_run ops s)) i
       = mailbox s i @ sent_to i (added ops)"
  unfolding sched_run_def by (rule rr.served_in_order[OF assms])

theorem sched_per_actor_fifo_witness:
  "sent_to (ActorId 1) (fst (sched_run [Turn, Turn, Turn, Turn] demo_sched))
     @ mailbox (snd (sched_run [Turn, Turn, Turn, Turn] demo_sched)) (ActorId 1)
   = mailbox demo_sched (ActorId 1) @ sent_to (ActorId 1) (added [Turn, Turn, Turn, Turn :: nat sched_op])"
  by (rule sched_per_actor_fifo[OF demo_sched_inv]) simp

text \<open>
  Turns alternate: while an actor with a pending message waits, any other actor is served
  at most once.
\<close>

theorem sched_bounded_overtaking:
  assumes "sched_inv None s" and "mailbox s i \<noteq> []" and "Rem i \<notin> set ops" and "j \<noteq> i"
    and "sent_to i (fst (sched_run ops s)) = []"
  shows "length (sent_to j (fst (sched_run ops s))) \<le> 1"
  using rr.overtaken_at_most_once[OF assms(1-4)] assms(5)
  by (auto simp: sched_run_def sent_to_def filter_empty_conv split: if_splits)

theorem sched_bounded_overtaking_witness:
  "length (sent_to (ActorId 1) (fst (sched_run [Turn] demo_sched))) \<le> 1"
  by (rule sched_bounded_overtaking[OF demo_sched_inv, where i = "ActorId 2"])
    (simp_all add: demo_sched_eval sched_run_def sched_turn_def sched_defs has_pending_def
      mailbox_def hm_defs)

text \<open>
  The loop that takes turns until none is ready ends after exactly as many turns as
  messages are pending, each of which serves one, and leaves nothing ready.
\<close>

theorem sched_drains:
  assumes "sched_inv None s"
  shows "length (fst (sched_run (replicate (pending_count s) Turn) s)) = pending_count s
    \<and> next_ready (snd (sched_run (replicate (pending_count s) Turn) s))
      = (None, snd (sched_run (replicate (pending_count s) Turn) s))"
  using sched_run_turns[OF assms refl] by (simp add: next_ready_Nil)

theorem sched_drains_witness:
  "length (fst (sched_run (replicate 3 Turn) demo_sched)) = 3"
proof -
  have "pending_count demo_sched = 3"
    by (simp add: pending_count_def demo_sched_eval mailbox_def hm_defs)
  with sched_drains[OF demo_sched_inv] show ?thesis by simp
qed

end
