(* ===== verification/Stateful.thy ===== *)
theory Stateful
  imports Context
begin

text \<open>
  \<^verbatim>\<open>StateHandler\<close> and \<^verbatim>\<open>StateMachine\<close> of \<^verbatim>\<open>src/stateful.rs\<close>: an actor wrapped so that each
  message is handled in the next state of a fixed cycle. \<open>sm_handle\<close> is the wrapper's handler
  as a state transformer; \<open>sm_class\<close> is the same handler as an actor class, so that a machine
  can be spawned into a system, and \<open>embed_exec\<close> relates the two.
\<close>

section \<open>The trait and the wrapper\<close>

record ('s, 'v, 'e) state_handler =
  initial_state :: 's
  state_sequence :: "'s list"
  handle_in_state :: "'v \<Rightarrow> nat \<Rightarrow> 's \<Rightarrow> 'v \<Rightarrow> ('v, 'e) prog"
  inner_started :: "'v \<Rightarrow> ('v, 'e) prog"
  inner_stopped :: "'v \<Rightarrow> ('v, 'e) prog"

text \<open>
  \<^verbatim>\<open>current\<close> is below the length of a vector, so neither it nor \<^verbatim>\<open>current + 1\<close> can overflow
  a \<^verbatim>\<open>usize\<close>: it is a \<open>nat\<close>.
\<close>

record ('s, 'v) state_machine =
  inner :: 'v
  current :: nat
  states :: "'s list"

definition sm_new :: "('s, 'v, 'e) state_handler \<Rightarrow> 'v \<Rightarrow> fault + ('s, 'v) state_machine" where
  "sm_new H v =
     (let sts = state_sequence H in
      if sts = [] then Inl (Panicking (PStr ''state sequence must not be empty''))
      else Inr \<lparr>inner = v, current = 0, states = sts\<rparr>)"

definition sm_current_index :: "('s, 'v) state_machine \<Rightarrow> nat" where
  "sm_current_index sm = current sm"

text \<open>Indexing a vector out of its bounds panics.\<close>

definition out_of_bounds :: fault where
  "out_of_bounds = Panicking (PString ''index out of bounds'')"

definition sm_current_state :: "('s, 'v) state_machine \<Rightarrow> fault + 's" where
  "sm_current_state sm =
     (if current sm < length (states sm) then Inr (states sm ! current sm) else Inl out_of_bounds)"

definition sm_inner :: "('s, 'v) state_machine \<Rightarrow> 'v" where
  "sm_inner sm = inner sm"

text \<open>What a caller does through the reference \<^verbatim>\<open>inner_mut\<close> returns is the function \<open>f\<close>.\<close>

definition sm_inner_mut :: "('v \<Rightarrow> 'v) \<Rightarrow> ('s, 'v) state_machine \<Rightarrow> ('s, 'v) state_machine" where
  "sm_inner_mut f sm = sm\<lparr>inner := f (inner sm)\<rparr>"

definition sm_into_inner :: "('s, 'v) state_machine \<Rightarrow> 'v" where
  "sm_into_inner sm = inner sm"

type_synonym ('s, 'v, 'e) sm_result =
  "(fault + 'v) \<times> ('s, 'v) state_machine \<times> actor_context \<times> ('v, 'e) world"

definition sm_started ::
  "('s, 'v, 'e) state_handler \<Rightarrow> ('s, 'v) state_machine \<Rightarrow> actor_context \<Rightarrow> ('v, 'e) world \<Rightarrow>
   ('s, 'v, 'e) sm_result" where
  "sm_started H sm ctx w =
     (case exec (inner_started H (inner sm)) (inner sm) ctx w of
        (res, v, ctx', w') \<Rightarrow> (res, sm\<lparr>inner := v\<rparr>, ctx', w'))"

definition sm_stopped ::
  "('s, 'v, 'e) state_handler \<Rightarrow> ('s, 'v) state_machine \<Rightarrow> actor_context \<Rightarrow> ('v, 'e) world \<Rightarrow>
   ('s, 'v, 'e) sm_result" where
  "sm_stopped H sm ctx w =
     (case exec (inner_stopped H (inner sm)) (inner sm) ctx w of
        (res, v, ctx', w') \<Rightarrow> (res, sm\<lparr>inner := v\<rparr>, ctx', w'))"

definition sm_handle ::
  "('s, 'v, 'e) state_handler \<Rightarrow> 'v \<Rightarrow> ('s, 'v) state_machine \<Rightarrow> actor_context \<Rightarrow> ('v, 'e) world \<Rightarrow>
   ('s, 'v, 'e) sm_result" where
  "sm_handle H msg sm ctx w =
     (let idx = current sm in
      case sm_current_state sm of
        Inl f \<Rightarrow> (Inl f, sm, ctx, w)
      | Inr st \<Rightarrow>
          (case exec (handle_in_state H (inner sm) idx st msg) (inner sm) ctx w of
             (Inl f, v, ctx', w') \<Rightarrow> (Inl f, sm\<lparr>inner := v\<rparr>, ctx', w')
           | (Inr r, v, ctx', w') \<Rightarrow>
               (Inr r, sm\<lparr>inner := v, current := (current sm + 1) mod length (states sm)\<rparr>, ctx', w')))"

section \<open>A machine as an actor\<close>

text \<open>
  \<open>embed pk fin p v\<close> is the callback \<open>p\<close> of an inner value \<open>v\<close> run inside a larger value:
  \<open>pk\<close> puts the inner value into the larger one, \<open>fin\<close> is what the larger value becomes when
  the callback returns.
\<close>

primrec embed :: "('v \<Rightarrow> 'v) \<Rightarrow> ('v \<Rightarrow> 'v) \<Rightarrow> ('v, 'e) prog \<Rightarrow> 'v \<Rightarrow> ('v, 'e) prog" where
  "embed pk fin (Return r) = (\<lambda>v. SetSelf (fin v) (Return r))"
| "embed pk fin (Panic p) = (\<lambda>v. Panic p)"
| "embed pk fin (SetSelf v' k) = (\<lambda>v. SetSelf (pk v') (embed pk fin k v'))"
| "embed pk fin (CtxId k) = (\<lambda>v. CtxId (\<lambda>i. embed pk fin (k i) v))"
| "embed pk fin (CtxStop k) = (\<lambda>v. CtxStop (embed pk fin k v))"
| "embed pk fin (DoSend a m k) = (\<lambda>v. DoSend a m (\<lambda>r. embed pk fin (k r) v))"
| "embed pk fin (Notify a m k) = (\<lambda>v. Notify a m (embed pk fin k v))"
| "embed pk fin (SendWait a m k) = (\<lambda>v. SendWait a m (\<lambda>r. embed pk fin (k r) v))"
| "embed pk fin (CloneAddr a k) = (\<lambda>v. CloneAddr a (\<lambda>a'. embed pk fin (k a') v))"
| "embed pk fin (DropAddr a k) = (\<lambda>v. DropAddr a (embed pk fin k v))"
| "embed pk fin (SpawnChild a c st k) = (\<lambda>v. SpawnChild a c st (\<lambda>adr. embed pk fin (k adr) v))"
| "embed pk fin (Shared f k) = (\<lambda>v. Shared f (\<lambda>e. embed pk fin (k e) v))"

lemma embed_eval [code]:
  "embed pk fin (Return r) v = SetSelf (fin v) (Return r)"
  "embed pk fin (Panic p) v = Panic p"
  "embed pk fin (SetSelf v' k) v = SetSelf (pk v') (embed pk fin k v')"
  "embed pk fin (CtxId ki) v = CtxId (\<lambda>i. embed pk fin (ki i) v)"
  "embed pk fin (CtxStop k) v = CtxStop (embed pk fin k v)"
  "embed pk fin (DoSend a m kr) v = DoSend a m (\<lambda>r. embed pk fin (kr r) v)"
  "embed pk fin (Notify a m k) v = Notify a m (embed pk fin k v)"
  "embed pk fin (SendWait a m kv) v = SendWait a m (\<lambda>r. embed pk fin (kv r) v)"
  "embed pk fin (CloneAddr a ka) v = CloneAddr a (\<lambda>a'. embed pk fin (ka a') v)"
  "embed pk fin (DropAddr a k) v = DropAddr a (embed pk fin k v)"
  "embed pk fin (SpawnChild t c st ka) v = SpawnChild t c st (\<lambda>adr. embed pk fin (ka adr) v)"
  "embed pk fin (Shared f ke) v = Shared f (\<lambda>e. embed pk fin (ke e) v)"
  by simp_all

lemma embed_exec:
  "exec (embed pk fin p v) (pk v) ctx w =
     (case exec p v ctx w of
        (Inr r, v', ctx', w') \<Rightarrow> (Inr r, fin v', ctx', w')
      | (Inl f, v', ctx', w') \<Rightarrow> (Inl f, pk v', ctx', w'))"
  by (induction p arbitrary: v ctx w) (simp_all split: prod.split sum.split)

text \<open>\<open>pack\<close> and \<open>unpack\<close> box a machine as a value of the program.\<close>

definition sm_class ::
  "(('s, 'v) state_machine \<Rightarrow> 'v) \<Rightarrow> ('v \<Rightarrow> ('s, 'v) state_machine option) \<Rightarrow>
   ('s, 'v, 'e) state_handler \<Rightarrow> ('v, 'e) actor_class" where
  "sm_class pack unpack H =
     \<lparr>cls_handle = (\<lambda>self msg. case unpack self of
          None \<Rightarrow> Panic POther
        | Some sm \<Rightarrow>
            (if current sm < length (states sm)
             then embed (\<lambda>v. pack (sm\<lparr>inner := v\<rparr>))
                    (\<lambda>v. pack (sm\<lparr>inner := v, current := (current sm + 1) mod length (states sm)\<rparr>))
                    (handle_in_state H (inner sm) (current sm) (states sm ! current sm) msg) (inner sm)
             else Panic (PString ''index out of bounds''))),
      cls_stopped = (\<lambda>self. case unpack self of
          None \<Rightarrow> Panic POther
        | Some sm \<Rightarrow>
            embed (\<lambda>v. pack (sm\<lparr>inner := v\<rparr>)) (\<lambda>v. pack (sm\<lparr>inner := v\<rparr>))
              (inner_stopped H (inner sm)) (inner sm))\<rparr>"

text \<open>The callback \<^verbatim>\<open>started\<close> of a machine that is being spawned.\<close>

definition sm_start_prog ::
  "(('s, 'v) state_machine \<Rightarrow> 'v) \<Rightarrow> ('s, 'v, 'e) state_handler \<Rightarrow> ('s, 'v) state_machine \<Rightarrow> ('v, 'e) prog" where
  "sm_start_prog pack H sm =
     embed (\<lambda>v. pack (sm\<lparr>inner := v\<rparr>)) (\<lambda>v. pack (sm\<lparr>inner := v\<rparr>))
       (inner_started H (inner sm)) (inner sm)"

section \<open>Sequences of messages\<close>

text \<open>Messages handled one after the other, each with a fresh context, until one faults.\<close>

fun sm_run ::
  "('s, 'v, 'e) state_handler \<Rightarrow> actor_context \<Rightarrow> 'v list \<Rightarrow> ('s, 'v) state_machine \<Rightarrow> ('v, 'e) world \<Rightarrow>
   (fault + 'v list) \<times> ('s, 'v) state_machine \<times> ('v, 'e) world" where
  "sm_run H ctx [] sm w = (Inr [], sm, w)"
| "sm_run H ctx (m # ms) sm w =
     (case sm_handle H m sm ctx w of
        (Inl f, sm', _, w') \<Rightarrow> (Inl f, sm', w')
      | (Inr r, sm', _, w') \<Rightarrow>
          (case sm_run H ctx ms sm' w' of
             (Inl f, sm'', w'') \<Rightarrow> (Inl f, sm'', w'')
           | (Inr rs, sm'', w'') \<Rightarrow> (Inr (r # rs), sm'', w'')))"

text \<open>
  The specification: message number \<open>k\<close> is handled by the inner actor in state \<open>k\<close> modulo the
  length of the sequence. It also returns how many messages have been handled.
\<close>

fun cycle_run ::
  "('s, 'v, 'e) state_handler \<Rightarrow> actor_context \<Rightarrow> nat \<Rightarrow> 'v list \<Rightarrow> 'v \<Rightarrow> ('v, 'e) world \<Rightarrow>
   (fault + 'v list) \<times> nat \<times> 'v \<times> ('v, 'e) world" where
  "cycle_run H ctx k [] v w = (Inr [], k, v, w)"
| "cycle_run H ctx k (m # ms) v w =
     (let n = k mod length (state_sequence H) in
      case exec (handle_in_state H v n (state_sequence H ! n) m) v ctx w of
        (Inl f, v', _, w') \<Rightarrow> (Inl f, k, v', w')
      | (Inr r, v', _, w') \<Rightarrow>
          (case cycle_run H ctx (Suc k) ms v' w' of
             (Inl f, k', v'', w'') \<Rightarrow> (Inl f, k', v'', w'')
           | (Inr rs, k', v'', w'') \<Rightarrow> (Inr (r # rs), k', v'', w'')))"

definition machine_at :: "('s, 'v, 'e) state_handler \<Rightarrow> nat \<Rightarrow> 'v \<Rightarrow> ('s, 'v) state_machine" where
  "machine_at H k v =
     \<lparr>inner = v, current = k mod length (state_sequence H), states = state_sequence H\<rparr>"

lemma sm_handle_at:
  assumes "state_sequence H \<noteq> []"
  shows "sm_handle H m (machine_at H k v) ctx w =
    (case exec (handle_in_state H v (k mod length (state_sequence H))
             (state_sequence H ! (k mod length (state_sequence H))) m) v ctx w of
       (Inl f, v', ctx', w') \<Rightarrow> (Inl f, machine_at H k v', ctx', w')
     | (Inr r, v', ctx', w') \<Rightarrow> (Inr r, machine_at H (Suc k) v', ctx', w'))"
  using assms
  by (auto simp: sm_handle_def machine_at_def sm_current_state_def Let_def mod_Suc_eq
      split: prod.splits sum.splits)

lemma sm_run_at:
  assumes "state_sequence H \<noteq> []"
  shows "sm_run H ctx ms (machine_at H k v) w =
    (case cycle_run H ctx k ms v w of (res, k', v', w') \<Rightarrow> (res, machine_at H k' v', w'))"
proof (induction ms arbitrary: k v w)
  case (Cons m ms)
  then show ?case
    by (simp add: sm_handle_at[OF assms] Let_def split: prod.splits sum.splits)
qed simp

lemma sm_new_at:
  "sm_new H v = (if state_sequence H = [] then Inl (Panicking (PStr ''state sequence must not be empty''))
     else Inr (machine_at H 0 v))"
  by (simp add: sm_new_def machine_at_def Let_def)

lemma sm_new_InrD: "sm_new H v = Inr sm \<Longrightarrow> state_sequence H \<noteq> [] \<and> sm = machine_at H 0 v"
  by (auto simp: sm_new_at split: if_splits)

lemma cycle_run_count:
  "cycle_run H ctx k ms v w = (Inr rs, k', v', w') \<Longrightarrow> k' = k + length ms \<and> length rs = length ms"
  by (induction ms arbitrary: k v w rs) (fastforce simp: Let_def split: prod.splits sum.splits)+

section \<open>Properties\<close>

text \<open>A handler with two states that counts its messages and panics on message 13.\<close>

datatype toy_val = Num nat | Boxed toy_val nat string

definition toy_handler :: "(char, toy_val, unit) state_handler" where
  "toy_handler =
     \<lparr>initial_state = CHR ''b'', state_sequence = ''ab'',
      handle_in_state = (\<lambda>v idx st m. if m = Num 13 then Panic POther
        else SetSelf (case v of Num n \<Rightarrow> Num (Suc n) | _ \<Rightarrow> v) (Return (Num (10 * idx + of_char st)))),
      inner_started = (\<lambda>v. Return v), inner_stopped = (\<lambda>v. Return v)\<rparr>"

definition toy_machine :: "nat \<Rightarrow> nat \<Rightarrow> (char, toy_val) state_machine" where
  "toy_machine n k = \<lparr>inner = Num n, current = k, states = ''ab''\<rparr>"

definition toy_pack :: "(char, toy_val) state_machine \<Rightarrow> toy_val" where
  "toy_pack sm = Boxed (inner sm) (current sm) (states sm)"

definition toy_unpack :: "toy_val \<Rightarrow> (char, toy_val) state_machine option" where
  "toy_unpack v = (case v of Boxed i k sts \<Rightarrow> Some \<lparr>inner = i, current = k, states = sts\<rparr> | _ \<Rightarrow> None)"

definition toy_world :: "(toy_val, unit) world" where
  "toy_world = \<lparr>chans = [], replies = [], confirms = [],
     shared = \<lparr>control_txs = [], msg_txs = [], actor_maps = [], next_id = 0, next_worker = 0,
       num_workers = 0, running = False\<rparr>, env = (), log = []\<rparr>"

lemma toy_new: "sm_new toy_handler (Num 0) = Inr (toy_machine 0 0)"
  by (simp add: sm_new_def toy_handler_def toy_machine_def)

lemma toy_handle:
  "sm_handle toy_handler (Num 13) (toy_machine n 1) ctx w = (Inl (Panicking POther), toy_machine n 1, ctx, w)"
  "sm_handle toy_handler (Num 5) (toy_machine n 0) ctx w = (Inr (Num 97), toy_machine (Suc n) 1, ctx, w)"
  by (simp_all add: sm_handle_def sm_current_state_def toy_handler_def toy_machine_def)

text \<open>
  C16: a state machine cycles: whatever its handler does, message number \<open>k\<close> (from 0) is handled
  in state \<open>k\<close> modulo the number of states, with that index, and after \<open>n\<close> messages the machine
  stands at \<open>n\<close> modulo the number of states. A panic ends the run where the specification says.
\<close>

theorem sm_run_cycles:
  assumes "sm_new H v = Inr sm"
  shows "sm_run H ctx ms sm w =
    (case cycle_run H ctx 0 ms v w of
       (res, k, v', w') \<Rightarrow>
         (res, \<lparr>inner = v', current = k mod length (state_sequence H), states = state_sequence H\<rparr>, w'))
    \<and> (\<forall>rs sm' w'. sm_run H ctx ms sm w = (Inr rs, sm', w') \<longrightarrow>
         length rs = length ms \<and> sm_current_index sm' = length ms mod length (state_sequence H))"
proof -
  note n = sm_new_InrD[OF assms]
  have r: "sm_run H ctx ms sm w =
      (case cycle_run H ctx 0 ms v w of (res, k', v', w') \<Rightarrow> (res, machine_at H k' v', w'))"
    using n sm_run_at[of H ctx ms 0 v w] by simp
  then show ?thesis
    by (auto simp: machine_at_def sm_current_index_def dest: cycle_run_count split: prod.splits)
qed

theorem sm_run_cycles_witness:
  "fst (sm_run toy_handler (context_new (ActorId 1)) [Num 1, Num 2, Num 3] (toy_machine 0 0) toy_world)
   = Inr [Num 97, Num 108, Num 97]"
proof -
  have "fst (cycle_run toy_handler (context_new (ActorId 1)) 0 [Num 1, Num 2, Num 3] (Num 0) toy_world)
      = Inr [Num 97, Num 108, Num 97]"
    by (simp add: toy_handler_def)
  with sm_run_cycles[OF toy_new, of "context_new (ActorId 1)" "[Num 1, Num 2, Num 3]" toy_world]
  show ?thesis by (auto split: prod.splits)
qed

text \<open>
  A message whose handler panics does not advance the machine: whatever was handled before,
  it still stands at the state in which the panic happened and its sequence is unchanged, so
  its current state can always be read.
\<close>

theorem sm_panic_keeps_state:
  assumes "sm_new H v = Inr sm" and "sm_run H ctx ms sm w = (Inr rs, sm1, w1)"
    and "sm_handle H m sm1 ctx w1 = (Inl f, sm2, ctx2, w2)"
  shows "sm_current_index sm2 = length ms mod length (state_sequence H)
    \<and> sm_current_state sm2 = Inr (state_sequence H ! (length ms mod length (state_sequence H)))
    \<and> sm_current_state sm2 = sm_current_state sm1"
proof -
  note n = sm_new_InrD[OF assms(1)]
  obtain v1 where "sm1 = machine_at H (length ms) v1"
    using assms(2) n sm_run_at[of H ctx ms 0 v w]
    by (auto dest: cycle_run_count split: prod.splits)
  with assms(3) n obtain v2 where "sm2 = machine_at H (length ms) v2"
    by (auto simp: sm_handle_at split: prod.splits sum.splits)
  with \<open>sm1 = machine_at H (length ms) v1\<close> n show ?thesis
    by (simp add: machine_at_def sm_current_index_def sm_current_state_def)
qed

theorem sm_panic_keeps_state_witness:
  "sm_current_state (toy_machine 1 1) = Inr (CHR ''b'')"
proof -
  let ?c = "context_new (ActorId 1)"
  have r: "sm_run toy_handler ?c [Num 5] (toy_machine 0 0) toy_world = (Inr [Num 97], toy_machine 1 1, toy_world)"
    by (simp add: toy_handle)
  have l: "state_sequence toy_handler = ''ab''" by (simp add: toy_handler_def)
  show ?thesis
    using sm_panic_keeps_state[OF toy_new r toy_handle(1)] by (simp only: l) simp
qed

text \<open>
  \<^verbatim>\<open>initial_state\<close> plays no part: a machine starts in the first state of its sequence,
  whatever \<^verbatim>\<open>initial_state\<close> says, and its whole behaviour is independent of it.
\<close>

theorem sm_ignores_initial_state:
  "sm_new (H\<lparr>initial_state := s\<rparr>) v = sm_new H v
   \<and> sm_handle (H\<lparr>initial_state := s\<rparr>) m sm ctx w = sm_handle H m sm ctx w
   \<and> (sm_new H v = Inr sm1 \<longrightarrow> sm_current_state sm1 = Inr (hd (state_sequence H)))"
  by (auto simp: sm_new_def sm_handle_def sm_current_state_def Let_def hd_conv_nth split: if_splits)

theorem sm_ignores_initial_state_witness:
  "sm_current_state (toy_machine 0 0) = Inr (CHR ''a'') \<and> initial_state toy_handler = CHR ''b''"
proof -
  have h: "hd (state_sequence toy_handler) = CHR ''a''" and i: "initial_state toy_handler = CHR ''b''"
    by (simp_all add: toy_handler_def)
  show ?thesis
    using sm_ignores_initial_state[where H = toy_handler and v = "Num 0"] toy_new h i by metis
qed




end
