(* ===== verification/Supervisor.thy ===== *)
theory Supervisor
  imports Context
begin

text \<open>
  \<^verbatim>\<open>Supervisor\<close> of \<^verbatim>\<open>src/supervisor.rs\<close>. A child factory is user code: a function of the
  context it is given (and the world behind it), here of a state \<open>'w\<close>, which returns the id of
  the child it spawned or panics. (The record leaves open what a factory is, for supervisors
  inside actors.) What the supervisor's guarantees need of the factories is
  the locale \<open>child_source\<close>; it is interpreted on the factories of the crate's tests, which
  call \<^verbatim>\<open>ctx.spawn\<close> and return the address's id.
\<close>

section \<open>The supervisor\<close>

datatype strategy = OneForOne | AllForOne

type_synonym 'w child_factory = "'w \<Rightarrow> (fault + actor_id) \<times> 'w"

record 'f supervisor =
  strategy :: strategy
  max_restarts :: usize
  child_factories :: "'f list"
  child_ids :: "actor_id list"
  restart_counts :: "(actor_id, usize) hashmap"

definition sup_new :: "strategy \<Rightarrow> usize \<Rightarrow> 'f supervisor" where
  "sup_new st mx =
     \<lparr>strategy = st, max_restarts = mx, child_factories = [], child_ids = [], restart_counts = hm_new\<rparr>"

definition register_child :: "'f \<Rightarrow> 'f supervisor \<Rightarrow> 'f supervisor" where
  "register_child f s = s\<lparr>child_factories := child_factories s @ [f]\<rparr>"

text \<open>The loop of \<^verbatim>\<open>start_all\<close>. A panic of a factory unwinds and leaves what was done before it.\<close>

fun start_loop ::
  "'w child_factory list \<Rightarrow> 'w child_factory supervisor \<Rightarrow> 'w \<Rightarrow> (fault + unit) \<times> 'w child_factory supervisor \<times> 'w" where
  "start_loop [] s w = (Inr (), s, w)"
| "start_loop (f # fs) s w =
     (case f w of
        (Inl e, w') \<Rightarrow> (Inl e, s, w')
      | (Inr i, w') \<Rightarrow>
          start_loop fs (s\<lparr>child_ids := child_ids s @ [i], restart_counts := hm_insert i 0 (restart_counts s)\<rparr>) w')"

definition start_all :: "'w child_factory supervisor \<Rightarrow> 'w \<Rightarrow> (fault + unit) \<times> 'w child_factory supervisor \<times> 'w" where
  "start_all s w = start_loop (child_factories s) s w"

definition children :: "'f supervisor \<Rightarrow> actor_id list" where
  "children s = child_ids s"

text \<open>\<^verbatim>\<open>iter().position(..)\<close>\<close>

fun position :: "'a \<Rightarrow> 'a list \<Rightarrow> nat option" where
  "position x [] = None"
| "position x (y # ys) = (if y = x then Some 0 else map_option Suc (position x ys))"

text \<open>
  \<^verbatim>\<open>count + 1\<close> is only reached with \<^verbatim>\<open>count < max_restarts\<close>, so it does not overflow
  (\<open>restart_count_no_overflow\<close> below).
\<close>

definition restart_one ::
  "actor_id \<Rightarrow> usize \<Rightarrow> 'w child_factory supervisor \<Rightarrow> 'w \<Rightarrow> (fault + actor_id list) \<times> 'w child_factory supervisor \<times> 'w" where
  "restart_one failed_id n s w =
     (case position failed_id (child_ids s) of
        None \<Rightarrow> (Inr [], s, w)
      | Some idx \<Rightarrow>
          (if idx < length (child_factories s) then
             (case (child_factories s ! idx) w of
                (Inl e, w') \<Rightarrow> (Inl e, s, w')
              | (Inr new_id, w') \<Rightarrow>
                  (Inr [new_id],
                   s\<lparr>child_ids := (child_ids s)[idx := new_id],
                     restart_counts := hm_insert new_id (n + 1) (hm_remove failed_id (restart_counts s))\<rparr>,
                   w'))
           else (Inl (Panicking (PString ''index out of bounds'')), s, w)))"

text \<open>The first loop of \<^verbatim>\<open>restart_all\<close>: the index, the remaining factories, the ids so far.\<close>

fun restart_loop ::
  "nat \<Rightarrow> 'w child_factory list \<Rightarrow> actor_id list \<Rightarrow> 'w child_factory supervisor \<Rightarrow> 'w \<Rightarrow>
   (fault + actor_id list) \<times> 'w child_factory supervisor \<times> 'w" where
  "restart_loop i [] new_ids s w = (Inr new_ids, s, w)"
| "restart_loop i (f # fs) new_ids s w =
     (case f w of
        (Inl e, w') \<Rightarrow> (Inl e, s, w')
      | (Inr new_id, w') \<Rightarrow>
          (let s1 = (if i < length (child_ids s) then s\<lparr>child_ids := (child_ids s)[i := new_id]\<rparr>
                     else s\<lparr>child_ids := child_ids s @ [new_id]\<rparr>)
           in restart_loop (Suc i) fs (new_ids @ [new_id])
                (s1\<lparr>restart_counts := hm_insert new_id 0 (restart_counts s1)\<rparr>) w'))"

definition restart_all ::
  "'w child_factory supervisor \<Rightarrow> 'w \<Rightarrow> (fault + actor_id list) \<times> 'w child_factory supervisor \<times> 'w" where
  "restart_all s w =
     (case restart_loop 0 (child_factories s) [] s w of
        (Inl e, s', w') \<Rightarrow> (Inl e, s', w')
      | (Inr new_ids, s', w') \<Rightarrow>
          (Inr new_ids, s'\<lparr>restart_counts := fold (\<lambda>i. hm_insert i 0) new_ids hm_new\<rparr>, w'))"

definition restart_count :: "actor_id \<Rightarrow> 'f supervisor \<Rightarrow> usize" where
  "restart_count i s = (case hm_get (restart_counts s) i of None \<Rightarrow> 0 | Some n \<Rightarrow> n)"

definition handle_failure ::
  "actor_id \<Rightarrow> 'w child_factory supervisor \<Rightarrow> 'w \<Rightarrow> (fault + actor_id list) \<times> 'w child_factory supervisor \<times> 'w" where
  "handle_failure failed_id s w =
     (let n = restart_count failed_id s in
      if n \<ge> max_restarts s then
        (Inr [],
         s\<lparr>child_ids := filter (\<lambda>i. i \<noteq> failed_id) (child_ids s),
           restart_counts := hm_remove failed_id (restart_counts s)\<rparr>,
         w)
      else
        (case strategy s of
           OneForOne \<Rightarrow> restart_one failed_id n s w
         | AllForOne \<Rightarrow> restart_all s w))"

lemma restart_count_no_overflow:
  assumes "\<not> n \<ge> max_restarts s"
  shows "unat (n + 1) = Suc (unat n)"
proof -
  have "unat n < unat (max_restarts s)" using assms by (simp add: word_le_nat_alt)
  moreover have "unat (max_restarts s) < 2 ^ LENGTH(64)" by (rule unsigned_less)
  ultimately have "Suc (unat n) < 2 ^ LENGTH(64)" by simp
  then show ?thesis by (rule unat_plus_one)
qed

section \<open>What the factories promise\<close>

text \<open>Calling factories in order, as a specification: the ids made and the final state.\<close>

primrec make_children :: "'w child_factory list \<Rightarrow> 'w \<Rightarrow> actor_id list \<times> 'w" where
  "make_children [] w = ([], w)"
| "make_children (f # fs) w =
     (case f w of
        (Inl _, w') \<Rightarrow> ([], w')
      | (Inr i, w') \<Rightarrow> (case make_children fs w' of (is, w'') \<Rightarrow> (i # is, w'')))"

text \<open>
  \<open>known w\<close> are the ids given out so far, \<open>room w\<close> how many are left. Each factory called
  while there is room spawns a child with a new id and does not panic.
\<close>

locale child_source =
  fixes known :: "'w \<Rightarrow> actor_id set"
    and room :: "'w \<Rightarrow> nat"
    and factory :: "'k \<Rightarrow> 'w child_factory"
  assumes child_made: "room w > 0 \<Longrightarrow> \<exists>i w'. factory k w = (Inr i, w') \<and> i \<notin> known w
    \<and> known w' = insert i (known w) \<and> room w' = room w - 1"
begin

lemma make_fresh:
  assumes "length ks \<le> room w"
  shows "length (fst (make_children (map factory ks) w)) = length ks" "distinct (fst (make_children (map factory ks) w))"
    "set (fst (make_children (map factory ks) w)) \<inter> known w = {}"
    "known (snd (make_children (map factory ks) w)) = known w \<union> set (fst (make_children (map factory ks) w))"
    "room (snd (make_children (map factory ks) w)) = room w - length ks"
proof -
  have "length (fst (make_children (map factory ks) w)) = length ks \<and> distinct (fst (make_children (map factory ks) w))
    \<and> set (fst (make_children (map factory ks) w)) \<inter> known w = {} \<and> known (snd (make_children (map factory ks) w)) = known w \<union> set (fst (make_children (map factory ks) w))
    \<and> room (snd (make_children (map factory ks) w)) = room w - length ks"
    using assms
  proof (induction ks arbitrary: w)
    case (Cons k ks)
    obtain i w' where k: "factory k w = (Inr i, w')" "i \<notin> known w" "known w' = insert i (known w)"
      "room w' = room w - 1" using child_made[of w k] Cons.prems by auto
    have le: "length ks \<le> room w'" using Cons.prems k(4) by simp
    with Cons.IH[OF le] k show ?case by (auto simp: case_prod_beta)
  qed simp
  then show "length (fst (make_children (map factory ks) w)) = length ks" "distinct (fst (make_children (map factory ks) w))"
    "set (fst (make_children (map factory ks) w)) \<inter> known w = {}" "known (snd (make_children (map factory ks) w)) = known w \<union> set (fst (make_children (map factory ks) w))"
    "room (snd (make_children (map factory ks) w)) = room w - length ks" by simp_all
qed

lemma make_Cons:
  "room w > 0 \<Longrightarrow> \<exists>i w'. factory k w = (Inr i, w') \<and> make_children (map factory (k # ks)) w = (i # fst (make_children (map factory ks) w'), snd (make_children (map factory ks) w'))
     \<and> room w' = room w - 1"
  using child_made[of w k] by (auto simp: case_prod_beta)

lemma start_loop_make:
  assumes "length ks \<le> room w"
  shows "start_loop (map factory ks) s w =
    (Inr (), s\<lparr>child_ids := child_ids s @ fst (make_children (map factory ks) w),
        restart_counts := fold (\<lambda>i. hm_insert i 0) (fst (make_children (map factory ks) w)) (restart_counts s)\<rparr>, snd (make_children (map factory ks) w))"
  using assms
proof (induction ks arbitrary: s w)
  case (Cons k ks)
  then have "room w > 0" by simp
  from make_Cons[OF this, of k ks] obtain i w' where "factory k w = (Inr i, w')"
    "make_children (map factory (k # ks)) w = (i # fst (make_children (map factory ks) w'), snd (make_children (map factory ks) w'))" "room w' = room w - 1" by blast
  with Cons.IH[of w'] Cons.prems show ?case by simp
qed simp

lemma restart_loop_make:
  assumes "length ks \<le> room w" and "i + length ks = length (child_ids s)"
  shows "\<exists>rc. restart_loop i (map factory ks) acc s w =
    (Inr (acc @ fst (make_children (map factory ks) w)),
     s\<lparr>child_ids := take i (child_ids s) @ fst (make_children (map factory ks) w), restart_counts := rc\<rparr>, snd (make_children (map factory ks) w))"
  using assms
proof (induction ks arbitrary: i acc s w)
  case Nil
  then show ?case by (intro exI[of _ "restart_counts s"]) simp
next
  case (Cons k ks)
  then have "room w > 0" by simp
  from make_Cons[OF this, of k ks] obtain j w' where j: "factory k w = (Inr j, w')"
    "make_children (map factory (k # ks)) w = (j # fst (make_children (map factory ks) w'), snd (make_children (map factory ks) w'))" "room w' = room w - 1" by blast
  have lt: "i < length (child_ids s)" using Cons.prems by simp
  have "take (Suc i) ((child_ids s)[i := j]) = take i (child_ids s) @ [j]"
    using lt by (simp add: take_Suc_conv_app_nth)
  with Cons.IH[of w' "Suc i" "s\<lparr>child_ids := (child_ids s)[i := j],
      restart_counts := hm_insert j 0 (restart_counts s)\<rparr>" "acc @ [j]"] Cons.prems j lt
  show ?case by (auto simp: Let_def)
qed

end

lemma hm_get_fold_zero:
  "hm_get (fold (\<lambda>i. hm_insert i (0 :: usize)) is m) j = (if j \<in> set is then Some 0 else hm_get m j)"
  by (induction "is" arbitrary: m) auto

lemma position_Some_nth:
  "position x xs = Some k \<Longrightarrow> k < length xs \<and> xs ! k = x"
  by (induction xs arbitrary: k) (auto split: if_splits)

lemma position_nth:
  "distinct xs \<Longrightarrow> k < length xs \<Longrightarrow> position (xs ! k) xs = Some k"
  by (induction xs arbitrary: k) (auto simp: nth_Cons split: nat.splits)

lemma position_None: "position x xs = None \<longleftrightarrow> x \<notin> set xs"
  by (induction xs) auto

section \<open>The factories of the crate's tests\<close>

text \<open>
  \<^verbatim>\<open>|ctx| { let addr = ctx.spawn(child); addr.id() }\<close> for a child of type \<open>a\<close> with value \<open>v\<close>
  and an empty \<^verbatim>\<open>started\<close>; the address is dropped.
\<close>

definition spawn_factory ::
  "type_id \<times> 'v \<Rightarrow> (actor_context \<times> ('v, 'e) world) child_factory" where
  "spawn_factory k cw =
     (case context_spawn (exec (Return (snd k))) (fst k) (snd k) (fst cw) (snd cw) of
        (Inl f, w') \<Rightarrow> (Inl f, (fst cw, w'))
      | (Inr adr, w') \<Rightarrow> (Inr (addr_id adr), (fst cw, addr_drop adr w')))"

definition known_ids :: "actor_context \<times> ('v, 'e) world \<Rightarrow> actor_id set" where
  "known_ids cw = {i. raw i < next_id (shared (snd cw))}"

text \<open>Ids left before the counter wraps; none for a context without a spawner.\<close>

definition ids_left :: "actor_context \<times> ('v, 'e) world \<Rightarrow> nat" where
  "ids_left cw =
     (if ctx_spawn_shared (fst cw) = None then 0 else 2 ^ 64 - 1 - unat (next_id (shared (snd cw))))"

lemma context_spawn_simple:
  assumes "ctx_spawn_shared ctx \<noteq> None"
  shows "context_spawn (exec (Return r)) a v ctx w =
    (let i = ActorId (next_id (shared w));
         d = spawn_actor_direct i (ctx_worker_idx ctx) \<lparr>any_type = a, any_val = v\<rparr> (OnStopFn a)
               (log_event (EvStarted i a) (snd (allocate_id w)))
     in (Inr (addr_new i (fst d) a), snd d))"
  using assms by (auto simp: context_spawn_def Let_def case_prod_beta)

lemma spawn_factory_eval:
  assumes "ctx_spawn_shared ctx \<noteq> None"
  shows "\<exists>w'. spawn_factory k (ctx, w) = (Inr (ActorId (next_id (shared w))), (ctx, w'))
    \<and> next_id (shared w') = next_id (shared w) + 1
    \<and> actor_maps (shared w') = (actor_maps (shared w))[ctx_worker_idx ctx :=
          hm_insert (ActorId (next_id (shared w)))
            \<lparr>actor = \<lparr>any_type = fst k, any_val = snd k\<rparr>, on_stop = OnStopFn (fst k)\<rparr>
            (actor_maps (shared w) ! ctx_worker_idx ctx)]
    \<and> log w' = log w @ [EvStarted (ActorId (next_id (shared w))) (fst k)]"
  unfolding spawn_factory_def fst_conv snd_conv context_spawn_simple[OF assms]
  by (simp add: Let_def)

lemma word_Suc_less:
  assumes "Suc (unat (n :: 'a::len word)) < 2 ^ LENGTH('a)"
  shows "i < n + 1 \<longleftrightarrow> i = n \<or> i < n"
proof -
  have "unat (n + 1) = Suc (unat n)" using assms by (rule unat_plus_one)
  then show ?thesis by (auto simp: word_less_nat_alt less_Suc_eq word_unat_eq_iff)
qed

interpretation spawn_source: child_source known_ids ids_left spawn_factory
proof (unfold_locales, goal_cases)
  case (1 cw k)
  obtain ctx w where cw: "cw = (ctx, w)" by (cases cw)
  with 1 have sp: "ctx_spawn_shared ctx \<noteq> None" and n: "Suc (unat (next_id (shared w))) < 2 ^ LENGTH(64)"
    by (auto simp: ids_left_def split: if_splits)
  obtain w' where w': "spawn_factory k (ctx, w) = (Inr (ActorId (next_id (shared w))), (ctx, w'))"
    "next_id (shared w') = next_id (shared w) + 1" using spawn_factory_eval[OF sp] by blast
  have "known_ids (ctx, w') = insert (ActorId (next_id (shared w))) (known_ids (ctx, w))"
  proof (rule set_eqI)
    show "i \<in> known_ids (ctx, w') \<longleftrightarrow> i \<in> insert (ActorId (next_id (shared w))) (known_ids (ctx, w))" for i
      using word_Suc_less[OF n] by (cases i) (simp add: known_ids_def w'(2))
  qed
  moreover have "ActorId (next_id (shared w)) \<notin> known_ids (ctx, w)" by (simp add: known_ids_def)
  moreover have "ids_left (ctx, w') = ids_left (ctx, w) - 1"
    using sp unat_plus_one[OF n] by (auto simp: ids_left_def w'(2))
  ultimately show ?case using cw w'(1) by auto
qed

section \<open>Repeated failures\<close>

text \<open>
  \<open>fail_chain n i\<close>: the child \<open>i\<close> fails, then the child that replaced it, and so on, \<open>n\<close> times
  or until it is not replaced; the number of restarts. \<open>run_failures\<close> handles any failures one
  after the other.
\<close>

fun fail_chain :: "nat \<Rightarrow> actor_id \<Rightarrow> 'w child_factory supervisor \<Rightarrow> 'w \<Rightarrow> nat \<times> 'w child_factory supervisor \<times> 'w" where
  "fail_chain 0 i s w = (0, s, w)"
| "fail_chain (Suc n) i s w =
     (case handle_failure i s w of
        (Inr (j # js), s', w') \<Rightarrow> (case fail_chain n j s' w' of (r, sw) \<Rightarrow> (Suc r, sw))
      | (_, s', w') \<Rightarrow> (0, s', w'))"

fun run_failures ::
  "actor_id list \<Rightarrow> 'w child_factory supervisor \<Rightarrow> 'w \<Rightarrow> (fault + actor_id list) list \<times> 'w child_factory supervisor \<times> 'w" where
  "run_failures [] s w = ([], s, w)"
| "run_failures (i # is) s w =
     (case handle_failure i s w of
        (r, s', w') \<Rightarrow> (case run_failures is s' w' of (rs, sw) \<Rightarrow> (r # rs, sw)))"

text \<open>Children and factories correspond by position.\<close>

definition sup_aligned :: "'w child_factory supervisor \<Rightarrow> bool" where
  "sup_aligned s \<longleftrightarrow> distinct (child_ids s) \<and> length (child_ids s) = length (child_factories s)"

lemma handle_failure_one:
  assumes "sup_aligned s" and "k < length (child_ids s)" and "strategy s = OneForOne"
    and "restart_count (child_ids s ! k) s < max_restarts s"
    and "(child_factories s ! k) w = (Inr i, w')"
  shows "handle_failure (child_ids s ! k) s w =
    (Inr [i], s\<lparr>child_ids := (child_ids s)[k := i],
       restart_counts := hm_insert i (restart_count (child_ids s ! k) s + 1)
         (hm_remove (child_ids s ! k) (restart_counts s))\<rparr>, w')"
proof -
  have "position (child_ids s ! k) (child_ids s) = Some k"
    using assms(1,2) by (intro position_nth) (simp_all add: sup_aligned_def)
  with assms show ?thesis
    by (simp add: handle_failure_def restart_one_def sup_aligned_def Let_def not_le)
qed

lemma handle_failure_limit:
  "restart_count i s \<ge> max_restarts s \<Longrightarrow> handle_failure i s w =
     (Inr [], s\<lparr>child_ids := filter (\<lambda>j. j \<noteq> i) (child_ids s), restart_counts := hm_remove i (restart_counts s)\<rparr>, w)"
  by (simp add: handle_failure_def Let_def)

context child_source
begin

lemma fail_chain_count:
  assumes "child_factories s = map factory ks" and "sup_aligned s" and "set (child_ids s) \<subseteq> known w"
    and "k < length ks" and "strategy s = OneForOne" and "n \<le> room w"
    and "restart_count (child_ids s ! k) s \<le> max_restarts s"
  shows "fst (fail_chain n (child_ids s ! k) s w) =
    min n (unat (max_restarts s) - unat (restart_count (child_ids s ! k) s))"
  using assms
proof (induction n arbitrary: s w)
  case (Suc n)
  let ?i = "child_ids s ! k" and ?c = "restart_count (child_ids s ! k) s"
  have k: "k < length (child_ids s)" using Suc.prems(1,2,4) by (simp add: sup_aligned_def)
  show ?case
  proof (cases "?c \<ge> max_restarts s")
    case True
    with Suc.prems(7) handle_failure_limit[OF True] show ?thesis by simp
  next
    case False
    then have lt: "?c < max_restarts s" by simp
    have "room w > 0" using Suc.prems(6) by simp
    from child_made[OF this, of "ks ! k"] obtain j w' where j: "(child_factories s ! k) w = (Inr j, w')"
      "j \<notin> known w" "known w' = insert j (known w)" "room w' = room w - 1"
      using Suc.prems(1,4) by auto
    define s' where "s' = s\<lparr>child_ids := (child_ids s)[k := j],
       restart_counts := hm_insert j (?c + 1) (hm_remove ?i (restart_counts s))\<rparr>"
    have h: "handle_failure ?i s w = (Inr [j], s', w')"
      unfolding s'_def using Suc.prems(2,5) k lt j(1) by (intro handle_failure_one)
    have c: "unat (?c + 1) = Suc (unat ?c)" by (rule restart_count_no_overflow[OF False])
    have "j \<notin> set (child_ids s)" using j(2) Suc.prems(3) by blast
    then have al: "sup_aligned s'"
      using Suc.prems(2) by (simp add: sup_aligned_def s'_def distinct_list_update)
    have sub: "set (child_ids s') \<subseteq> known w'"
      using Suc.prems(3) set_update_subset_insert[of "child_ids s" k j] by (auto simp: s'_def j(3))
    have jk: "child_ids s' ! k = j" and rc: "restart_count (child_ids s' ! k) s' = ?c + 1"
      using k by (simp_all add: s'_def restart_count_def)
    have le: "?c + 1 \<le> max_restarts s'"
      using lt c by (simp add: word_le_nat_alt word_less_nat_alt s'_def)
    have "fst (fail_chain n (child_ids s' ! k) s' w') = min n (unat (max_restarts s') - unat (?c + 1))"
      using Suc.IH[of s' w'] Suc.prems(1,4,5,6) al sub j(4) le rc by (simp add: s'_def)
    moreover have "unat ?c < unat (max_restarts s)" using lt by (simp add: word_less_nat_alt)
    ultimately show ?thesis using h c jk by (auto simp: case_prod_beta s'_def)
  qed
qed simp

lemma restart_all_make:
  assumes "child_factories s = map factory ks" and "length (child_ids s) = length ks" and "length ks \<le> room w"
  shows "restart_all s w =
    (Inr (fst (make_children (child_factories s) w)),
     s\<lparr>child_ids := fst (make_children (child_factories s) w),
       restart_counts := fold (\<lambda>i. hm_insert i 0) (fst (make_children (child_factories s) w)) hm_new\<rparr>,
     snd (make_children (child_factories s) w))"
  using restart_loop_make[of ks w 0 s "[]"] assms by (auto simp: restart_all_def)

lemma all_for_one_always_restarts:
  assumes "child_factories s = map factory ks" and "length (child_ids s) = length ks"
    and "strategy s = AllForOne" and "max_restarts s > 0" and "\<forall>i. restart_count i s = 0"
    and "length is * length ks \<le> room w"
  shows "\<forall>r \<in> set (fst (run_failures is s w)). \<exists>js. r = Inr js \<and> length js = length ks"
  using assms
proof (induction "is" arbitrary: s w)
  case (Cons i "is")
  let ?m = "make_children (child_factories s) w"
  have room: "length ks \<le> room w" using Cons.prems(6) by simp
  have "\<not> restart_count i s \<ge> max_restarts s" using Cons.prems(4,5) by simp
  then have h: "handle_failure i s w = restart_all s w"
    using Cons.prems(3) by (simp add: handle_failure_def Let_def)
  define s' where "s' = s\<lparr>child_ids := fst ?m, restart_counts := fold (\<lambda>i. hm_insert i 0) (fst ?m) hm_new\<rparr>"
  have r: "handle_failure i s w = (Inr (fst ?m), s', snd ?m)"
    using h restart_all_make[OF Cons.prems(1,2) room] by (simp add: s'_def)
  have len: "length (fst ?m) = length ks" and rm: "room (snd ?m) = room w - length ks"
    using make_fresh(1,5)[OF room] Cons.prems(1) by simp_all
  have "\<forall>i. restart_count i s' = 0"
    by (simp add: restart_count_def s'_def hm_get_fold_zero)
  moreover have "length is * length ks \<le> room (snd ?m)" using Cons.prems(6) rm by simp
  ultimately have "\<forall>r \<in> set (fst (run_failures is s' (snd ?m))). \<exists>js. r = Inr js \<and> length js = length ks"
    using Cons.IH[of s' "snd ?m"] Cons.prems(1,3,4) len by (simp add: s'_def)
  then show ?case using r len by (simp add: case_prod_beta)
qed simp

end

text \<open>What the factories of the tests do to the world: they only add actors.\<close>

definition only_spawns :: "('v, 'e) world \<Rightarrow> ('v, 'e) world \<Rightarrow> bool" where
  "only_spawns w w' \<longleftrightarrow>
     (\<forall>n i. n < length (actor_maps (shared w)) \<longrightarrow> hm_get (actor_maps (shared w) ! n) i \<noteq> None \<longrightarrow>
        hm_get (actor_maps (shared w') ! n) i \<noteq> None)
   \<and> length (actor_maps (shared w')) = length (actor_maps (shared w))
   \<and> (\<exists>evs. log w' = log w @ evs \<and> (\<forall>ev \<in> set evs. \<exists>i t. ev = EvStarted i t))"

lemma only_spawns_refl: "only_spawns w w"
  by (simp add: only_spawns_def)

lemma only_spawns_trans: "only_spawns w w' \<Longrightarrow> only_spawns w' w'' \<Longrightarrow> only_spawns w w''"
  by (fastforce simp: only_spawns_def)

lemma hm_get_list_update:
  "n < length ms \<Longrightarrow> hm_get (ms ! n) i \<noteq> None \<Longrightarrow> hm_get (ms[k := hm_insert j c (ms ! k)] ! n) i \<noteq> None"
  by (cases "k = n") auto

lemma spawn_factory_only_spawns:
  "spawn_factory k cw = (r, cw') \<Longrightarrow> only_spawns (snd cw) (snd cw')"
proof (cases "ctx_spawn_shared (fst cw) = None")
  case True
  then show "spawn_factory k cw = (r, cw') \<Longrightarrow> only_spawns (snd cw) (snd cw')"
    by (auto simp: spawn_factory_def context_spawn_def only_spawns_refl)
next
  case False
  from spawn_factory_eval[OF this, of k "snd cw"]
  show "spawn_factory k cw = (r, cw') \<Longrightarrow> only_spawns (snd cw) (snd cw')"
    using hm_get_list_update by (cases cw) (fastforce simp: only_spawns_def)
qed

lemma restart_loop_only_spawns:
  "restart_loop i (map spawn_factory ks) acc s cw = (r, s', cw') \<Longrightarrow> only_spawns (snd cw) (snd cw')"
proof (induction ks arbitrary: i acc s cw)
  case (Cons k ks)
  obtain r1 cw1 where k: "spawn_factory k cw = (r1, cw1)" by (cases "spawn_factory k cw")
  note o = spawn_factory_only_spawns[OF k]
  show ?case
  proof (cases r1)
    case (Inl f)
    with Cons.prems k o show ?thesis by simp
  next
    case (Inr j)
    with Cons.prems k obtain s1 where
      "restart_loop (Suc i) (map spawn_factory ks) (acc @ [j]) s1 cw1 = (r, s', cw')"
      by (auto simp: Let_def split: if_splits)
    from only_spawns_trans[OF o Cons.IH[OF this]] show ?thesis .
  qed
qed (simp add: only_spawns_refl)

lemma handle_failure_only_spawns:
  assumes "child_factories s = map spawn_factory ks" and "handle_failure i s cw = (r, s', cw')"
  shows "only_spawns (snd cw) (snd cw')"
proof -
  have one: "only_spawns (snd cw) (snd cw')" if "restart_one i n s cw = (r, s', cw')" for n
    using that assms(1)
    by (auto dest!: spawn_factory_only_spawns simp: restart_one_def only_spawns_refl split: option.splits if_splits prod.splits sum.splits)
  have all: "only_spawns (snd cw) (snd cw')" if "restart_all s cw = (r, s', cw')"
    using that assms(1)
    by (auto dest!: restart_loop_only_spawns simp: restart_all_def split: prod.splits sum.splits)
  show ?thesis
    using assms(2) one all
    by (auto simp: handle_failure_def Let_def only_spawns_refl split: if_splits strategy.splits)
qed

end
