(* ===== verification/Supervisor_Props.thy ===== *)
theory Supervisor_Props
  imports Supervisor
begin

text \<open>
  The properties of \<^verbatim>\<open>Supervisor\<close>: what the two strategies do for a failed child, how often a
  child is restarted, and where the code departs from its documentation. Properties that hold
  for all factories are stated for all; those that need factories which spawn fresh children
  are stated for the factories of the crate's tests.
\<close>

text \<open>A world of one worker, at which the properties are instantiated: no actor, ids from 1.\<close>

definition sup_world :: "actor_context \<times> (nat, unit) world" where
  "sup_world = (context_with_spawner (ActorId 100) 0,
     \<lparr>chans = [chan_new], replies = [], confirms = [],
      shared = \<lparr>control_txs = [chan_new], msg_txs = [0], actor_maps = [hm_new], next_id = 1,
        next_worker = 0, num_workers = 1, running = True\<rparr>, env = (), log = []\<rparr>)"

definition sup_demo :: "strategy \<Rightarrow> usize \<Rightarrow> (actor_context \<times> (nat, unit) world) child_factory supervisor" where
  "sup_demo st mx = register_child (spawn_factory (7, 70)) (register_child (spawn_factory (5, 50)) (sup_new st mx))"

lemma sup_demo_factories:
  "child_factories (sup_demo st mx) = map spawn_factory [(5, 50), (7, 70)]"
  "child_ids (sup_demo st mx) = []" "restart_counts (sup_demo st mx) = hm_new"
  "strategy (sup_demo st mx) = st" "max_restarts (sup_demo st mx) = mx"
  by (simp_all add: sup_demo_def register_child_def sup_new_def)

lemma ids_left_demo: "ids_left sup_world = 2 ^ 64 - 2"
  by (simp add: ids_left_def sup_world_def)

section \<open>Starting\<close>

text \<open>
  \<^verbatim>\<open>start_all\<close> on a new supervisor calls every factory once, in order of registration: the
  children are as many as the factories, all different, with ids nobody had before, and each
  starts with no restarts counted.
\<close>

theorem sup_start_all:
  assumes "child_factories s = map spawn_factory ks" and "child_ids s = []"
    and "length ks \<le> ids_left cw"
  shows "\<exists>s' cw'. start_all s cw = (Inr (), s', cw')
    \<and> (children s', cw') = make_children (child_factories s) cw
    \<and> length (children s') = length ks \<and> distinct (children s') \<and> set (children s') \<inter> known_ids cw = {}
    \<and> (\<forall>i \<in> set (children s'). restart_count i s' = 0)
    \<and> child_factories s' = child_factories s \<and> strategy s' = strategy s \<and> max_restarts s' = max_restarts s"
  using spawn_source.start_loop_make[OF assms(3), of s] spawn_source.make_fresh(1-3)[OF assms(3)] assms(1,2)
  by (auto simp: start_all_def children_def restart_count_def hm_get_fold_zero)

theorem sup_start_all_witness:
  "\<exists>s' cw'. start_all (sup_demo OneForOne 2) sup_world = (Inr (), s', cw')
     \<and> length (children s') = 2 \<and> distinct (children s')"
proof -
  have "length [(5 :: nat, 50 :: nat), (7, 70)] \<le> ids_left sup_world" by (simp add: ids_left_demo)
  from sup_start_all[OF sup_demo_factories(1,2) this] show ?thesis by fastforce
qed

section \<open>Restarting one child\<close>

text \<open>
  C17: with \<^verbatim>\<open>OneForOne\<close>, while its restart count is below the limit, a failed child is replaced
  by the result of calling its own factory once: the new id takes its place, its count is one
  higher (and does not overflow), the old id is forgotten, every sibling keeps its place and
  count, and nothing else happens to the world.
\<close>

theorem sup_one_for_one:
  assumes "sup_aligned s" and "strategy s = OneForOne" and "k < length (child_ids s)"
    and "restart_count (child_ids s ! k) s < max_restarts s"
    and "(child_factories s ! k) w = (Inr i, w')" and "i \<notin> set (child_ids s)"
  shows "\<exists>s'. handle_failure (child_ids s ! k) s w = (Inr [i], s', w')
    \<and> child_ids s' = (child_ids s)[k := i] \<and> sup_aligned s'
    \<and> unat (restart_count i s') = Suc (unat (restart_count (child_ids s ! k) s))
    \<and> hm_get (restart_counts s') (child_ids s ! k) = None
    \<and> (\<forall>j \<in> set (child_ids s) - {child_ids s ! k}. restart_count j s' = restart_count j s)"
proof -
  have ne: "i \<noteq> child_ids s ! k" using assms(3,6) nth_mem by blast
  have c: "unat (restart_count (child_ids s ! k) s + 1) = Suc (unat (restart_count (child_ids s ! k) s))"
    using assms(4) by (intro restart_count_no_overflow) (simp add: not_le)
  show ?thesis
    unfolding handle_failure_one[OF assms(1,3,2,4,5)]
    using assms(1,6) ne c by (auto simp: restart_count_def sup_aligned_def distinct_list_update)
qed

text \<open>A supervisor with two children, whose factories return fixed ids.\<close>

definition two_children :: "strategy \<Rightarrow> usize \<Rightarrow> unit child_factory supervisor" where
  "two_children st mx =
     \<lparr>strategy = st, max_restarts = mx,
      child_factories = [\<lambda>w. (Inr (ActorId 11), w), \<lambda>w. (Inr (ActorId 12), w)],
      child_ids = [ActorId 1, ActorId 2], restart_counts = [(ActorId 1, mx), (ActorId 2, 0)]\<rparr>"

lemma two_children_aligned: "sup_aligned (two_children st mx)"
  by (simp add: two_children_def sup_aligned_def)

theorem sup_one_for_one_witness:
  "\<exists>s'. handle_failure (ActorId 2) (two_children OneForOne 3) () = (Inr [ActorId 12], s', ())
     \<and> child_ids s' = [ActorId 1, ActorId 12]"
proof -
  let ?s = "two_children OneForOne 3"
  have a: "strategy ?s = OneForOne" "1 < length (child_ids ?s)"
    "restart_count (child_ids ?s ! 1) ?s < max_restarts ?s"
    "(child_factories ?s ! 1) () = (Inr (ActorId 12), ())" "ActorId 12 \<notin> set (child_ids ?s)"
    by (simp_all add: two_children_def restart_count_def hm_get_def)
  have i: "child_ids ?s = [ActorId 1, ActorId 2]" by (simp add: two_children_def)
  show ?thesis using sup_one_for_one[OF two_children_aligned a] by (auto simp: i)
qed



section \<open>Restarting all children\<close>

text \<open>
  With \<^verbatim>\<open>AllForOne\<close>, a failure below the limit calls every factory once, in order of
  registration, whichever id failed: the children become the new ids, all different and fresh,
  and all counts are back at zero.
\<close>

theorem sup_all_for_one:
  assumes "child_factories s = map spawn_factory ks" and "length (child_ids s) = length ks"
    and "strategy s = AllForOne" and "restart_count i s < max_restarts s" and "length ks \<le> ids_left cw"
  shows "\<exists>s' cw'. handle_failure i s cw = (Inr (children s'), s', cw')
    \<and> (children s', cw') = make_children (child_factories s) cw \<and> sup_aligned s'
    \<and> set (children s') \<inter> known_ids cw = {} \<and> (\<forall>j. restart_count j s' = 0)"
proof -
  let ?m = "make_children (child_factories s) cw"
  have "\<not> max_restarts s \<le> restart_count i s" using assms(4) by simp
  then have "handle_failure i s cw = restart_all s cw"
    using assms(3) by (simp add: handle_failure_def Let_def)
  then show ?thesis
    using spawn_source.restart_all_make[OF assms(1,2,5)] spawn_source.make_fresh(1-3)[OF assms(5)] assms(1)
    by (auto simp: children_def sup_aligned_def restart_count_def hm_get_fold_zero)
qed

lemma sup_demo_started:
  "\<exists>s cw. start_all (sup_demo st mx) sup_world = (Inr (), s, cw)
    \<and> child_factories s = map spawn_factory [(5, 50), (7, 70)] \<and> length (child_ids s) = 2
    \<and> strategy s = st \<and> max_restarts s = mx \<and> (\<forall>i. restart_count i s = 0) \<and> ids_left cw = 2 ^ 64 - 4"
proof -
  have le: "length [(5 :: nat, 50 :: nat), (7, 70)] \<le> ids_left sup_world" by (simp add: ids_left_demo)
  show ?thesis
    using spawn_source.start_loop_make[OF le, of "sup_demo st mx"] spawn_source.make_fresh(1,5)[OF le]
    by (simp add: start_all_def sup_demo_factories restart_count_def hm_get_fold_zero ids_left_demo)
qed

theorem sup_all_for_one_witness:
  "\<exists>s cw s' cw'. start_all (sup_demo AllForOne 1) sup_world = (Inr (), s, cw)
     \<and> handle_failure (ActorId 99) s cw = (Inr (children s'), s', cw') \<and> sup_aligned s'"
proof -
  obtain s cw where s: "start_all (sup_demo AllForOne 1) sup_world = (Inr (), s, cw)"
    "child_factories s = map spawn_factory [(5, 50), (7, 70)]" "length (child_ids s) = 2"
    "strategy s = AllForOne" "max_restarts s = 1" "\<forall>i. restart_count i s = 0" "ids_left cw = 2 ^ 64 - 4"
    using sup_demo_started by blast
  have a: "length (child_ids s) = length [(5 :: nat, 50 :: nat), (7, 70)]"
    "restart_count (ActorId 99) s < max_restarts s" "length [(5 :: nat, 50 :: nat), (7, 70)] \<le> ids_left cw"
    using s by simp_all
  from sup_all_for_one[OF s(2) a(1) s(4) a(2,3)] s(1) show ?thesis by blast
qed

text \<open>
  C35: with \<^verbatim>\<open>AllForOne\<close> the limit is never reached: because every restart sets all counts back to
  zero, any sequence of failures, of any ids, restarts all children every time (for any limit
  above zero).
\<close>

theorem sup_all_for_one_no_limit:
  assumes "child_factories s = map spawn_factory ks" and "length (child_ids s) = length ks"
    and "strategy s = AllForOne" and "max_restarts s > 0" and "\<forall>i. restart_count i s = 0"
    and "length failed * length ks \<le> ids_left cw"
  shows "\<forall>r \<in> set (fst (run_failures failed s cw)). \<exists>js. r = Inr js \<and> length js = length ks"
  by (rule spawn_source.all_for_one_always_restarts[OF assms])

theorem sup_all_for_one_no_limit_witness:
  "\<exists>s cw. start_all (sup_demo AllForOne 1) sup_world = (Inr (), s, cw)
     \<and> (\<forall>r \<in> set (fst (run_failures (replicate 10 (ActorId 1)) s cw)). \<exists>js. r = Inr js \<and> length js = 2)"
proof -
  obtain s cw where s: "start_all (sup_demo AllForOne 1) sup_world = (Inr (), s, cw)"
    "child_factories s = map spawn_factory [(5, 50), (7, 70)]" "length (child_ids s) = 2"
    "strategy s = AllForOne" "max_restarts s = 1" "\<forall>i. restart_count i s = 0" "ids_left cw = 2 ^ 64 - 4"
    using sup_demo_started by blast
  have a: "length (child_ids s) = length [(5 :: nat, 50 :: nat), (7, 70)]" "max_restarts s > 0"
    "length (replicate 10 (ActorId 1)) * length [(5 :: nat, 50 :: nat), (7, 70)] \<le> ids_left cw"
    using s by simp_all
  from sup_all_for_one_no_limit[OF s(2) a(1) s(4) a(2) s(6) a(3)] s(1) show ?thesis by auto
qed

section \<open>Departures from the documentation\<close>



text \<open>
  C36: once a child has been given up, the factories no longer belong to the children at their
  positions. With \<^verbatim>\<open>OneForOne\<close>, after child \<open>k\<close> exceeded its limit, a failure of a later sibling
  \<open>j\<close> calls the factory registered before the sibling's own, and its result takes the sibling's
  place.
\<close>

theorem sup_wrong_factory_after_removal:
  assumes "sup_aligned s" and "strategy s = OneForOne" and "k < j" and "j < length (child_ids s)"
    and "restart_count (child_ids s ! k) s \<ge> max_restarts s"
    and "restart_count (child_ids s ! j) s < max_restarts s"
    and "handle_failure (child_ids s ! k) s w = (r, s1, w1)"
    and "(child_factories s ! (j - 1)) w1 = (Inr i, w2)"
  shows "r = Inr [] \<and> (\<exists>s2. handle_failure (child_ids s ! j) s1 w1 = (Inr [i], s2, w2)
    \<and> child_ids s2 ! (j - 1) = i)"
proof -
  let ?ids = "child_ids s" and ?rest = "take k (child_ids s) @ drop (Suc k) (child_ids s)"
  have d: "distinct ?ids" and l: "length ?ids = length (child_factories s)"
    using assms(1) by (simp_all add: sup_aligned_def)
  have k: "k < length ?ids" using assms(3,4) by simp
  have ids: "?ids = take k ?ids @ ?ids ! k # drop (Suc k) ?ids" by (rule id_take_nth_drop[OF k])
  have "distinct (take k ?ids @ ?ids ! k # drop (Suc k) ?ids)"
    by (subst ids[symmetric]) (rule d)
  then have "?ids ! k \<notin> set (take k ?ids)" "?ids ! k \<notin> set (drop (Suc k) ?ids)" by simp_all
  moreover have "filter (\<lambda>i. i \<noteq> ?ids ! k) ?ids =
      filter (\<lambda>i. i \<noteq> ?ids ! k) (take k ?ids @ ?ids ! k # drop (Suc k) ?ids)"
    by (rule arg_cong[OF ids])
  ultimately have flt: "filter (\<lambda>i. i \<noteq> ?ids ! k) ?ids = ?rest" by simp
  have s1: "r = Inr []" "w1 = w" "s1 = s\<lparr>child_ids := ?rest, restart_counts := hm_remove (?ids ! k) (restart_counts s)\<rparr>"
    using handle_failure_limit[OF assms(5), of w] assms(7) flt by simp_all
  have "distinct ?rest" using flt d by (metis distinct_filter)
  moreover have nth: "?rest ! (j - 1) = ?ids ! j" and j: "j - 1 < length ?rest"
    using assms(3,4) by (auto simp: nth_append min_def)
  ultimately have p: "position (?ids ! j) ?rest = Some (j - 1)" using position_nth by metis
  have "?ids ! j \<noteq> ?ids ! k" using d assms(3,4) k by (simp add: nth_eq_iff_index_eq)
  then have "restart_count (?ids ! j) s1 < max_restarts s1"
    using assms(6) by (simp add: s1(3) restart_count_def)
  with p assms(2,8) j l assms(4) show ?thesis
    by (auto simp: s1 handle_failure_def restart_one_def Let_def not_le nth_list_update)
qed

theorem sup_wrong_factory_after_removal_witness:
  "\<exists>s1. handle_failure (ActorId 1) (two_children OneForOne 1) () = (Inr [], s1, ())
     \<and> (\<exists>s2. handle_failure (ActorId 2) s1 () = (Inr [ActorId 11], s2, ()))"
proof -
  let ?s = "two_children OneForOne 1"
  have a: "strategy ?s = OneForOne" "(0 :: nat) < 1" "1 < length (child_ids ?s)"
    "max_restarts ?s \<le> restart_count (child_ids ?s ! 0) ?s"
    "restart_count (child_ids ?s ! 1) ?s < max_restarts ?s"
    by (simp_all add: two_children_def restart_count_def hm_get_def)
  obtain r s1 where h: "handle_failure (child_ids ?s ! 0) ?s () = (r, s1, ())" by (metis prod.exhaust unit.exhaust)
  have f: "(child_factories ?s ! (1 - 1)) () = (Inr (ActorId 11), ())" by (simp add: two_children_def)
  have i: "child_ids ?s = [ActorId 1, ActorId 2]" by (simp add: two_children_def)
  show ?thesis
    using sup_wrong_factory_after_removal[OF two_children_aligned a h f] h by (auto simp: i)
qed

text \<open>
  A failure reported for an id that is not a child is ignored by \<^verbatim>\<open>OneForOne\<close>: nothing is
  called, no child changes and no count is made.
\<close>

theorem sup_unknown_id_ignored:
  assumes "strategy s = OneForOne" and "i \<notin> set (child_ids s)" and "hm_get (restart_counts s) i = None"
  shows "\<exists>s'. handle_failure i s w = (Inr [], s', w) \<and> child_ids s' = child_ids s
    \<and> (\<forall>j. hm_get (restart_counts s') j = hm_get (restart_counts s) j)"
proof -
  have "position i (child_ids s) = None" using assms(2) by (simp add: position_None)
  moreover have "filter (\<lambda>j. j \<noteq> i) (child_ids s) = child_ids s" using assms(2) by simp
  ultimately show ?thesis
    using assms(1,3) by (simp add: handle_failure_def restart_one_def Let_def)
qed

theorem sup_unknown_id_ignored_witness:
  "\<exists>s'. handle_failure (ActorId 5) (two_children OneForOne 1) () = (Inr [], s', ())
     \<and> child_ids s' = [ActorId 1, ActorId 2]"
proof -
  let ?s = "two_children OneForOne 1"
  have a: "strategy ?s = OneForOne" "ActorId 5 \<notin> set (child_ids ?s)" "hm_get (restart_counts ?s) (ActorId 5) = None"
    and i: "child_ids ?s = [ActorId 1, ActorId 2]"
    by (simp_all add: two_children_def hm_get_def)
  from sup_unknown_id_ignored[OF a, of "()"] i show ?thesis by metis
qed

end
