(* ===== verification/Worker.thy ===== *)
theory Worker
  imports Scheduler Callbacks
begin

text \<open>
  The worker thread of \<^verbatim>\<open>src/runtime.rs\<close>. \<^verbatim>\<open>Worker::run\<close> is an endless loop whose iterations
  other threads interleave with, so it is modelled by the places it can be at and one function
  \<open>worker_step\<close> from one place to the next: a \<^verbatim>\<open>try_recv\<close> on the control channel, a \<^verbatim>\<open>try_recv\<close>
  on the message channel, one scheduling turn with its dispatch, the \<^verbatim>\<open>recv_timeout\<close>, and the
  final \<^verbatim>\<open>stop_all_actors\<close>. A dispatch is one step: what callbacks do is atomic with respect to
  other threads. \<open>Exited\<close> and \<open>Unwound_by\<close> are the ends of the thread; \<open>Blocked_on\<close> is a
  callback waiting for a reply, which the model does not resume.
\<close>

section \<open>State\<close>

datatype worker_place =
  At_control | At_drain | At_schedule | At_recv | Stopping | Exited | Unwound_by payload | Blocked_on nat

text \<open>
  The receivers of a worker are those of its control channel and its message channel in
  \<^verbatim>\<open>SpawnShared\<close>, and its actor map is the one there (the same \<^verbatim>\<open>Arc\<close>).
\<close>

record 'v worker =
  wk_scheduler :: "'v dispatch_fn scheduler"
  worker_idx :: nat
  wk_place :: worker_place

definition worker_new :: "nat \<Rightarrow> 'v worker" where
  "worker_new i = \<lparr>wk_scheduler = sched_new, worker_idx = i, wk_place = At_control\<rparr>"

definition wk_chan :: "'v worker \<Rightarrow> ('v, 'e) world \<Rightarrow> nat" where
  "wk_chan wk w = msg_txs (shared w) ! worker_idx wk"

definition wk_control :: "'v worker \<Rightarrow> ('v, 'e) world \<Rightarrow> 'v control_msg chan" where
  "wk_control wk w = control_txs (shared w) ! worker_idx wk"

definition set_control :: "'v worker \<Rightarrow> 'v control_msg chan \<Rightarrow> ('v, 'e) world \<Rightarrow> ('v, 'e) world" where
  "set_control wk c w = upd_shared (\<lambda>s. s\<lparr>control_txs := (control_txs s)[worker_idx wk := c]\<rparr>) w"

definition map_insert :: "'v worker \<Rightarrow> actor_id \<Rightarrow> 'v actor_cell \<Rightarrow> ('v, 'e) world \<Rightarrow> ('v, 'e) world" where
  "map_insert wk i cell w = upd_shared (\<lambda>s. s\<lparr>actor_maps := (actor_maps s)[worker_idx wk :=
     hm_insert i cell (actor_maps s ! worker_idx wk)]\<rparr>) w"

definition confirm_send :: "nat \<Rightarrow> ('v, 'e) world \<Rightarrow> ('v, 'e) world" where
  "confirm_send k w = w\<lparr>confirms := (confirms w)[k := Replied ()]\<rparr>"

text \<open>Dropping messages unread: a caller waiting for one of them learns that it was dropped.\<close>

definition drop_envelopes :: "'v message list \<Rightarrow> ('v, 'e) world \<Rightarrow> ('v, 'e) world" where
  "drop_envelopes es w = fold drop_envelope es w"

definition drop_control_msg :: "'v control_msg \<Rightarrow> ('v, 'e) world \<Rightarrow> ('v, 'e) world" where
  "drop_control_msg m w =
     (case m of
        SpawnActor _ _ _ k \<Rightarrow> w\<lparr>confirms := (confirms w)[k := Dropped]\<rparr>
      | Shutdown \<Rightarrow> w)"

section \<open>Dispatch and removal\<close>

text \<open>\<^verbatim>\<open>self.scheduler.remove_actor(id)\<close>: the actor's mailbox is dropped.\<close>

definition forget_actor :: "actor_id \<Rightarrow> 'v worker \<Rightarrow> ('v, 'e) world \<Rightarrow> 'v worker \<times> ('v, 'e) world" where
  "forget_actor i wk w =
     (wk\<lparr>wk_scheduler := sched_remove_actor i (wk_scheduler wk)\<rparr>,
      drop_envelopes (mailbox (wk_scheduler wk) i) w)"

text \<open>\<^verbatim>\<open>(cell.on_stop)(..)\<close> in a fresh context, then the scheduler forgets the actor.\<close>

definition stop_cell ::
  "('v, 'e) classes \<Rightarrow> actor_id \<Rightarrow> 'v actor_cell \<Rightarrow> 'v worker \<Rightarrow> ('v, 'e) world \<Rightarrow>
   (fault + unit) \<times> 'v worker \<times> ('v, 'e) world" where
  "stop_cell cls i cell wk w =
     (case call_dispatch cls (on_stop cell) (actor cell) (context_with_spawner i (worker_idx wk)) w of
        (Inl f, _, _, w') \<Rightarrow> (Inl f, wk, w')
      | (Inr _, _, _, w') \<Rightarrow> (Inr (), forget_actor i wk w'))"

definition worker_dispatch ::
  "('v, 'e) classes \<Rightarrow> 'v message \<Rightarrow> 'v worker \<Rightarrow> ('v, 'e) world \<Rightarrow>
   (fault + unit) \<times> 'v worker \<times> ('v, 'e) world" where
  "worker_dispatch cls e wk w =
     (let i = env_actor_id e in
      case shared_remove_actor i (worker_idx wk) w of
        (None, w1) \<Rightarrow> (Inr (), wk, drop_envelope e w1)
      | (Some cell, w1) \<Rightarrow>
          (case call_dispatch cls (env_dispatch e) (actor cell) (context_with_spawner i (worker_idx wk)) w1 of
             (Inr _, act', ctx', w2) \<Rightarrow>
               (if context_is_running ctx' then (Inr (), wk, map_insert wk i (cell\<lparr>actor := act'\<rparr>) w2)
                else stop_cell cls i (cell\<lparr>actor := act'\<rparr>) wk w2)
           | (Inl (Panicking p), act', _, w2) \<Rightarrow>
               stop_cell cls i (cell\<lparr>actor := act'\<rparr>) wk (log_event (EvPanicked i (panic_reason p)) w2)
           | (Inl (Blocking q), act', _, w2) \<Rightarrow> (Inl (Blocking q), wk, w2)))"

text \<open>The same equation on an explicit envelope, for evaluation.\<close>

lemma worker_dispatch_eval [code]:
  "worker_dispatch cls \<lparr>env_actor_id = i, env_dispatch = d\<rparr> wk w =
     (case shared_remove_actor i (worker_idx wk) w of
        (None, w1) \<Rightarrow> (Inr (), wk, drop_envelope \<lparr>env_actor_id = i, env_dispatch = d\<rparr> w1)
      | (Some cell, w1) \<Rightarrow>
          (case call_dispatch cls d (actor cell) (context_with_spawner i (worker_idx wk)) w1 of
             (Inr _, act', ctx', w2) \<Rightarrow>
               (if context_is_running ctx' then (Inr (), wk, map_insert wk i (cell\<lparr>actor := act'\<rparr>) w2)
                else stop_cell cls i (cell\<lparr>actor := act'\<rparr>) wk w2)
           | (Inl (Panicking p), act', _, w2) \<Rightarrow>
               stop_cell cls i (cell\<lparr>actor := act'\<rparr>) wk (log_event (EvPanicked i (panic_reason p)) w2)
           | (Inl (Blocking q), act', _, w2) \<Rightarrow> (Inl (Blocking q), wk, w2)))"
  unfolding worker_dispatch_def Let_def envelope.select_convs by (rule refl)

definition worker_remove_actor ::
  "('v, 'e) classes \<Rightarrow> actor_id \<Rightarrow> 'v worker \<Rightarrow> ('v, 'e) world \<Rightarrow>
   (fault + unit) \<times> 'v worker \<times> ('v, 'e) world" where
  "worker_remove_actor cls i wk w =
     (case shared_remove_actor i (worker_idx wk) w of
        (None, w1) \<Rightarrow> (Inr (), forget_actor i wk w1)
      | (Some cell, w1) \<Rightarrow> stop_cell cls i cell wk w1)"

fun worker_remove_all ::
  "('v, 'e) classes \<Rightarrow> actor_id list \<Rightarrow> 'v worker \<Rightarrow> ('v, 'e) world \<Rightarrow>
   (fault + unit) \<times> 'v worker \<times> ('v, 'e) world" where
  "worker_remove_all cls [] wk w = (Inr (), wk, w)"
| "worker_remove_all cls (i # is) wk w =
     (case worker_remove_actor cls i wk w of
        (Inl f, wk', w') \<Rightarrow> (Inl f, wk', w')
      | (Inr _, wk', w') \<Rightarrow> worker_remove_all cls is wk' w')"

definition worker_stop_all ::
  "(actor_id list \<Rightarrow> actor_id list) \<Rightarrow> ('v, 'e) classes \<Rightarrow> 'v worker \<Rightarrow> ('v, 'e) world \<Rightarrow>
   (fault + unit) \<times> 'v worker \<times> ('v, 'e) world" where
  "worker_stop_all order cls wk w =
     worker_remove_all cls (order (hm_keys (actor_maps (shared w) ! worker_idx wk))) wk w"

section \<open>The loop\<close>

text \<open>
  The end of the thread, by return or unwinding: the worker's fields are dropped, its two
  receivers with what is queued in them and its scheduler with every mailbox.
\<close>

definition worker_end :: "worker_place \<Rightarrow> 'v worker \<Rightarrow> ('v, 'e) world \<Rightarrow> 'v worker \<times> ('v, 'e) world" where
  "worker_end place wk w =
     (let w1 = fold drop_control_msg (chan_queue (wk_control wk w))
                 (set_control wk (snd (chan_drop_rx (wk_control wk w))) w);
          w2 = drop_envelopes (chan_queue (chan_at w1 (wk_chan wk w1)))
                 (upd_chan (wk_chan wk w1) (\<lambda>c. snd (chan_drop_rx c)) w1)
      in (wk\<lparr>wk_scheduler := sched_new, wk_place := place\<rparr>,
          drop_envelopes (concat (map snd (mailboxes (wk_scheduler wk)))) w2))"

definition end_step ::
  "(fault + unit) \<times> 'v worker \<times> ('v, 'e) world \<Rightarrow> ('v worker \<Rightarrow> 'v worker) \<Rightarrow> 'v worker \<times> ('v, 'e) world" where
  "end_step r cont =
     (case r of
        (Inr _, wk, w) \<Rightarrow> (cont wk, w)
      | (Inl (Panicking p), wk, w) \<Rightarrow> worker_end (Unwound_by p) wk w
      | (Inl (Blocking q), wk, w) \<Rightarrow> (wk\<lparr>wk_place := Blocked_on q\<rparr>, w))"

definition step_control :: "'v worker \<Rightarrow> ('v, 'e) world \<Rightarrow> 'v worker \<times> ('v, 'e) world" where
  "step_control wk w =
     (case chan_try_recv (wk_control wk w) of
        (Received (SpawnActor i act stop k), c) \<Rightarrow>
          (wk, confirm_send k (map_insert wk i \<lparr>actor = act, on_stop = stop\<rparr> (set_control wk c w)))
      | (Received Shutdown, c) \<Rightarrow> (wk\<lparr>wk_place := Stopping\<rparr>, set_control wk c w)
      | (_, c) \<Rightarrow> (wk\<lparr>wk_place := At_drain\<rparr>, set_control wk c w))"

definition step_drain :: "'v worker \<Rightarrow> ('v, 'e) world \<Rightarrow> 'v worker \<times> ('v, 'e) world" where
  "step_drain wk w =
     (case chan_try_recv (chan_at w (wk_chan wk w)) of
        (Received e, c) \<Rightarrow>
          (wk\<lparr>wk_scheduler := enqueue e (wk_scheduler wk)\<rparr>, upd_chan (wk_chan wk w) (\<lambda>_. c) w)
      | (_, c) \<Rightarrow> (wk\<lparr>wk_place := At_schedule\<rparr>, upd_chan (wk_chan wk w) (\<lambda>_. c) w))"

definition step_schedule ::
  "('v, 'e) classes \<Rightarrow> 'v worker \<Rightarrow> ('v, 'e) world \<Rightarrow> 'v worker \<times> ('v, 'e) world" where
  "step_schedule cls wk w =
     (case next_ready (wk_scheduler wk) of
        (None, s1) \<Rightarrow> (wk\<lparr>wk_scheduler := s1, wk_place := At_recv\<rparr>, w)
      | (Some i, s1) \<Rightarrow>
          (case dequeue i s1 of
             (None, s2) \<Rightarrow> (wk\<lparr>wk_scheduler := s2, wk_place := At_control\<rparr>, w)
           | (Some e, s2) \<Rightarrow>
               end_step (worker_dispatch cls e (wk\<lparr>wk_scheduler := s2\<rparr>) w)
                 (\<lambda>wk'. wk'\<lparr>wk_scheduler := requeue_if_ready i (wk_scheduler wk'), wk_place := At_control\<rparr>)))"

text \<open>\<^verbatim>\<open>recv_timeout\<close>: \<open>Empty\<close> is the timeout.\<close>

definition step_recv :: "'v worker \<Rightarrow> ('v, 'e) world \<Rightarrow> 'v worker \<times> ('v, 'e) world" where
  "step_recv wk w =
     (case chan_try_recv (chan_at w (wk_chan wk w)) of
        (Received e, c) \<Rightarrow>
          (wk\<lparr>wk_scheduler := enqueue e (wk_scheduler wk), wk_place := At_control\<rparr>,
           upd_chan (wk_chan wk w) (\<lambda>_. c) w)
      | (Empty, c) \<Rightarrow> (wk\<lparr>wk_place := At_control\<rparr>, upd_chan (wk_chan wk w) (\<lambda>_. c) w)
      | (Disconnected, c) \<Rightarrow> (wk\<lparr>wk_place := Stopping\<rparr>, upd_chan (wk_chan wk w) (\<lambda>_. c) w))"

definition step_stop ::
  "(actor_id list \<Rightarrow> actor_id list) \<Rightarrow> ('v, 'e) classes \<Rightarrow> 'v worker \<Rightarrow> ('v, 'e) world \<Rightarrow>
   'v worker \<times> ('v, 'e) world" where
  "step_stop order cls wk w =
     (case worker_stop_all order cls wk w of
        (Inr _, wk', w') \<Rightarrow> worker_end Exited wk' w'
      | r \<Rightarrow> end_step r id)"

definition worker_step ::
  "(actor_id list \<Rightarrow> actor_id list) \<Rightarrow> ('v, 'e) classes \<Rightarrow> 'v worker \<Rightarrow> ('v, 'e) world \<Rightarrow>
   'v worker \<times> ('v, 'e) world" where
  "worker_step order cls wk w =
     (case wk_place wk of
        At_control \<Rightarrow> step_control wk w
      | At_drain \<Rightarrow> step_drain wk w
      | At_schedule \<Rightarrow> step_schedule cls wk w
      | At_recv \<Rightarrow> step_recv wk w
      | Stopping \<Rightarrow> step_stop order cls wk w
      | _ \<Rightarrow> (wk, w))"

text \<open>\<open>n\<close> steps of a worker with no other thread in between.\<close>

primrec worker_steps ::
  "(actor_id list \<Rightarrow> actor_id list) \<Rightarrow> ('v, 'e) classes \<Rightarrow> nat \<Rightarrow> 'v worker \<Rightarrow> ('v, 'e) world \<Rightarrow>
   'v worker \<times> ('v, 'e) world" where
  "worker_steps order cls 0 wk w = (wk, w)"
| "worker_steps order cls (Suc n) wk w =
     (case worker_step order cls wk w of (wk', w') \<Rightarrow> worker_steps order cls n wk' w')"

section \<open>Rewriting\<close>

lemma worker_frame [simp]:
  "chans (set_control wk c w) = chans w" "replies (set_control wk c w) = replies w"
  "confirms (set_control wk c w) = confirms w" "env (set_control wk c w) = env w"
  "log (set_control wk c w) = log w" "chan_at (set_control wk c w) d = chan_at w d"
  "shared (set_control wk c w) = (shared w)\<lparr>control_txs := (control_txs (shared w))[worker_idx wk := c]\<rparr>"
  "chans (map_insert wk i cell w) = chans w" "replies (map_insert wk i cell w) = replies w"
  "confirms (map_insert wk i cell w) = confirms w" "env (map_insert wk i cell w) = env w"
  "log (map_insert wk i cell w) = log w" "chan_at (map_insert wk i cell w) d = chan_at w d"
  "shared (map_insert wk i cell w) = (shared w)\<lparr>actor_maps := (actor_maps (shared w))[worker_idx wk :=
     hm_insert i cell (actor_maps (shared w) ! worker_idx wk)]\<rparr>"
  "chans (confirm_send k w) = chans w" "replies (confirm_send k w) = replies w"
  "shared (confirm_send k w) = shared w" "env (confirm_send k w) = env w"
  "log (confirm_send k w) = log w" "chan_at (confirm_send k w) d = chan_at w d"
  "chans (drop_control_msg m w) = chans w" "replies (drop_control_msg m w) = replies w"
  "shared (drop_control_msg m w) = shared w" "env (drop_control_msg m w) = env w"
  "log (drop_control_msg m w) = log w" "chan_at (drop_control_msg m w) d = chan_at w d"
  by (simp_all add: set_control_def map_insert_def confirm_send_def drop_control_msg_def chan_at_def
      split: control_msg.split)

lemma drop_envelopes_simps [simp]:
  "drop_envelopes [] w = w" "drop_envelopes (e # es) w = drop_envelopes es (drop_envelope e w)"
  by (simp_all add: drop_envelopes_def)

lemma drop_envelopes_frame [simp]:
  "chans (drop_envelopes es w) = chans w" "confirms (drop_envelopes es w) = confirms w"
  "shared (drop_envelopes es w) = shared w" "env (drop_envelopes es w) = env w"
  "log (drop_envelopes es w) = log w" "chan_at (drop_envelopes es w) c = chan_at w c"
  "length (replies (drop_envelopes es w)) = length (replies w)"
  by (induction es arbitrary: w) simp_all

lemma drop_control_frame [simp]:
  "chans (fold drop_control_msg ms w) = chans w" "replies (fold drop_control_msg ms w) = replies w"
  "shared (fold drop_control_msg ms w) = shared w" "env (fold drop_control_msg ms w) = env w"
  "log (fold drop_control_msg ms w) = log w" "chan_at (fold drop_control_msg ms w) c = chan_at w c"
  by (induction ms arbitrary: w) simp_all

end
