(* ===== verification/Worker_Inv.thy ===== *)
theory Worker_Inv
  imports Worker
begin

text \<open>
  What a step of a worker keeps, part one: the shape of the shared state, the scheduler's
  invariant, and the accounting of replies. The replies of the envelopes in a worker's
  mailboxes are held by that worker; a step moves each of them from the channel to the mailbox,
  from the mailbox to its answer, or drops it, and never touches those held elsewhere.
\<close>

section \<open>Callbacks and the infrastructure\<close>

text \<open>Every stored or announced actor carries the \<^verbatim>\<open>stopped\<close> closure of its own type.\<close>

definition cell_ok :: "'v actor_cell \<Rightarrow> bool" where
  "cell_ok cell \<longleftrightarrow> on_stop cell = OnStopFn (any_type (actor cell))"

definition cells_ok :: "('v, 'e) world \<Rightarrow> bool" where
  "cells_ok w \<longleftrightarrow>
     (\<forall>n < length (actor_maps (shared w)). hm_wf (actor_maps (shared w) ! n)
        \<and> (\<forall>i cell. hm_get (actor_maps (shared w) ! n) i = Some cell \<longrightarrow> cell_ok cell))"

definition controls_ok :: "('v, 'e) world \<Rightarrow> bool" where
  "controls_ok w \<longleftrightarrow>
     (\<forall>n < length (control_txs (shared w)). \<forall>i act stop k.
        SpawnActor i act stop k \<in> set (chan_queue (control_txs (shared w) ! n)) \<longrightarrow>
        stop = OnStopFn (any_type act))"

text \<open>
  What callbacks leave alone: the channels' identity, closed channels, the control channels, the
  number of workers; the cells stay well-formed.
\<close>

definition infra :: "('v, 'e) world \<Rightarrow> ('v, 'e) world \<Rightarrow> bool" where
  "infra w w' \<longleftrightarrow>
     length (chans w') = length (chans w) \<and> msg_txs (shared w') = msg_txs (shared w)
   \<and> control_txs (shared w') = control_txs (shared w) \<and> num_workers (shared w') = num_workers (shared w)
   \<and> running (shared w') = running (shared w)
   \<and> length (actor_maps (shared w')) = length (actor_maps (shared w))
   \<and> (\<forall>c. chan_open (chan_at w' c) = chan_open (chan_at w c)
          \<and> (\<not> chan_open (chan_at w c) \<longrightarrow> chan_queue (chan_at w' c) = chan_queue (chan_at w c)))
   \<and> (cells_ok w \<longrightarrow> cells_ok w')"

lemma infra_refl [simp]: "infra w w"
  by (simp add: infra_def)

lemma infra_trans: "infra w w' \<Longrightarrow> infra w' w'' \<Longrightarrow> infra w w''"
  by (simp add: infra_def)

lemma cells_ok_cong: "actor_maps (shared w') = actor_maps (shared w) \<Longrightarrow> cells_ok w' = cells_ok w"
  by (simp add: cells_ok_def)

lemma cells_ok_insert:
  assumes "cells_ok w" and "cell_ok cell"
    and "actor_maps (shared w') = (actor_maps (shared w))[n := hm_insert i cell (actor_maps (shared w) ! n)]"
  shows "cells_ok w'"
  using assms by (auto simp: cells_ok_def nth_list_update_lt split: if_splits)

lemma cells_ok_remove:
  assumes "cells_ok w"
    and "actor_maps (shared w') = (actor_maps (shared w))[n := hm_remove i (actor_maps (shared w) ! n)]"
  shows "cells_ok w'"
  using assms by (auto simp: cells_ok_def nth_list_update_lt split: if_splits)

lemma infra_frame:
  assumes "chans w' = chans w" and "shared w' = shared w"
  shows "infra w w'"
  using assms chan_at_cong[OF assms(1)] by (simp add: infra_def cells_ok_def)

interpretation infra: api_relation "\<lambda>_ _. infra"
proof (unfold_locales, goal_cases)
  case (2 sp n w w' w'')
  then show ?case by (rule infra_trans)
next
  case (8 n i t w w')
  then show ?case
    by (auto simp: infra_def cells_ok_def)
next
  case (9 n i t w w' v)
  have "cells_ok (snd (spawn_actor_direct i n \<lparr>any_type = t, any_val = v\<rparr> (OnStopFn t) w'))" if "cells_ok w'"
    by (rule cells_ok_insert[OF that, where n = n and i = i and
          cell = "\<lparr>actor = \<lparr>any_type = t, any_val = v\<rparr>, on_stop = OnStopFn t\<rparr>"])
      (simp_all add: cell_ok_def)
  moreover have "cells_ok (log_event (EvStarted i t) (snd (allocate_id w)))" if "cells_ok w"
    using that by (simp add: cells_ok_def)
  ultimately show ?case using 9 by (simp add: infra_def)
qed (auto simp: infra_def cells_ok_def chan_queue_do_send chan_queue_send_begin)

lemma exec_infra: "exec p self ctx w = (res, self', ctx', w') \<Longrightarrow> infra w w'"
  using infra.exec_R[where p = p and self = self and ctx = ctx and w = w] by simp

lemma call_dispatch_infra:
  assumes "call_dispatch cls f act ctx w = (res, act', ctx', w')"
  shows "infra w w'"
proof -
  have f: "infra w (log_event ev w)" "infra w1 (reply_send r v w1)" "infra w1 (reply_drop r w1)"
    for ev r v and w1 :: "('a, 'b) world"
    by (rule infra_frame; simp)+
  have h: "infra w w1" if "call_handle cls a msg act ctx w = (res1, act1, ctx1, w1)" for a msg res1 act1 ctx1 w1
    using that
  proof (cases rule: call_handle_E)
    case (Handled v')
    from infra_trans[OF f(1) exec_infra[OF Handled(3)]] show ?thesis .
  qed simp
  have s: "infra w w1" if "exec p self ctx (log_event ev w) = (res1, v1, ctx1, w1)" for p self ev res1 v1 ctx1 w1
    by (rule infra_trans[OF f(1) exec_infra[OF that]])
  show ?thesis
    using assms by (cases f) (auto simp: call_dispatch_def dest: h s intro: infra_trans[OF _ f(2)]
        infra_trans[OF _ f(3)] split: if_splits prod.splits sum.splits fault.splits)
qed

section \<open>Replies held in mailboxes\<close>

definition mailbox_replies :: "'v dispatch_fn scheduler \<Rightarrow> nat multiset" where
  "mailbox_replies s = queue_replies (concat (map snd (mailboxes s)))"

lemma queue_replies_update:
  "queue_replies (concat (map snd (AList.update k v m))) + queue_replies (case map_of m k of None \<Rightarrow> [] | Some q \<Rightarrow> q)
   = queue_replies (concat (map snd m)) + queue_replies v"
  by (induction m) (auto simp: ac_simps)

lemma queue_replies_delete:
  assumes "distinct (map fst m)"
  shows "queue_replies (concat (map snd (AList.delete k m))) + queue_replies (case map_of m k of None \<Rightarrow> [] | Some q \<Rightarrow> q)
   = queue_replies (concat (map snd m))"
  using assms
proof (induction m)
  case (Cons kv m)
  show ?case
  proof (cases "fst kv = k")
    case True
    with Cons.prems have "map_of m k = None" by (auto simp: map_of_eq_None_iff)
    with True Cons show ?thesis by (cases kv) (simp add: AList.delete_simps ac_simps)
  next
    case False
    with Cons show ?thesis by (cases kv) (simp add: AList.delete_simps ac_simps)
  qed
qed simp

lemma mailbox_replies_insert:
  "mailbox_replies (s\<lparr>mailboxes := hm_insert i q (mailboxes s)\<rparr>) + queue_replies (mailbox s i)
   = mailbox_replies s + queue_replies q"
  using queue_replies_update[of i q "mailboxes s"]
  by (simp add: mailbox_replies_def mailbox_def hm_insert_def hm_get_def)

lemma mailbox_replies_rq [simp]: "mailbox_replies (s\<lparr>ready_queue := r\<rparr>) = mailbox_replies s"
  by (simp add: mailbox_replies_def)

lemma mailbox_replies_enqueue:
  "mailbox_replies (enqueue e s) = mailbox_replies s + queue_replies [e]"
proof -
  have "mailbox_replies (enqueue e s) =
      mailbox_replies (s\<lparr>mailboxes := hm_insert (env_actor_id e) (mailbox s (env_actor_id e) @ [e]) (mailboxes s)\<rparr>)"
    by (simp add: sched_defs mailbox_replies_def)
  with mailbox_replies_insert[where s = s and i = "env_actor_id e" and q = "mailbox s (env_actor_id e) @ [e]"]
  show ?thesis by (simp add: ac_simps)
qed

lemma mailbox_replies_dequeue:
  assumes "dequeue i s = (Some e, s')"
  shows "mailbox_replies s = queue_replies [e] + mailbox_replies s'"
proof -
  obtain q where q: "hm_get (mailboxes s) i = Some (e # q)" "s' = s\<lparr>mailboxes := hm_insert i q (mailboxes s)\<rparr>"
    using assms by (auto simp: dequeue_def vd_pop_front_def split: option.splits list.splits)
  have "mailbox s i = e # q" using q(1) by (simp add: mailbox_def)
  with mailbox_replies_insert[where s = s and i = i and q = q] show ?thesis by (simp add: q(2) ac_simps split: option.splits)
qed

lemma mailbox_replies_delete:
  "hm_wf (mailboxes s) \<Longrightarrow>
   mailbox_replies (s\<lparr>mailboxes := hm_remove i (mailboxes s)\<rparr>) + queue_replies (mailbox s i) = mailbox_replies s"
  using queue_replies_delete[of "mailboxes s" i]
  by (simp add: mailbox_replies_def mailbox_def hm_remove_def hm_get_def hm_wf_def)

lemma mailbox_replies_remove:
  assumes "hm_wf (mailboxes s)"
  shows "mailbox_replies s = queue_replies (mailbox s i) + mailbox_replies (sched_remove_actor i s)"
proof -
  have "mailbox_replies (sched_remove_actor i s) =
      mailbox_replies (s\<lparr>mailboxes := hm_remove i (mailboxes s)\<rparr>)"
    by (simp add: sched_remove_actor_def mailbox_replies_def)
  with mailbox_replies_delete[OF assms, where i = i] show ?thesis by (simp add: ac_simps)
qed

lemma mailbox_replies_requeue:
  assumes "hm_wf (mailboxes s)"
  shows "mailbox_replies (requeue_if_ready i s) = mailbox_replies s"
proof -
  have "mailbox_replies (cleanup_empty i s) = mailbox_replies s" if "mailbox s i = []"
    using mailbox_replies_delete[OF assms, where i = i] that by (simp add: cleanup_empty_def)
  then show ?thesis by (simp add: requeue_if_ready_def has_pending_iff)
qed

lemma mailbox_replies_new [simp]: "mailbox_replies sched_new = {#}"
  by (simp add: mailbox_replies_def sched_new_def hm_new_def)

lemma acct_drop_envelopes: "acct (queue_replies es + held) w \<Longrightarrow> acct held (drop_envelopes es w)"
proof (induction es arbitrary: w)
  case (Cons e es)
  then have "acct (queue_replies [e] + (queue_replies es + held)) w" by (simp add: ac_simps)
  from acct_drop_envelope[OF this] Cons.IH show ?case by simp
qed simp

section \<open>The worker's invariant\<close>

text \<open>
  \<open>cur\<close> is the actor in dispatch, if any, and \<open>held\<close> the replies held outside the channels and
  outside this worker's mailboxes.
\<close>

definition wk_core :: "actor_id option \<Rightarrow> nat multiset \<Rightarrow> 'v worker \<Rightarrow> ('v, 'e) world \<Rightarrow> bool" where
  "wk_core cur held wk w \<longleftrightarrow>
     sched_inv cur (wk_scheduler wk) \<and> (\<forall>i. \<forall>e \<in> set (mailbox (wk_scheduler wk) i). is_message e)
   \<and> only_messages w \<and> cells_ok w \<and> controls_ok w
   \<and> worker_idx wk < length (control_txs (shared w)) \<and> worker_idx wk < length (actor_maps (shared w))
   \<and> wk_chan wk w < length (chans w)
   \<and> acct (mailbox_replies (wk_scheduler wk) + held) w"

definition wk_ended :: "'v worker \<Rightarrow> bool" where
  "wk_ended wk \<longleftrightarrow> (case wk_place wk of Exited \<Rightarrow> True | Unwound_by _ \<Rightarrow> True | _ \<Rightarrow> False)"

definition wk_closed :: "'v worker \<Rightarrow> ('v, 'e) world \<Rightarrow> bool" where
  "wk_closed wk w \<longleftrightarrow> wk_scheduler wk = sched_new
     \<and> chan_queue (chan_at w (wk_chan wk w)) = [] \<and> \<not> chan_open (chan_at w (wk_chan wk w))"

text \<open>A change of the world that leaves the scheduler alone.\<close>

lemma wk_core_world:
  assumes "wk_core cur held wk w" and "infra w w'"
    and "only_messages w'" and "acct (mailbox_replies (wk_scheduler wk) + held') w'"
  shows "wk_core cur held' wk w'"
  using assms by (auto simp: wk_core_def infra_def controls_ok_def wk_chan_def)

lemma wk_core_shared:
  assumes "wk_core cur held wk w" and "chans w' = chans w" and "replies w' = replies w"
    and "cells_ok w'" and "controls_ok w'" and "msg_txs (shared w') = msg_txs (shared w)"
    and "length (control_txs (shared w')) = length (control_txs (shared w))"
    and "length (actor_maps (shared w')) = length (actor_maps (shared w))"
  shows "wk_core cur held wk w'"
proof -
  have "acct h w' = acct h w" for h
    using assms(2,3) by (intro acct_frame) (simp_all add: chan_at_def)
  moreover have "only_messages w' = only_messages w"
    using assms(2) by (simp add: only_messages_def chan_at_def)
  ultimately show ?thesis using assms by (simp add: wk_core_def wk_chan_def)
qed

lemma wk_core_drop:
  assumes "wk_core cur (queue_replies es + held) wk w"
  shows "wk_core cur held wk (drop_envelopes es w)"
proof (rule wk_core_world[OF assms])
  show "infra w (drop_envelopes es w)" by (rule infra_frame) simp_all
  show "only_messages (drop_envelopes es w)" using assms by (simp add: wk_core_def only_messages_def)
  have "acct (queue_replies es + (mailbox_replies (wk_scheduler wk) + held)) w"
    using assms by (simp add: wk_core_def ac_simps)
  then show "acct (mailbox_replies (wk_scheduler wk) + held) (drop_envelopes es w)"
    by (rule acct_drop_envelopes)
qed

lemma wk_core_log: "wk_core cur held wk w \<Longrightarrow> wk_core cur held wk (log_event ev w)"
  by (rule wk_core_shared) (auto simp: wk_core_def cells_ok_def controls_ok_def)

lemma wk_core_call:
  assumes core: "wk_core cur (queue_replies [\<lparr>env_actor_id = i, env_dispatch = f\<rparr>] + held) wk w"
    and d: "call_dispatch cls f act ctx w = (res, act', ctx', w')" and nb: "\<forall>q. res \<noteq> Inl (Blocking q)"
  shows "wk_core cur held wk w'"
proof (rule wk_core_world[OF core call_dispatch_infra[OF d]])
  show "only_messages w'" using call_dispatch_messages[OF d] core by (simp add: wk_core_def)
  have "acct (queue_replies [\<lparr>env_actor_id = i, env_dispatch = f\<rparr>] + (mailbox_replies (wk_scheduler wk) + held)) w"
    using core by (simp add: wk_core_def ac_simps)
  from call_dispatch_acct[where e = "\<lparr>env_actor_id = i, env_dispatch = f\<rparr>", unfolded envelope.select_convs, OF d this] nb
  show "acct (mailbox_replies (wk_scheduler wk) + held) w'"
    by (auto split: sum.splits fault.splits)
qed

lemma wk_core_forget:
  assumes "wk_core cur held wk w" and "forget_actor i wk w = (wk', w')"
  shows "wk_core cur held wk' w'" and "worker_idx wk' = worker_idx wk" and "wk_place wk' = wk_place wk"
    and "shared w' = shared w" and "log w' = log w" and "chans w' = chans w"
proof -
  let ?s = "wk_scheduler wk"
  have wf: "hm_wf (mailboxes ?s)" using assms(1) by (simp add: wk_core_def sched_inv_def)
  have wk': "wk' = wk\<lparr>wk_scheduler := sched_remove_actor i ?s\<rparr>" "w' = drop_envelopes (mailbox ?s i) w"
    using assms(2) by (simp_all add: forget_actor_def)
  have "wk_core cur (queue_replies (mailbox ?s i) + held) (wk\<lparr>wk_scheduler := sched_remove_actor i ?s\<rparr>) w"
    using assms(1) mailbox_replies_remove[OF wf, of i]
    by (auto simp: wk_core_def wk_chan_def ac_simps intro: sched_inv_remove_actor split: if_splits)
  from wk_core_drop[OF this] show "wk_core cur held wk' w'" by (simp add: wk')
  show "worker_idx wk' = worker_idx wk" "wk_place wk' = wk_place wk" "shared w' = shared w" "log w' = log w"
    "chans w' = chans w"
    by (simp_all add: wk')
qed

lemma wk_core_stop_cell:
  assumes core: "wk_core cur held wk w" and cell: "cell_ok cell"
    and r: "stop_cell cls i cell wk w = (r, wk', w')" and nb: "\<forall>q. r \<noteq> Inl (Blocking q)"
  shows "wk_core cur held wk' w'" and "worker_idx wk' = worker_idx wk" and "wk_place wk' = wk_place wk"
proof -
  obtain res act' ctx' w1 where d: "call_dispatch cls (on_stop cell) (actor cell)
      (context_with_spawner i (worker_idx wk)) w = (res, act', ctx', w1)" by (metis prod_cases4)
  have "queue_replies [\<lparr>env_actor_id = i, env_dispatch = on_stop cell\<rparr>] = {#}"
    using cell by (simp add: cell_ok_def reply_of_def)
  then have "wk_core cur (queue_replies [\<lparr>env_actor_id = i, env_dispatch = on_stop cell\<rparr>] + held) wk w"
    using core by simp
  from wk_core_call[OF this d] nb r d have c: "wk_core cur held wk w1"
    by (auto simp: stop_cell_def split: sum.splits)
  have f: "(r = Inl f \<and> wk' = wk \<and> w' = w1) \<or> forget_actor i wk w1 = (wk', w')" if "res = Inl f \<or> res = Inr ()" for f
    using r d that by (auto simp: stop_cell_def split: prod.splits)
  obtain f where "res = Inl f \<or> res = Inr ()" by (cases res) auto
  with f[OF this] c wk_core_forget[OF c] show "wk_core cur held wk' w'" "worker_idx wk' = worker_idx wk"
    "wk_place wk' = wk_place wk" by blast+
qed

lemma wk_core_map_insert:
  assumes "wk_core cur held wk w" and "cell_ok cell"
  shows "wk_core cur held wk (map_insert wk i cell w)"
proof (rule wk_core_shared[OF assms(1)])
  show "cells_ok (map_insert wk i cell w)"
    by (rule cells_ok_insert[where w = w and cell = cell and n = "worker_idx wk" and i = i])
      (use assms in \<open>simp_all add: wk_core_def\<close>)
  show "controls_ok (map_insert wk i cell w)"
    using assms(1) by (simp add: wk_core_def controls_ok_def)
qed simp_all

lemma wk_core_map_remove:
  assumes "wk_core cur held wk w"
  shows "wk_core cur held wk (snd (shared_remove_actor i (worker_idx wk) w))"
proof (rule wk_core_shared[OF assms])
  show "cells_ok (snd (shared_remove_actor i (worker_idx wk) w))"
    by (rule cells_ok_remove[where w = w and n = "worker_idx wk" and i = i])
      (use assms in \<open>simp_all add: wk_core_def\<close>)
  show "controls_ok (snd (shared_remove_actor i (worker_idx wk) w))"
    using assms by (simp add: wk_core_def controls_ok_def)
qed simp_all

lemma wk_core_cell:
  "wk_core cur held wk w \<Longrightarrow> hm_get (actor_maps (shared w) ! worker_idx wk) i = Some cell \<Longrightarrow> cell_ok cell"
  by (auto simp: wk_core_def cells_ok_def)

lemma cell_ok_actor: "cell_ok cell \<Longrightarrow> any_type act = any_type (actor cell) \<Longrightarrow> cell_ok (cell\<lparr>actor := act\<rparr>)"
  by (simp add: cell_ok_def)

text \<open>The branches of a dispatch.\<close>

lemma worker_dispatch_E:
  assumes "worker_dispatch cls e wk w = (r, wk', w')"
  obtains (Absent) w1 where "shared_remove_actor (env_actor_id e) (worker_idx wk) w = (None, w1)"
      "r = Inr ()" "wk' = wk" "w' = drop_envelope e w1"
  | (Kept) cell w1 act' ctx' w2 where "shared_remove_actor (env_actor_id e) (worker_idx wk) w = (Some cell, w1)"
      "call_dispatch cls (env_dispatch e) (actor cell) (context_with_spawner (env_actor_id e) (worker_idx wk)) w1
         = (Inr (), act', ctx', w2)" "ctx_running ctx'"
      "r = Inr ()" "wk' = wk" "w' = map_insert wk (env_actor_id e) (cell\<lparr>actor := act'\<rparr>) w2"
  | (Stopped) cell w1 act' ctx' w2 where "shared_remove_actor (env_actor_id e) (worker_idx wk) w = (Some cell, w1)"
      "call_dispatch cls (env_dispatch e) (actor cell) (context_with_spawner (env_actor_id e) (worker_idx wk)) w1
         = (Inr (), act', ctx', w2)" "\<not> ctx_running ctx'"
      "stop_cell cls (env_actor_id e) (cell\<lparr>actor := act'\<rparr>) wk w2 = (r, wk', w')"
  | (Panicked) cell w1 p act' ctx' w2 where "shared_remove_actor (env_actor_id e) (worker_idx wk) w = (Some cell, w1)"
      "call_dispatch cls (env_dispatch e) (actor cell) (context_with_spawner (env_actor_id e) (worker_idx wk)) w1
         = (Inl (Panicking p), act', ctx', w2)"
      "stop_cell cls (env_actor_id e) (cell\<lparr>actor := act'\<rparr>) wk
         (log_event (EvPanicked (env_actor_id e) (panic_reason p)) w2) = (r, wk', w')"
  | (Blocked) q where "r = Inl (Blocking q)"
proof -
  obtain co w1 where s: "shared_remove_actor (env_actor_id e) (worker_idx wk) w = (co, w1)" by fastforce
  show ?thesis
  proof (cases co)
    case None
    with s assms show ?thesis by (intro Absent) (auto simp: worker_dispatch_def Let_def)
  next
    case (Some cell)
    obtain res act' ctx' w2 where d: "call_dispatch cls (env_dispatch e) (actor cell)
        (context_with_spawner (env_actor_id e) (worker_idx wk)) w1 = (res, act', ctx', w2)"
      by (metis prod_cases4)
    show ?thesis
    proof (cases res)
      case (Inr u)
      with s Some d assms show ?thesis
        by (cases "ctx_running ctx'") (auto simp: worker_dispatch_def Let_def intro: Kept Stopped)
    next
      case (Inl f)
      with s Some d assms show ?thesis
        by (cases f) (auto simp: worker_dispatch_def Let_def intro: Panicked Blocked)
    qed
  qed
qed

lemma wk_core_map_removeD:
  "wk_core cur held wk w \<Longrightarrow> shared_remove_actor i (worker_idx wk) w = (co, w1) \<Longrightarrow>
   wk_core cur held wk w1 \<and> (\<forall>cell. co = Some cell \<longrightarrow> cell_ok cell)"
  using wk_core_map_remove[of cur held wk w i] wk_core_cell[of cur held wk w i]
    shared_remove_simps(1)[of i "worker_idx wk" w] by auto

lemma wk_core_dispatch:
  assumes core: "wk_core cur (queue_replies [e] + held) wk w"
    and r: "worker_dispatch cls e wk w = (r, wk', w')" and nb: "\<forall>q. r \<noteq> Inl (Blocking q)"
  shows "wk_core cur held wk' w' \<and> worker_idx wk' = worker_idx wk \<and> wk_place wk' = wk_place wk"
proof -
  have e: "queue_replies [e] = queue_replies [\<lparr>env_actor_id = env_actor_id e, env_dispatch = env_dispatch e\<rparr>]"
    by (simp add: reply_of_def)
  have ok: "cell_ok (cell\<lparr>actor := act'\<rparr>)"
    if "shared_remove_actor (env_actor_id e) (worker_idx wk) w = (Some cell, w1)"
      "call_dispatch cls (env_dispatch e) (actor cell) ctx w1 = (res, act', ctx', w2)" for cell w1 ctx res act' ctx' w2
    using wk_core_map_removeD[OF core that(1)] call_dispatch_type[OF that(2)] by (intro cell_ok_actor) auto
  have call: "wk_core cur held wk w2"
    if "shared_remove_actor (env_actor_id e) (worker_idx wk) w = (Some cell, w1)"
      "call_dispatch cls (env_dispatch e) (actor cell) ctx w1 = (res, act', ctx', w2)" "\<forall>q. res \<noteq> Inl (Blocking q)"
    for cell w1 ctx res act' ctx' w2
    using wk_core_map_removeD[OF core that(1)] e by (intro wk_core_call[where i = "env_actor_id e", OF _ that(2,3)]) simp
  from r show ?thesis
  proof (cases rule: worker_dispatch_E)
    case (Absent w1)
    with wk_core_drop[of cur "[e]" held wk w1] wk_core_map_removeD[OF core Absent(1)] show ?thesis by simp
  next
    case (Kept cell w1 act' ctx' w2)
    with wk_core_map_insert[OF call[OF Kept(1,2)] ok[OF Kept(1,2)]] show ?thesis by simp
  next
    case (Stopped cell w1 act' ctx' w2)
    with wk_core_stop_cell[OF call[OF Stopped(1,2)] ok[OF Stopped(1,2)] Stopped(4) nb] show ?thesis by simp
  next
    case (Panicked cell w1 p act' ctx' w2)
    with wk_core_stop_cell[OF wk_core_log[OF call[OF Panicked(1,2)]] ok[OF Panicked(1,2)] Panicked(3) nb]
    show ?thesis by simp
  next
    case (Blocked q)
    with nb show ?thesis by blast
  qed
qed

section \<open>Removing actors and ending\<close>

lemma wk_core_remove_actor:
  assumes core: "wk_core cur held wk w" and r: "worker_remove_actor cls i wk w = (r, wk', w')"
    and nb: "\<forall>q. r \<noteq> Inl (Blocking q)"
  shows "wk_core cur held wk' w' \<and> worker_idx wk' = worker_idx wk \<and> wk_place wk' = wk_place wk"
proof -
  obtain co w1 where s: "shared_remove_actor i (worker_idx wk) w = (co, w1)" by fastforce
  note c = wk_core_map_removeD[OF core s]
  show ?thesis
  proof (cases co)
    case None
    with r s have "forget_actor i wk w1 = (wk', w')" by (simp add: worker_remove_actor_def)
    with wk_core_forget[OF _ this] c show ?thesis by blast
  next
    case (Some cell)
    with r s have "stop_cell cls i cell wk w1 = (r, wk', w')" by (simp add: worker_remove_actor_def)
    with wk_core_stop_cell[OF _ _ this nb] c Some show ?thesis by blast
  qed
qed

lemma wk_core_remove_all:
  "wk_core cur held wk w \<Longrightarrow> worker_remove_all cls is wk w = (r, wk', w') \<Longrightarrow> \<forall>q. r \<noteq> Inl (Blocking q) \<Longrightarrow>
   wk_core cur held wk' w' \<and> worker_idx wk' = worker_idx wk"
proof (induction "is" arbitrary: wk w)
  case (Cons i "is")
  obtain r1 wk1 w1 where d: "worker_remove_actor cls i wk w = (r1, wk1, w1)" by (metis prod_cases3)
  have nb: "\<forall>q. r1 \<noteq> Inl (Blocking q)" using Cons.prems(2,3) d by (auto split: sum.splits)
  note c = wk_core_remove_actor[OF Cons.prems(1) d nb]
  show ?case
  proof (cases r1)
    case (Inl f)
    with Cons.prems(2) d c show ?thesis by auto
  next
    case (Inr u)
    with Cons.prems(2) d have "worker_remove_all cls is wk1 w1 = (r, wk', w')" by simp
    with Cons.IH[OF _ this Cons.prems(3)] c show ?thesis by simp
  qed
qed simp

text \<open>Dropping a receiver hands the replies of what is queued to whoever drops it.\<close>

lemma acct_close:
  assumes "acct held w" and "c < length (chans w)"
  shows "acct (queue_replies (chan_queue (chan_at w c)) + held) (upd_chan c (\<lambda>ch. snd (chan_drop_rx ch)) w)"
proof -
  have "owed w = owed (upd_chan c (\<lambda>ch. snd (chan_drop_rx ch)) w) + queue_replies (chan_queue (chan_at w c))"
    by (rule owed_append[where c = c]) (use assms(2) in \<open>simp_all add: chan_drop_rx_def\<close>)
  with assms(1) show ?thesis by (simp add: acct_def ac_simps)
qed

lemma control_frame:
  "acct held (fold drop_control_msg ms w) = acct held w" "acct held (set_control wk c w) = acct held w"
  "only_messages (fold drop_control_msg ms w) = only_messages w"
  "only_messages (set_control wk c w) = only_messages w" "acct held (confirm_send k w) = acct held w"
  by (simp_all add: only_messages_def cong: acct_frame)

lemma controls_ok_tail:
  assumes "controls_ok w" and "set (chan_queue c) \<subseteq> set (chan_queue (wk_control wk w))"
  shows "controls_ok (set_control wk c w)"
  using assms by (fastforce simp: controls_ok_def nth_list_update_lt wk_control_def split: if_splits)

lemma wk_core_set_control:
  assumes "wk_core cur held wk w" and "set (chan_queue c) \<subseteq> set (chan_queue (wk_control wk w))"
  shows "wk_core cur held wk (set_control wk c w)"
proof (rule wk_core_shared[OF assms(1)])
  show "cells_ok (set_control wk c w)" using assms(1) by (simp add: wk_core_def cells_ok_def)
  show "controls_ok (set_control wk c w)"
    using assms by (intro controls_ok_tail) (simp add: wk_core_def)
qed simp_all

lemma wk_core_end:
  assumes core: "wk_core cur held wk w" and r: "worker_end place wk w = (wk', w')"
  shows "wk_core None held wk' w'" and "worker_idx wk' = worker_idx wk" and "wk_place wk' = place"
    and "wk_closed wk' w'" and "log w' = log w" and "actor_maps (shared w') = actor_maps (shared w)"
proof -
  define w1 where "w1 = fold drop_control_msg (chan_queue (wk_control wk w))
      (set_control wk (snd (chan_drop_rx (wk_control wk w))) w)"
  define c where "c = wk_chan wk w1"
  define w2 where "w2 = upd_chan c (\<lambda>ch. snd (chan_drop_rx ch)) w1"
  have wk': "wk' = wk\<lparr>wk_scheduler := sched_new, wk_place := place\<rparr>"
    and w': "w' = drop_envelopes (concat (map snd (mailboxes (wk_scheduler wk)))) (drop_envelopes (chan_queue (chan_at w1 c)) w2)"
    using r by (simp_all add: worker_end_def Let_def w1_def c_def w2_def)
  show "worker_idx wk' = worker_idx wk" "wk_place wk' = place" by (simp_all add: wk')
  define w0 where "w0 = set_control wk (snd (chan_drop_rx (wk_control wk w))) w"
  have c0: "wk_core cur held wk w0"
    unfolding w0_def by (rule wk_core_set_control[OF core]) (simp add: chan_drop_rx_def)
  have f: "shared w1 = shared w0" "chans w1 = chans w0" "replies w1 = replies w0"
    by (simp_all add: w1_def w0_def)
  have c1: "wk_core cur held wk w1"
    by (rule wk_core_shared[OF c0 f(2,3)])
      (use c0 in \<open>simp_all add: f(1) wk_core_def cells_ok_def controls_ok_def\<close>)
  have lt: "c < length (chans w1)" using c1 by (simp add: wk_core_def c_def)
  have q2: "set (chan_queue (chan_at w2 d)) \<subseteq> set (chan_queue (chan_at w1 d))" for d
    by (simp add: w2_def chan_drop_rx_def)
  have "acct (queue_replies (chan_queue (chan_at w1 c)) + (mailbox_replies (wk_scheduler wk) + held)) w2"
    using c1 lt unfolding w2_def by (intro acct_close) (simp_all add: wk_core_def)
  then have "acct (mailbox_replies (wk_scheduler wk) + held) (drop_envelopes (chan_queue (chan_at w1 c)) w2)"
    by (rule acct_drop_envelopes)
  then have a: "acct held w'"
    unfolding w' mailbox_replies_def by (rule acct_drop_envelopes)
  have m: "only_messages w'"
  proof (rule only_messages_frame[of _ w1])
    show "set (chan_queue (chan_at w' d)) \<subseteq> set (chan_queue (chan_at w1 d))" for d
      using q2 by (simp add: w')
  qed (use c1 in \<open>simp add: wk_core_def\<close>)
  have sh: "shared w' = shared w1" "length (chans w') = length (chans w1)" by (simp_all add: w' w2_def)
  show "wk_core None held wk' w'"
    using c1 a m sh unfolding wk'
    by (simp add: wk_core_def cells_ok_def controls_ok_def wk_chan_def sched_inv_new)
  show "wk_closed wk' w'"
    using lt unfolding wk_closed_def wk' w' by (simp add: wk_chan_def sh(1)[unfolded w'])
      (simp add: w2_def c_def wk_chan_def chan_drop_rx_def)
  show "log w' = log w" "actor_maps (shared w') = actor_maps (shared w)"
    by (simp_all add: w' w2_def w1_def)
qed

section \<open>One step\<close>

definition wk_inv :: "nat multiset \<Rightarrow> 'v worker \<Rightarrow> ('v, 'e) world \<Rightarrow> bool" where
  "wk_inv held wk w \<longleftrightarrow> wk_core None held wk w \<and> (wk_ended wk \<longrightarrow> wk_closed wk w)"

text \<open>What other workers see of a step: only this worker's own channels may close or be read.\<close>

definition others_kept :: "'v worker \<Rightarrow> ('v, 'e) world \<Rightarrow> ('v, 'e) world \<Rightarrow> bool" where
  "others_kept wk w w' \<longleftrightarrow>
     length (chans w') = length (chans w) \<and> msg_txs (shared w') = msg_txs (shared w)
   \<and> length (control_txs (shared w')) = length (control_txs (shared w))
   \<and> length (actor_maps (shared w')) = length (actor_maps (shared w))
   \<and> num_workers (shared w') = num_workers (shared w)
   \<and> (\<forall>c. c \<noteq> wk_chan wk w \<longrightarrow> chan_open (chan_at w' c) = chan_open (chan_at w c)
        \<and> (\<not> chan_open (chan_at w c) \<longrightarrow> chan_queue (chan_at w' c) = chan_queue (chan_at w c)))"

lemma others_kept_refl [simp]: "others_kept wk w w"
  by (simp add: others_kept_def)

lemma others_kept_trans:
  "others_kept wk w w' \<Longrightarrow> others_kept wk' w' w'' \<Longrightarrow> worker_idx wk' = worker_idx wk \<Longrightarrow> others_kept wk w w''"
  by (simp add: others_kept_def wk_chan_def)

lemma others_kept_infra: "infra w w' \<Longrightarrow> others_kept wk w w'"
  by (simp add: others_kept_def infra_def)

lemma others_kept_shared:
  assumes "chans w' = chans w" and "msg_txs (shared w') = msg_txs (shared w)"
    and "length (control_txs (shared w')) = length (control_txs (shared w))"
    and "length (actor_maps (shared w')) = length (actor_maps (shared w))"
    and "num_workers (shared w') = num_workers (shared w)"
  shows "others_kept wk w w'"
  using assms by (simp add: others_kept_def chan_at_def)

lemma others_kept_own:
  assumes "shared w' = shared w" and "length (chans w') = length (chans w)"
    and "\<And>c. c \<noteq> wk_chan wk w \<Longrightarrow> chan_at w' c = chan_at w c"
  shows "others_kept wk w w'"
  using assms by (simp add: others_kept_def)

lemma stop_cell_kept:
  assumes "stop_cell cls i cell wk w = (r, wk', w')"
  shows "others_kept wk w w'" and "worker_idx wk' = worker_idx wk"
proof -
  obtain res act' ctx' w1 where d: "call_dispatch cls (on_stop cell) (actor cell)
      (context_with_spawner i (worker_idx wk)) w = (res, act', ctx', w1)" by (metis prod_cases4)
  have "others_kept wk w1 (drop_envelopes es w1)" for es
    by (rule others_kept_shared) simp_all
  from others_kept_trans[OF others_kept_infra[OF call_dispatch_infra[OF d]] this]
    others_kept_infra[OF call_dispatch_infra[OF d]]
  show "others_kept wk w w'" "worker_idx wk' = worker_idx wk"
    using assms d by (auto simp: stop_cell_def forget_actor_def split: sum.splits)
qed

lemma shared_remove_kept: "shared_remove_actor i n w = (co, w1) \<Longrightarrow> others_kept wk w w1"
  using shared_remove_simps[of i n w] by (intro others_kept_shared) auto

lemma worker_dispatch_kept:
  assumes "worker_dispatch cls e wk w = (r, wk', w')" and "\<forall>q. r \<noteq> Inl (Blocking q)"
  shows "others_kept wk w w' \<and> worker_idx wk' = worker_idx wk"
  using assms(1)
proof (cases rule: worker_dispatch_E)
  case (Absent w1)
  have "others_kept wk w1 (drop_envelope e w1)" by (rule others_kept_shared) simp_all
  with Absent others_kept_trans[OF shared_remove_kept[OF Absent(1)] this] show ?thesis by simp
next
  case (Kept cell w1 act' ctx' w2)
  have "others_kept wk w2 w'" unfolding Kept(6) by (rule others_kept_shared) simp_all
  from others_kept_trans[OF shared_remove_kept[OF Kept(1)]
      others_kept_trans[OF others_kept_infra[OF call_dispatch_infra[OF Kept(2)]] this refl] refl] Kept(5)
  show ?thesis by simp
next
  case (Stopped cell w1 act' ctx' w2)
  note s = stop_cell_kept[OF Stopped(4)]
  from others_kept_trans[OF shared_remove_kept[OF Stopped(1)]
      others_kept_trans[OF others_kept_infra[OF call_dispatch_infra[OF Stopped(2)]] s(1) refl] refl] s(2)
  show ?thesis by simp
next
  case (Panicked cell w1 p act' ctx' w2)
  note s = stop_cell_kept[OF Panicked(3)]
  have "others_kept wk w2 w'"
    by (rule others_kept_trans[OF _ s(1)]) (auto intro: others_kept_shared)
  from others_kept_trans[OF shared_remove_kept[OF Panicked(1)]
      others_kept_trans[OF others_kept_infra[OF call_dispatch_infra[OF Panicked(2)]] this refl] refl] s(2)
  show ?thesis by simp
next
  case (Blocked q)
  with assms(2) show ?thesis by blast
qed

lemma worker_remove_all_kept:
  "worker_remove_all cls is wk w = (r, wk', w') \<Longrightarrow> others_kept wk w w' \<and> worker_idx wk' = worker_idx wk"
proof (induction "is" arbitrary: wk w)
  case (Cons i "is")
  obtain r1 wk1 w1 where d: "worker_remove_actor cls i wk w = (r1, wk1, w1)" by (metis prod_cases3)
  obtain co w0 where s: "shared_remove_actor i (worker_idx wk) w = (co, w0)" by fastforce
  have "others_kept wk w0 w1 \<and> worker_idx wk1 = worker_idx wk"
    using d s stop_cell_kept
    by (auto simp: worker_remove_actor_def forget_actor_def intro: others_kept_shared split: option.splits)
  with others_kept_trans[OF shared_remove_kept[OF s]]
  have k: "others_kept wk w w1" "worker_idx wk1 = worker_idx wk" by blast+
  show ?case
  proof (cases r1)
    case (Inl f)
    with Cons.prems d k show ?thesis by auto
  next
    case (Inr u)
    with Cons.prems d have "worker_remove_all cls is wk1 w1 = (r, wk', w')" by simp
    with Cons.IH[OF this] k show ?thesis by (auto intro: others_kept_trans)
  qed
qed simp

lemma worker_end_kept:
  assumes "worker_end place wk w = (wk', w')"
  shows "others_kept wk w w'" and "worker_idx wk' = worker_idx wk"
  using assms by (auto simp: worker_end_def Let_def others_kept_def wk_chan_def)

lemma end_step_inv:
  assumes e: "end_step (r, wk, w) cont = (wk', w')"
    and core: "wk_core cur held wk w"
    and cont: "r = Inr () \<Longrightarrow> wk_core None held (cont wk) w \<and> \<not> wk_ended (cont wk) \<and> worker_idx (cont wk) = worker_idx wk"
    and nb: "\<forall>q. wk_place wk' \<noteq> Blocked_on q"
  shows "wk_inv held wk' w' \<and> others_kept wk w w' \<and> worker_idx wk' = worker_idx wk"
proof (cases r)
  case (Inr u)
  with e cont show ?thesis by (auto simp: end_step_def wk_inv_def)
next
  case (Inl f)
  show ?thesis
  proof (cases f)
    case (Panicking p)
    with e Inl have "worker_end (Unwound_by p) wk w = (wk', w')" by (simp add: end_step_def)
    with wk_core_end[OF core this] worker_end_kept[OF this] show ?thesis by (simp add: wk_inv_def)
  next
    case (Blocking q)
    with e Inl nb show ?thesis by (auto simp: end_step_def)
  qed
qed

text \<open>Reading the worker's own message channel into its scheduler.\<close>

lemma wk_core_recv:
  assumes core: "wk_core None held wk w" and r: "chan_try_recv (chan_at w (wk_chan wk w)) = (Received e, c)"
  shows "wk_core None held (wk\<lparr>wk_scheduler := enqueue e (wk_scheduler wk), wk_place := pl\<rparr>)
    (upd_chan (wk_chan wk w) (\<lambda>_. c) w)"
proof -
  let ?c = "wk_chan wk w" and ?w' = "upd_chan (wk_chan wk w) (\<lambda>_. c) w"
  obtain es where q: "chan_queue (chan_at w ?c) = e # es" and c: "c = (chan_at w ?c)\<lparr>chan_queue := es\<rparr>"
    using r by (auto simp: chan_try_recv_def split: list.splits if_splits)
  have lt: "?c < length (chans w)" using core by (simp add: wk_core_def)
  have o: "owed w = queue_replies [e] + owed ?w'"
    by (rule owed_pop[OF q]) (use lt in \<open>simp_all add: c\<close>)
  have m: "is_message e" using core q by (metis list.set_intros(1) only_messages_def wk_core_def)
  have om: "only_messages ?w'"
    by (rule only_messages_frame[of _ w]) (use core q in \<open>auto simp: wk_core_def c\<close>)
  have a: "acct (mailbox_replies (enqueue e (wk_scheduler wk)) + held) ?w'"
  proof -
    have "acct (mailbox_replies (wk_scheduler wk) + held) w" using core by (simp add: wk_core_def)
    then show ?thesis by (simp add: acct_def mailbox_replies_enqueue o ac_simps)
  qed
  have "sched_inv None (enqueue e (wk_scheduler wk))" using core by (simp add: wk_core_def sched_inv_enqueue)
  with core m om a show ?thesis
    by (auto simp: wk_core_def cells_ok_def controls_ok_def wk_chan_def)
qed

lemma recv_not_Received:
  assumes "chan_try_recv (chan_at w d) = (r, c)" and "\<And>e. r \<noteq> Received e"
  shows "upd_chan d (\<lambda>_. c) w = w"
proof -
  have "c = chan_at w d" using assms by (auto simp: chan_try_recv_def split: list.splits if_splits)
  then show ?thesis
    by (simp add: upd_chan_def chan_at_def) (metis list_update_beyond list_update_id not_less
        world.surjective world.update_convs(1))
qed

lemma wk_core_place [simp]: "wk_core cur held (wk\<lparr>wk_place := pl\<rparr>) w = wk_core cur held wk w"
  by (simp add: wk_core_def wk_chan_def)

lemma wk_core_confirm:
  assumes "wk_core cur held wk w"
  shows "wk_core cur held wk (confirm_send k w)"
  by (rule wk_core_shared[OF assms])
    (use assms in \<open>simp_all add: wk_core_def cells_ok_def controls_ok_def\<close>)

lemma step_control_inv:
  assumes core: "wk_core None held wk w" and pl: "\<not> wk_ended wk" and r: "step_control wk w = (wk', w')"
  shows "wk_core None held wk' w' \<and> \<not> wk_ended wk' \<and> others_kept wk w w' \<and> worker_idx wk' = worker_idx wk"
proof -
  obtain rc c where rc: "chan_try_recv (wk_control wk w) = (rc, c)" by fastforce
  have sub: "set (chan_queue c) \<subseteq> set (chan_queue (wk_control wk w))"
    using rc by (auto simp: chan_try_recv_def split: list.splits if_splits)
  note sc = wk_core_set_control[OF core sub]
  have k: "others_kept wk w (set_control wk c w)" by (rule others_kept_shared) simp_all
  show ?thesis
  proof (cases "\<exists>i act stop k. rc = Received (SpawnActor i act stop k)")
    case True
    then obtain i act stop n where m: "rc = Received (SpawnActor i act stop n)" by blast
    then have "SpawnActor i act stop n \<in> set (chan_queue (wk_control wk w))"
      using rc by (auto simp: chan_try_recv_def split: list.splits if_splits)
    then have "stop = OnStopFn (any_type act)"
      using core unfolding wk_core_def controls_ok_def wk_control_def by blast
    then have "wk_core None held wk (map_insert wk i \<lparr>actor = act, on_stop = stop\<rparr> (set_control wk c w))"
      using sc by (intro wk_core_map_insert) (simp_all add: cell_ok_def)
    then have "wk_core None held wk (confirm_send n (map_insert wk i \<lparr>actor = act, on_stop = stop\<rparr> (set_control wk c w)))"
      by (rule wk_core_confirm)
    moreover have "others_kept wk w (confirm_send n (map_insert wk i \<lparr>actor = act, on_stop = stop\<rparr> (set_control wk c w)))"
      by (rule others_kept_shared) simp_all
    moreover have "wk' = wk"
      "w' = confirm_send n (map_insert wk i \<lparr>actor = act, on_stop = stop\<rparr> (set_control wk c w))"
      using r rc m by (auto simp: step_control_def)
    ultimately show ?thesis using pl by simp
  next
    case False
    then have "w' = set_control wk c w" "\<exists>pl'. wk' = wk\<lparr>wk_place := pl'\<rparr> \<and> (pl' = Stopping \<or> pl' = At_drain)"
      using r rc by (auto simp: step_control_def split: recv.splits control_msg.splits)
    with sc k show ?thesis by (auto simp: wk_ended_def)
  qed
qed

lemma own_recv_kept: "others_kept wk w (upd_chan (wk_chan wk w) f w)"
  by (rule others_kept_own) simp_all

lemma step_drain_inv:
  assumes core: "wk_core None held wk w" and pl: "\<not> wk_ended wk" and r: "step_drain wk w = (wk', w')"
  shows "wk_core None held wk' w' \<and> \<not> wk_ended wk' \<and> others_kept wk w w' \<and> worker_idx wk' = worker_idx wk"
proof -
  obtain rc c where rc: "chan_try_recv (chan_at w (wk_chan wk w)) = (rc, c)" by fastforce
  show ?thesis
  proof (cases "\<exists>e. rc = Received e")
    case True
    with r rc wk_core_recv[OF core, of _ c "wk_place wk"] pl own_recv_kept[of wk w] show ?thesis
      by (auto simp: step_drain_def wk_ended_def)
  next
    case False
    then have "upd_chan (wk_chan wk w) (\<lambda>_. c) w = w" using recv_not_Received[OF rc] by blast
    with False r rc core show ?thesis
      by (auto simp: step_drain_def wk_ended_def split: recv.splits)
  qed
qed

lemma step_recv_inv:
  assumes core: "wk_core None held wk w" and r: "step_recv wk w = (wk', w')"
  shows "wk_core None held wk' w' \<and> \<not> wk_ended wk' \<and> others_kept wk w w' \<and> worker_idx wk' = worker_idx wk"
proof -
  obtain rc c where rc: "chan_try_recv (chan_at w (wk_chan wk w)) = (rc, c)" by fastforce
  show ?thesis
  proof (cases "\<exists>e. rc = Received e")
    case True
    with r rc wk_core_recv[OF core, of _ c At_control] own_recv_kept[of wk w] show ?thesis
      by (auto simp: step_recv_def wk_ended_def)
  next
    case False
    then have "upd_chan (wk_chan wk w) (\<lambda>_. c) w = w" using recv_not_Received[OF rc] by blast
    with False r rc core show ?thesis
      by (auto simp: step_recv_def wk_ended_def split: recv.splits)
  qed
qed

text \<open>A scheduling turn: the envelope leaves the mailbox and is dispatched.\<close>

lemma wk_core_take:
  assumes core: "wk_core None held wk w" and q: "ready_queue (wk_scheduler wk) = i # q"
  obtains e s1 s2 where "next_ready (wk_scheduler wk) = (Some i, s1)" "dequeue i s1 = (Some e, s2)"
    "mailbox (wk_scheduler wk) i = e # mailbox s2 i" "env_actor_id e = i" "is_message e"
    "wk_core (Some i) (queue_replies [e] + held) (wk\<lparr>wk_scheduler := s2\<rparr>) w"
proof -
  have inv: "sched_inv None (wk_scheduler wk)" using core by (simp add: wk_core_def)
  define s1 where "s1 = (wk_scheduler wk)\<lparr>ready_queue := q\<rparr>"
  have n: "next_ready (wk_scheduler wk) = (Some i, s1)"
    unfolding s1_def by (rule next_ready_Cons[OF inv q])
  have s1: "sched_inv (Some i) s1" by (rule sched_inv_next_ready[OF inv n])
  have "mailbox s1 i \<noteq> []" using inv q by (auto simp: sched_inv_def s1_def)
  then obtain e s2 where d: "dequeue i s1 = (Some e, s2)"
    using fst_dequeue[of i s1] by (cases "dequeue i s1") (auto split: list.splits)
  have s2: "sched_inv (Some i) s2" using sched_inv_dequeue[OF s1] d by simp
  have mb: "mailbox s2 j = (if j = i then tl (mailbox s1 i) else mailbox s1 j)" for j
    using mailbox_dequeue[of i s1 j] d by simp
  have "\<forall>j. \<forall>m \<in> set (mailbox s2 j). is_message m"
    using core by (auto simp: wk_core_def mb s1_def dest: in_set_tlD)
  moreover have "mailbox_replies (wk_scheduler wk) = queue_replies [e] + mailbox_replies s2"
    using mailbox_replies_dequeue[OF d] by (simp add: s1_def)
  ultimately have c2: "wk_core (Some i) (queue_replies [e] + held) (wk\<lparr>wk_scheduler := s2\<rparr>) w"
    using core s2 by (simp add: wk_core_def wk_chan_def ac_simps)
  have m: "mailbox (wk_scheduler wk) i = e # mailbox s2 i"
    using d fst_dequeue[of i s1] mb[of i] by (auto simp: s1_def split: list.splits)
  then have "e \<in> set (mailbox (wk_scheduler wk) i)" by simp
  then have "env_actor_id e = i" "is_message e" using inv core by (auto simp: sched_inv_def wk_core_def)
  then show ?thesis by (rule that[OF n d m _ _ c2])
qed

lemma step_schedule_inv:
  assumes core: "wk_core None held wk w" and r: "step_schedule cls wk w = (wk', w')"
    and nb: "\<forall>q. wk_place wk' \<noteq> Blocked_on q"
  shows "wk_inv held wk' w' \<and> others_kept wk w w' \<and> worker_idx wk' = worker_idx wk"
proof (cases "ready_queue (wk_scheduler wk)")
  case Nil
  with r core show ?thesis
    by (auto simp: step_schedule_def next_ready_Nil wk_inv_def wk_ended_def wk_core_def wk_chan_def)
next
  case (Cons i q)
  obtain e s1 s2 where n: "next_ready (wk_scheduler wk) = (Some i, s1)" and d: "dequeue i s1 = (Some e, s2)"
    and c2: "wk_core (Some i) (queue_replies [e] + held) (wk\<lparr>wk_scheduler := s2\<rparr>) w"
    by (rule wk_core_take[OF core Cons]) (rule that; assumption)
  let ?wk = "wk\<lparr>wk_scheduler := s2\<rparr>"
  obtain res wk1 w1 where ds: "worker_dispatch cls e ?wk w = (res, wk1, w1)" by (metis prod_cases3)
  let ?cont = "\<lambda>wk'. wk'\<lparr>wk_scheduler := requeue_if_ready i (wk_scheduler wk'), wk_place := At_control\<rparr>"
  have es: "end_step (res, wk1, w1) ?cont = (wk', w')"
    using r n d ds by (simp add: step_schedule_def)
  have nb1: "\<forall>q. res \<noteq> Inl (Blocking q)" using es nb by (auto simp: end_step_def)
  note c1 = wk_core_dispatch[OF c2 ds nb1]
  have cont: "wk_core None held (?cont wk1) w1 \<and> \<not> wk_ended (?cont wk1) \<and> worker_idx (?cont wk1) = worker_idx wk1"
    using c1 mailbox_replies_requeue[of "wk_scheduler wk1" i]
    by (auto simp: wk_core_def wk_ended_def wk_chan_def sched_inv_requeue) (simp add: sched_inv_def)
  from end_step_inv[OF es conjunct1[OF c1] cont nb] worker_dispatch_kept[OF ds nb1] c1
  show ?thesis by (auto simp: others_kept_def wk_chan_def)
qed

lemma step_stop_inv:
  assumes core: "wk_core None held wk w" and r: "step_stop order cls wk w = (wk', w')"
    and nb: "\<forall>q. wk_place wk' \<noteq> Blocked_on q"
  shows "wk_inv held wk' w' \<and> others_kept wk w w' \<and> worker_idx wk' = worker_idx wk"
proof -
  obtain res wk1 w1 where d: "worker_stop_all order cls wk w = (res, wk1, w1)" by (metis prod_cases3)
  have nb1: "\<forall>q. res \<noteq> Inl (Blocking q)" using r d nb by (auto simp: step_stop_def end_step_def)
  note c = wk_core_remove_all[OF core d[unfolded worker_stop_all_def] nb1]
  note k = worker_remove_all_kept[OF d[unfolded worker_stop_all_def]]
  obtain pl where e: "worker_end pl wk1 w1 = (wk', w')"
    using r d nb1 by (auto simp: step_stop_def end_step_def split: sum.splits fault.splits)
  from wk_core_end[OF conjunct1[OF c] e] worker_end_kept[OF e] c k show ?thesis
    by (auto simp: wk_inv_def intro: others_kept_trans)
qed

lemma worker_step_inv:
  assumes inv: "wk_inv held wk w" and r: "worker_step order cls wk w = (wk', w')"
    and nb: "\<forall>q. wk_place wk' \<noteq> Blocked_on q"
  shows "wk_inv held wk' w' \<and> others_kept wk w w' \<and> worker_idx wk' = worker_idx wk"
proof -
  have core: "wk_core None held wk w" using inv by (simp add: wk_inv_def)
  show ?thesis
  proof (cases "wk_place wk")
    case At_control
    with r step_control_inv[OF core, of wk' w'] show ?thesis
      by (auto simp: worker_step_def wk_inv_def wk_ended_def)
  next
    case At_drain
    with r step_drain_inv[OF core, of wk' w'] show ?thesis
      by (auto simp: worker_step_def wk_inv_def wk_ended_def)
  next
    case At_schedule
    with r step_schedule_inv[OF core _ nb] show ?thesis by (simp add: worker_step_def)
  next
    case At_recv
    with r step_recv_inv[OF core, of wk' w'] show ?thesis by (auto simp: worker_step_def wk_inv_def)
  next
    case Stopping
    with r step_stop_inv[OF core _ nb] show ?thesis by (simp add: worker_step_def)
  qed (use r inv in \<open>auto simp: worker_step_def\<close>)
qed

end
