(* ===== verification/Runtime.thy ===== *)
theory Runtime
  imports Worker_Inv
begin

text \<open>
  \<^verbatim>\<open>Runtime\<close> of \<^verbatim>\<open>src/runtime.rs\<close>: its construction, \<^verbatim>\<open>spawn\<close>, \<^verbatim>\<open>shutdown\<close>, \<^verbatim>\<open>run\<close> and its
  drop, and the steps the program can make: a worker's step, or an action of another thread
  (a spawn, a send, cloning or dropping an address, a shutdown). \<open>rt_comm\<close> is the invariant of
  all reachable states that accounts for every channel, every mailbox and every reply.
\<close>

section \<open>State and operations\<close>

record ('v, 'e) runtime =
  rt_world :: "('v, 'e) world"
  rt_workers :: "'v worker list"

definition default_worker_threads :: nat where
  "default_worker_threads = 4"

definition rt_with_threads :: "nat \<Rightarrow> 'e \<Rightarrow> fault + ('v, 'e) runtime" where
  "rt_with_threads n e =
     (if n = 0 then Inl (Panicking (PStr ''at least one worker thread is required''))
      else Inr \<lparr>rt_world =
             \<lparr>chans = replicate n chan_new, replies = [], confirms = [],
              shared = \<lparr>control_txs = replicate n chan_new, msg_txs = [0..<n],
                actor_maps = replicate n hm_new, next_id = 1, next_worker = 0, num_workers = n,
                running = True\<rparr>,
              env = e, log = []\<rparr>,
           rt_workers = map worker_new [0..<n]\<rparr>)"

definition rt_new :: "'e \<Rightarrow> fault + ('v, 'e) runtime" where
  "rt_new e = rt_with_threads default_worker_threads e"

text \<open>
  \<^verbatim>\<open>spawn\<close> up to the wait for the worker's confirmation, and after it. What the waiting
  caller knows: the id, the worker, the type and the number of the confirmation channel.
\<close>

record spawn_ticket =
  tk_id :: actor_id
  tk_worker :: nat
  tk_type :: type_id
  tk_confirm :: nat

definition rt_spawn_begin ::
  "('v, 'e) prog \<Rightarrow> type_id \<Rightarrow> 'v \<Rightarrow> ('v, 'e) runtime \<Rightarrow> (fault + spawn_ticket) \<times> ('v, 'e) runtime" where
  "rt_spawn_begin started a v rt =
     (case allocate_id (rt_world rt) of (i, w1) \<Rightarrow>
      case pick_worker w1 of (idx, w2) \<Rightarrow>
        (case exec started v (context_with_spawner i idx) (log_event (EvStarted i a) w2) of
           (Inl f, _, _, w3) \<Rightarrow> (Inl f, rt\<lparr>rt_world := w3\<rparr>)
         | (Inr _, v', _, w3) \<Rightarrow>
             (case spawn_remote_begin i idx \<lparr>any_type = a, any_val = v'\<rparr> (OnStopFn a) w3 of
                (Inl msg, w4) \<Rightarrow> (Inl (Panicking (PString msg)), rt\<lparr>rt_world := w4\<rparr>)
              | (Inr k, w4) \<Rightarrow>
                  (Inr \<lparr>tk_id = i, tk_worker = idx, tk_type = a, tk_confirm = k\<rparr>, rt\<lparr>rt_world := w4\<rparr>))))"

definition rt_spawn_finish ::
  "spawn_ticket \<Rightarrow> ('v, 'e) runtime \<Rightarrow> ((fault + addr) \<times> ('v, 'e) runtime) option" where
  "rt_spawn_finish t rt =
     (case spawn_remote_result (tk_confirm t) (tk_worker t) (rt_world rt) of
        None \<Rightarrow> None
      | Some (Inl msg, w) \<Rightarrow> Some (Inl (Panicking (PString msg)), rt\<lparr>rt_world := w\<rparr>)
      | Some (Inr tx, w) \<Rightarrow> Some (Inr (addr_new (tk_id t) tx (tk_type t)), rt\<lparr>rt_world := w\<rparr>))"

text \<open>\<^verbatim>\<open>shutdown\<close> ignores workers that are gone.\<close>

definition rt_shutdown :: "('v, 'e) runtime \<Rightarrow> ('v, 'e) runtime" where
  "rt_shutdown rt = rt\<lparr>rt_world := upd_shared (\<lambda>s. s\<lparr>control_txs :=
     map (\<lambda>c. snd (chan_send Shutdown c)) (control_txs s)\<rparr>) (rt_world rt)\<rparr>"

definition rt_num_workers :: "('v, 'e) runtime \<Rightarrow> nat" where
  "rt_num_workers rt = num_workers (shared (rt_world rt))"

text \<open>
  \<^verbatim>\<open>run\<close> sleeps, shuts down and joins: \<open>rt_join\<close> is what joining every thread gives, \<open>None\<close>
  while one still runs; \<^verbatim>\<open>expect\<close> panics if a worker thread panicked. Dropping the runtime
  joins too, but ignores how the threads ended.
\<close>

definition rt_run_begin :: "('v, 'e) runtime \<Rightarrow> ('v, 'e) runtime" where
  "rt_run_begin rt = rt_shutdown rt"

definition rt_join :: "('v, 'e) runtime \<Rightarrow> (fault + unit) option" where
  "rt_join rt =
     (if \<not> list_all wk_ended (rt_workers rt) then None
      else if list_all (\<lambda>wk. wk_place wk = Exited) (rt_workers rt) then Some (Inr ())
      else Some (Inl (Panicking (PString ''worker thread should not panic''))))"

definition rt_drop_begin :: "('v, 'e) runtime \<Rightarrow> ('v, 'e) runtime" where
  "rt_drop_begin rt = (if running (shared (rt_world rt)) then rt_shutdown rt else rt)"

definition rt_drop_end :: "('v, 'e) runtime \<Rightarrow> unit option" where
  "rt_drop_end rt =
     (if running (shared (rt_world rt)) \<and> \<not> list_all wk_ended (rt_workers rt) then None else Some ())"

section \<open>Steps\<close>

definition run_worker ::
  "(actor_id list \<Rightarrow> actor_id list) \<Rightarrow> ('v, 'e) classes \<Rightarrow> nat \<Rightarrow> ('v, 'e) runtime \<Rightarrow> ('v, 'e) runtime" where
  "run_worker order cls n rt =
     (case worker_step order cls (rt_workers rt ! n) (rt_world rt) of
        (wk, w) \<Rightarrow> \<lparr>rt_world = w, rt_workers = (rt_workers rt)[n := wk]\<rparr>)"

text \<open>
  A worker whose callback waits for a reply stays where it is: such steps are left out, as the
  crate's documentation asks of its users.
\<close>

inductive rt_step ::
  "(actor_id list \<Rightarrow> actor_id list) \<Rightarrow> ('v, 'e) classes \<Rightarrow> ('v, 'e) runtime \<Rightarrow> ('v, 'e) runtime \<Rightarrow> bool"
  for order cls where
  rt_work: "n < length (rt_workers rt) \<Longrightarrow> rt' = run_worker order cls n rt \<Longrightarrow>
     (\<forall>q. wk_place (rt_workers rt' ! n) \<noteq> Blocked_on q) \<Longrightarrow> rt_step order cls rt rt'"
| rt_spawn: "rt_spawn_begin st a v rt = (r, rt') \<Longrightarrow> rt_step order cls rt rt'"
| rt_spawned: "rt_spawn_finish t rt = Some (r, rt') \<Longrightarrow> rt_step order cls rt rt'"
| rt_send: "rt_step order cls rt (rt\<lparr>rt_world := snd (addr_send_begin adr m (rt_world rt))\<rparr>)"
| rt_do_send: "rt_step order cls rt (rt\<lparr>rt_world := snd (addr_do_send adr m (rt_world rt))\<rparr>)"
| rt_clone: "rt_step order cls rt (rt\<lparr>rt_world := snd (addr_clone adr (rt_world rt))\<rparr>)"
| rt_drop: "rt_step order cls rt (rt\<lparr>rt_world := addr_drop adr (rt_world rt)\<rparr>)"
| rt_env: "rt_step order cls rt (rt\<lparr>rt_world := (rt_world rt)\<lparr>env := e\<rparr>\<rparr>)"
| rt_stop: "rt_step order cls rt (rt_shutdown rt)"

inductive rt_steps ::
  "(actor_id list \<Rightarrow> actor_id list) \<Rightarrow> ('v, 'e) classes \<Rightarrow> ('v, 'e) runtime \<Rightarrow> ('v, 'e) runtime \<Rightarrow> bool"
  for order cls where
  rt_refl: "rt_steps order cls rt rt"
| rt_trans: "rt_steps order cls rt rt' \<Longrightarrow> rt_step order cls rt' rt'' \<Longrightarrow> rt_steps order cls rt rt''"

section \<open>Every channel, mailbox and reply\<close>

text \<open>The replies held in the mailboxes of all workers but number \<open>n\<close>.\<close>

definition held_by :: "'v worker list \<Rightarrow> nat multiset" where
  "held_by wks = (\<Sum>wk\<leftarrow>wks. mailbox_replies (wk_scheduler wk))"

definition rt_shape :: "('v, 'e) runtime \<Rightarrow> bool" where
  "rt_shape rt \<longleftrightarrow> (let w = rt_world rt; n = length (rt_workers rt) in
     n > 0 \<and> length (chans w) = n \<and> msg_txs (shared w) = [0..<n] \<and> length (control_txs (shared w)) = n
   \<and> length (actor_maps (shared w)) = n \<and> num_workers (shared w) = n
   \<and> (\<forall>k < n. worker_idx (rt_workers rt ! k) = k))"

definition wk_good :: "'v worker \<Rightarrow> ('v, 'e) world \<Rightarrow> bool" where
  "wk_good wk w \<longleftrightarrow> sched_inv None (wk_scheduler wk)
   \<and> (\<forall>i. \<forall>e \<in> set (mailbox (wk_scheduler wk) i). is_message e) \<and> (wk_ended wk \<longrightarrow> wk_closed wk w)"

definition rt_comm :: "('v, 'e) runtime \<Rightarrow> bool" where
  "rt_comm rt \<longleftrightarrow> rt_shape rt
   \<and> only_messages (rt_world rt) \<and> cells_ok (rt_world rt) \<and> controls_ok (rt_world rt)
   \<and> acct (held_by (rt_workers rt)) (rt_world rt)
   \<and> (\<forall>k < length (rt_workers rt). wk_good (rt_workers rt ! k) (rt_world rt))"

lemma held_by_update:
  assumes "n < length wks"
  shows "held_by (wks[n := wk]) + mailbox_replies (wk_scheduler (wks ! n)) =
    held_by wks + mailbox_replies (wk_scheduler wk)"
  using assms
proof (induction wks arbitrary: n)
  case (Cons x wks)
  show ?case
  proof (cases n)
    case 0
    then show ?thesis by (simp add: held_by_def ac_simps)
  next
    case (Suc k)
    with Cons.IH[of k] Cons.prems show ?thesis by (simp add: held_by_def ac_simps)
  qed
qed simp

lemma held_by_member:
  assumes "n < length wks"
  obtains rest where "held_by wks = mailbox_replies (wk_scheduler (wks ! n)) + rest"
    "\<And>wk. held_by (wks[n := wk]) = mailbox_replies (wk_scheduler wk) + rest"
proof -
  define rest where "rest = held_by (take n wks) + held_by (drop (Suc n) wks)"
  have app: "held_by (xs @ ys) = held_by xs + held_by ys" for xs ys :: "'a worker list"
    by (simp add: held_by_def)
  have one: "held_by (wks[n := wk]) = mailbox_replies (wk_scheduler wk) + rest" for wk
    using upd_conv_take_nth_drop[OF assms, of wk] app[of "take n wks" "wk # drop (Suc n) wks"]
    by (simp add: rest_def held_by_def ac_simps)
  from one[of "wks ! n"] one show ?thesis by (intro that[of rest]) simp_all
qed

lemma rt_comm_worker:
  assumes "rt_comm rt" and "n < length (rt_workers rt)"
    and "held_by (rt_workers rt) = mailbox_replies (wk_scheduler (rt_workers rt ! n)) + rest"
  shows "wk_inv rest (rt_workers rt ! n) (rt_world rt)"
proof -
  have "wk_good (rt_workers rt ! n) (rt_world rt)" using assms(1,2) by (simp add: rt_comm_def)
  with assms show ?thesis
    by (simp add: rt_comm_def rt_shape_def wk_inv_def wk_core_def wk_chan_def wk_good_def Let_def)
qed

lemma wk_closed_kept:
  assumes "others_kept wk w w'" and "wk_chan wk2 w \<noteq> wk_chan wk w" and "wk_closed wk2 w"
  shows "wk_closed wk2 w'"
  using assms by (auto simp: wk_closed_def others_kept_def wk_chan_def)

lemma rt_comm_work:
  assumes inv: "rt_comm rt" and n: "n < length (rt_workers rt)" and r: "rt' = run_worker order cls n rt"
    and nb: "\<forall>q. wk_place (rt_workers rt' ! n) \<noteq> Blocked_on q"
  shows "rt_comm rt'"
proof -
  let ?wk = "rt_workers rt ! n"
  obtain rest where rest: "held_by (rt_workers rt) = mailbox_replies (wk_scheduler ?wk) + rest"
    "\<And>wk. held_by ((rt_workers rt)[n := wk]) = mailbox_replies (wk_scheduler wk) + rest"
    using held_by_member[OF n] by metis
  obtain wk w where s: "worker_step order cls ?wk (rt_world rt) = (wk, w)" by fastforce
  have rt': "rt' = \<lparr>rt_world = w, rt_workers = (rt_workers rt)[n := wk]\<rparr>"
    using r s by (simp add: run_worker_def)
  have nb': "\<forall>q. wk_place wk \<noteq> Blocked_on q" using nb n by (simp add: rt')
  note st = worker_step_inv[OF rt_comm_worker[OF inv n rest(1)] s nb']
  have sh: "rt_shape rt" using inv by (simp add: rt_comm_def)
  then have idx: "worker_idx ?wk = n" using n by (simp add: rt_shape_def Let_def)
  have sh': "rt_shape rt'"
    using sh st n idx by (auto simp: rt_shape_def Let_def rt' others_kept_def nth_list_update)
  have "wk_good ((rt_workers rt)[n := wk] ! k) w" if k: "k < length (rt_workers rt)" for k
  proof (cases "k = n")
    case True
    with n st show ?thesis by (simp add: wk_inv_def wk_core_def wk_good_def)
  next
    case False
    let ?x = "rt_workers rt ! k"
    have "wk_chan ?x (rt_world rt) \<noteq> wk_chan ?wk (rt_world rt)"
      using sh k n False by (simp add: wk_chan_def rt_shape_def Let_def)
    with wk_closed_kept[OF conjunct1[OF conjunct2[OF st]]] inv k False show ?thesis
      by (simp add: rt_comm_def wk_good_def)
  qed
  with st sh' rest(2)[of wk] show ?thesis
    by (simp add: rt_comm_def rt' wk_inv_def wk_core_def)
qed

lemma acct_same: "chans w' = chans w \<Longrightarrow> replies w' = replies w \<Longrightarrow> acct held w' = acct held w"
  by (rule acct_frame) (simp_all add: chan_at_def)

lemma only_messages_same: "chans w' = chans w \<Longrightarrow> only_messages w' = only_messages w"
  by (simp add: only_messages_def chan_at_def)

lemma rt_comm_world:
  assumes inv: "rt_comm rt"
    and same: "length (chans w') = length (chans (rt_world rt))" "msg_txs (shared w') = msg_txs (shared (rt_world rt))"
      "length (control_txs (shared w')) = length (control_txs (shared (rt_world rt)))"
      "length (actor_maps (shared w')) = length (actor_maps (shared (rt_world rt)))"
      "num_workers (shared w') = num_workers (shared (rt_world rt))"
    and closed: "\<And>c. \<not> chan_open (chan_at (rt_world rt) c) \<Longrightarrow>
      \<not> chan_open (chan_at w' c) \<and> chan_queue (chan_at w' c) = chan_queue (chan_at (rt_world rt) c)"
    and ok: "only_messages w'" "cells_ok w'" "controls_ok w'" "acct (held_by (rt_workers rt)) w'"
  shows "rt_comm (rt\<lparr>rt_world := w'\<rparr>)"
proof -
  have "wk_good wk w'" if "wk_good wk (rt_world rt)" for wk
    using that closed by (simp add: wk_good_def wk_closed_def wk_chan_def same(2))
  with inv same ok show ?thesis by (simp add: rt_comm_def rt_shape_def Let_def)
qed

lemma rt_comm_infra:
  assumes "rt_comm rt" and "infra (rt_world rt) w'" and "only_messages w'" and "acct (held_by (rt_workers rt)) w'"
  shows "rt_comm (rt\<lparr>rt_world := w'\<rparr>)"
  using assms(2-4) assms(1)[unfolded rt_comm_def]
  by (intro rt_comm_world[OF assms(1)]) (auto simp: infra_def controls_ok_def)

lemma control_txs_update_ok:
  assumes "controls_ok w" and "stop = OnStopFn (any_type act)"
    and "control_txs (shared w') = (control_txs (shared w))[n := snd (chan_send (SpawnActor i act stop k) (control_txs (shared w) ! n))]"
  shows "controls_ok w'"
  unfolding controls_ok_def
proof (intro allI impI)
  fix m j act' stop' k'
  assume m: "m < length (control_txs (shared w'))"
    and e: "SpawnActor j act' stop' k' \<in> set (chan_queue (control_txs (shared w') ! m))"
  then have m': "m < length (control_txs (shared w))" by (simp add: assms(3))
  have "SpawnActor j act' stop' k' \<in> set (chan_queue (control_txs (shared w) ! m)) \<or> act' = act \<and> stop' = stop"
    using e m' by (auto simp: assms(3) nth_list_update_lt split: if_splits)
  then show "stop' = OnStopFn (any_type act')"
    using assms(1,2) m' unfolding controls_ok_def by blast
qed

lemma rt_comm_spawn_begin:
  assumes inv: "rt_comm rt" and r: "rt_spawn_begin st a v rt = (r, rt')"
  shows "rt_comm rt'"
proof -
  let ?w = "rt_world rt"
  obtain i w1 where al: "allocate_id ?w = (i, w1)" by fastforce
  obtain idx w2 where pk: "pick_worker w1 = (idx, w2)" by fastforce
  obtain res v' ctx' w3 where x: "exec st v (context_with_spawner i idx) (log_event (EvStarted i a) w2) = (res, v', ctx', w3)"
    by (metis prod_cases4)
  have w1: "w1 = snd (allocate_id ?w)" and w2: "w2 = snd (pick_worker w1)" using al pk by simp_all
  have f0: "chans (log_event (EvStarted i a) w2) = chans ?w" "replies (log_event (EvStarted i a) w2) = replies ?w"
    "infra ?w (log_event (EvStarted i a) w2)"
    by (simp_all add: w1 w2 infra_def cells_ok_def)
  have a0: "acct (held_by (rt_workers rt)) (log_event (EvStarted i a) w2)" "only_messages (log_event (EvStarted i a) w2)"
    using inv by (simp_all add: rt_comm_def acct_same[OF f0(1,2)] only_messages_same[OF f0(1)] del: acct_log only_messages_log)
  have f3: "infra ?w w3" by (rule infra_trans[OF f0(3) exec_infra[OF x]])
  have a3: "acct (held_by (rt_workers rt)) w3" "only_messages w3"
    using exec_acct[OF x a0(1)] exec_messages[OF x a0(2)] by simp_all
  have c3: "rt_comm (rt\<lparr>rt_world := w3\<rparr>)" by (rule rt_comm_infra[OF inv f3 a3(2,1)])
  show ?thesis
  proof (cases res)
    case (Inl f)
    with r al pk x c3 show ?thesis by (simp add: rt_spawn_begin_def)
  next
    case (Inr y)
    let ?act = "\<lparr>any_type = a, any_val = v'\<rparr>"
    obtain q w4 where s: "spawn_remote_begin i idx ?act (OnStopFn a) w3 = (q, w4)" by fastforce
    have rt': "rt' = rt\<lparr>rt_world := w4\<rparr>"
      using r al pk x Inr s by (auto simp: rt_spawn_begin_def split: sum.splits)
    have s4: "chans w4 = chans w3" "replies w4 = replies w3" "msg_txs (shared w4) = msg_txs (shared w3)"
      "actor_maps (shared w4) = actor_maps (shared w3)" "num_workers (shared w4) = num_workers (shared w3)"
      "length (control_txs (shared w4)) = length (control_txs (shared w3))"
      using s by (auto simp: spawn_remote_begin_def Let_def split: if_splits)
    have "control_txs (shared w4) = control_txs (shared w3) \<or> (\<exists>k. control_txs (shared w4) =
        (control_txs (shared w3))[idx := snd (chan_send (SpawnActor i ?act (OnStopFn a) k) (control_txs (shared w3) ! idx))])"
      using s by (auto simp: spawn_remote_begin_def Let_def split: if_splits)
    moreover have ok3: "controls_ok w3" "cells_ok w3" using c3 by (simp_all add: rt_comm_def)
    moreover have "controls_ok w4" if "control_txs (shared w4) = control_txs (shared w3)"
      using ok3(1) that by (simp add: controls_ok_def)
    moreover have "controls_ok w4" if "control_txs (shared w4) =
        (control_txs (shared w3))[idx := snd (chan_send (SpawnActor i ?act (OnStopFn a) k) (control_txs (shared w3) ! idx))]" for k
      by (rule control_txs_update_ok[OF ok3(1) _ that]) simp
    ultimately have "controls_ok w4" by blast
    moreover have "cells_ok w4" using ok3 s4(4) by (simp add: cells_ok_def)
    moreover have "acct (held_by (rt_workers rt)) w4" "only_messages w4"
      using a3 by (simp_all add: acct_same[OF s4(1,2)] only_messages_same[OF s4(1)])
    ultimately have "rt_comm (rt\<lparr>rt_world := w3\<rparr>\<lparr>rt_world := w4\<rparr>)"
      using s4 chan_at_cong[OF s4(1)] by (intro rt_comm_world[OF c3]) simp_all
    then show ?thesis by (simp add: rt')
  qed
qed

lemma rt_comm_shutdown:
  assumes "rt_comm rt"
  shows "rt_comm (rt_shutdown rt)"
proof -
  let ?w' = "rt_world (rt_shutdown rt)"
  have w': "rt_shutdown rt = rt\<lparr>rt_world := ?w'\<rparr>" by (simp add: rt_shutdown_def)
  have f: "chans ?w' = chans (rt_world rt)" "replies ?w' = replies (rt_world rt)"
    "actor_maps (shared ?w') = actor_maps (shared (rt_world rt))"
    by (simp_all add: rt_shutdown_def)
  have "controls_ok ?w'"
    unfolding controls_ok_def
  proof (intro allI impI)
    fix n i act stop k
    assume n: "n < length (control_txs (shared ?w'))"
      and e: "SpawnActor i act stop k \<in> set (chan_queue (control_txs (shared ?w') ! n))"
    then have "SpawnActor i act stop k \<in> set (chan_queue (control_txs (shared (rt_world rt)) ! n))"
      by (auto simp: rt_shutdown_def split: if_splits)
    moreover have "n < length (control_txs (shared (rt_world rt)))" using n by (simp add: rt_shutdown_def)
    ultimately show "stop = OnStopFn (any_type act)"
      using assms unfolding rt_comm_def controls_ok_def by blast
  qed
  moreover have "acct (held_by (rt_workers rt)) ?w'" "only_messages ?w'" "cells_ok ?w'"
    using assms f(3) by (simp_all add: rt_comm_def acct_same[OF f(1,2)] only_messages_same[OF f(1)] cells_ok_def)
  ultimately show ?thesis
    using chan_at_cong[OF f(1)] by (subst w', intro rt_comm_world[OF assms]) (simp_all add: rt_shutdown_def)
qed

lemma rt_comm_finish:
  assumes "rt_comm rt" and "rt_spawn_finish t rt = Some (r, rt')"
  shows "rt_comm rt'"
proof -
  have "rt' = rt \<or> (\<exists>c. rt' = rt\<lparr>rt_world := upd_chan c chan_clone_tx (rt_world rt)\<rparr>)"
    using assms(2) by (auto simp: rt_spawn_finish_def spawn_remote_result_def Let_def split: reply.splits)
  moreover have "rt_comm (rt\<lparr>rt_world := upd_chan c chan_clone_tx (rt_world rt)\<rparr>)" for c
    using assms(1) by (intro rt_comm_infra) (simp_all add: infra_def rt_comm_def cells_ok_def)
  ultimately show ?thesis using assms(1) by metis
qed

lemma rt_step_comm: "rt_step order cls rt rt' \<Longrightarrow> rt_comm rt \<Longrightarrow> rt_comm rt'"
proof (induction rule: rt_step.induct)
  case (rt_work n rt rt')
  then show ?case by (blast intro: rt_comm_work)
next
  case (rt_spawn st a v rt r rt')
  then show ?case by (blast intro: rt_comm_spawn_begin)
next
  case (rt_spawned t rt r rt')
  then show ?case by (blast intro: rt_comm_finish)
next
  case (rt_send rt adr m)
  then show ?case
    using infra.api_send[of "rt_world rt" adr m] messages.api_send[of "rt_world rt" adr m]
    by (intro rt_comm_infra) (auto simp: rt_comm_def acct_send_begin)
next
  case (rt_do_send rt adr m)
  then show ?case
    using infra.api_do_send[of "rt_world rt" adr m] messages.api_do_send[of "rt_world rt" adr m]
    by (intro rt_comm_infra) (auto simp: rt_comm_def acct_do_send)
next
  case (rt_clone rt adr)
  then show ?case
    using infra.api_clone[of "rt_world rt" adr] messages.api_clone[of "rt_world rt" adr]
      reply_acct.api_clone[of "rt_world rt" adr]
    by (intro rt_comm_infra) (auto simp: rt_comm_def)
next
  case (rt_drop rt adr)
  then show ?case
    using infra.api_drop[of "rt_world rt" adr] messages.api_drop[of "rt_world rt" adr]
      reply_acct.api_drop[of "rt_world rt" adr]
    by (intro rt_comm_infra) (auto simp: rt_comm_def)
next
  case (rt_env rt e)
  then show ?case
    using infra.api_env[of "rt_world rt" e] messages.api_env[of "rt_world rt" e]
      reply_acct.api_env[of "rt_world rt" e]
    by (intro rt_comm_infra) (auto simp: rt_comm_def)
next
  case (rt_stop rt)
  then show ?case by (rule rt_comm_shutdown)
qed

lemma worker_idx_new: "worker_idx (worker_new k) = k"
  by (simp add: worker_new_def)

lemma rt_comm_new:
  assumes "rt_with_threads n e = Inr rt"
  shows "rt_comm rt"
proof -
  have n: "n > 0" using assms by (auto simp: rt_with_threads_def split: if_splits)
  have rt: "rt_workers rt = map worker_new [0..<n]" "chans (rt_world rt) = replicate n chan_new"
    "replies (rt_world rt) = []" "control_txs (shared (rt_world rt)) = replicate n chan_new"
    "actor_maps (shared (rt_world rt)) = replicate n hm_new" "msg_txs (shared (rt_world rt)) = [0..<n]"
    "num_workers (shared (rt_world rt)) = n"
    using assms by (auto simp: rt_with_threads_def split: if_splits)
  have q: "chan_queue (chan_at (rt_world rt) c) = []" for c
    by (simp add: chan_at_def rt chan_new_def)
  have "held_by (rt_workers rt) = {#}"
    by (simp add: rt held_by_def worker_new_def comp_def)
  moreover have "owed (rt_world rt) = {#}" by (simp add: owed_def q)
  moreover have "wk_good (map worker_new [0..<n] ! k) (rt_world rt)" if "k < n" for k
    using that by (simp add: worker_new_def wk_good_def sched_inv_new wk_ended_def)
  ultimately show ?thesis
    using n by (simp add: rt_comm_def rt_shape_def rt Let_def acct_def only_messages_def q cells_ok_def
        controls_ok_def worker_idx_new) (simp add: chan_new_def)
qed

lemma rt_steps_comm: "rt_steps order cls rt rt' \<Longrightarrow> rt_comm rt \<Longrightarrow> rt_comm rt'"
  by (induction rule: rt_steps.induct) (auto intro: rt_step_comm)

end
