(* ===== verification/Runtime_Life.thy ===== *)
theory Runtime_Life
  imports Runtime
begin

text \<open>
  The lives of actors in the multi-threaded runtime. An id is allocated once (as long as fewer
  than \<open>2 ^ 64 - 1\<close> actors are spawned, \<open>few\<close>), its actor is started, and from then on the actor
  is in at most one place: one worker's map, one control message, or the hands of a worker that
  dispatches it. \<open>lives H w\<close> says this of a world, with \<open>H\<close> the actors in somebody's hands.
\<close>

section \<open>Places\<close>

definition few :: "('v, 'e) world \<Rightarrow> bool" where
  "few w \<longleftrightarrow> started_count (log w) < 2 ^ 64 - 1"

definition stored_count :: "('v, 'e) world \<Rightarrow> actor_id \<Rightarrow> nat" where
  "stored_count w i = (\<Sum>m \<leftarrow> actor_maps (shared w). if hm_get m i = None then 0 else 1)"

definition spawn_count :: "actor_id \<Rightarrow> 'v control_msg list \<Rightarrow> nat" where
  "spawn_count i ms =
     length (filter (\<lambda>m. case m of SpawnActor j _ _ _ \<Rightarrow> j = i | Shutdown \<Rightarrow> False) ms)"

definition queued_count :: "('v, 'e) world \<Rightarrow> actor_id \<Rightarrow> nat" where
  "queued_count w i = (\<Sum>c \<leftarrow> control_txs (shared w). spawn_count i (chan_queue c))"

definition place_count :: "('v, 'e) world \<Rightarrow> actor_id \<Rightarrow> nat" where
  "place_count w i = stored_count w i + queued_count w i"

text \<open>Ids are handed out in order and have no history before.\<close>

definition fresh_ids :: "('v, 'e) world \<Rightarrow> bool" where
  "fresh_ids w \<longleftrightarrow> unat (next_id (shared w)) = Suc (started_count (log w))
   \<and> (\<forall>i. next_id (shared w) \<le> raw i \<longrightarrow> life i (log w) = Unborn)"

definition lives :: "actor_id set \<Rightarrow> ('v, 'e) world \<Rightarrow> bool" where
  "lives H w \<longleftrightarrow> fresh_ids w \<and> (\<forall>i. life i (log w) \<noteq> Broken)
   \<and> (\<forall>i. place_count w i + (if i \<in> H then 1 else 0) \<le> 1)
   \<and> (\<forall>i. place_count w i > 0 \<or> i \<in> H \<longrightarrow> life i (log w) = Alive)"

lemma sum_list_upd:
  "n < length xs \<Longrightarrow> (\<Sum>x \<leftarrow> xs[n := y]. f x :: nat) + f (xs ! n) = (\<Sum>x \<leftarrow> xs. f x) + f y"
proof (induction xs arbitrary: n)
  case (Cons x xs)
  show ?case
  proof (cases n)
    case (Suc k)
    with Cons.IH[of k] Cons.prems show ?thesis by simp
  qed simp
qed simp

lemma nth_le_sum: "n < length xs \<Longrightarrow> f (xs ! n) \<le> (\<Sum>x \<leftarrow> xs. f x :: nat)"
  by (simp add: elem_le_sum_list[of n "map f xs", simplified])

lemma stored_count_update:
  assumes "n < length (actor_maps (shared w))" and "actor_maps (shared w') = (actor_maps (shared w))[n := m]"
  shows "stored_count w' i + (if hm_get (actor_maps (shared w) ! n) i = None then 0 else 1) =
    stored_count w i + (if hm_get m i = None then 0 else 1)"
  using sum_list_upd[OF assms(1), of "\<lambda>m. if hm_get m i = None then 0 else 1" m]
  by (simp add: stored_count_def assms(2))

lemma queued_count_update:
  assumes "n < length (control_txs (shared w))" and "control_txs (shared w') = (control_txs (shared w))[n := c]"
  shows "queued_count w' i + spawn_count i (chan_queue (control_txs (shared w) ! n)) =
    queued_count w i + spawn_count i (chan_queue c)"
  using sum_list_upd[OF assms(1), of "\<lambda>c. spawn_count i (chan_queue c)" c]
  by (simp add: queued_count_def assms(2))

lemma stored_count_pos:
  "n < length (actor_maps (shared w)) \<Longrightarrow> hm_get (actor_maps (shared w) ! n) i \<noteq> None \<Longrightarrow> stored_count w i > 0"
  using nth_le_sum[of n "actor_maps (shared w)" "\<lambda>m. if hm_get m i = None then 0 else 1"]
  by (auto simp: stored_count_def)

lemma stored_count_0:
  "stored_count w i = 0 \<longleftrightarrow> (\<forall>n < length (actor_maps (shared w)). hm_get (actor_maps (shared w) ! n) i = None)"
proof -
  have "(\<Sum>m \<leftarrow> ms. if hm_get m i = None then 0 else 1 :: nat) = 0 \<longleftrightarrow> (\<forall>m \<in> set ms. hm_get m i = None)"
    for ms :: "(actor_id, 'a actor_cell) hashmap list"
    by (induction ms) auto
  then show ?thesis by (simp only: stored_count_def all_set_conv_all_nth)
qed

lemma spawn_count_simps [simp]:
  "spawn_count i [] = 0"
  "spawn_count i (SpawnActor j act stop k # ms) = (if j = i then 1 else 0) + spawn_count i ms"
  "spawn_count i (Shutdown # ms) = spawn_count i ms"
  "spawn_count i (ms @ ms') = spawn_count i ms + spawn_count i ms'"
  by (simp_all add: spawn_count_def)

lemma place_count_cong:
  "actor_maps (shared w') = actor_maps (shared w) \<Longrightarrow> control_txs (shared w') = control_txs (shared w) \<Longrightarrow>
   place_count w' i = place_count w i"
  by (simp only: place_count_def stored_count_def queued_count_def)

lemma place_count_log [simp]: "place_count (log_event ev w) i = place_count w i"
  by (rule place_count_cong) simp_all

lemma lives_cong:
  assumes "log w' = log w" and "next_id (shared w') = next_id (shared w)"
    and "\<And>i. place_count w' i = place_count w i"
  shows "lives H w' = lives H w"
  using assms by (simp add: lives_def fresh_ids_def)

lemma lives_fewer:
  assumes "lives H w" and "log w' = log w" and "next_id (shared w') = next_id (shared w)"
    and "\<And>i. place_count w' i + (if i \<in> H' then 1 else 0) \<le> place_count w i + (if i \<in> H then 1 else 0)"
  shows "lives H' w'"
proof -
  have "place_count w' i + (if i \<in> H' then 1 else 0) \<le> 1" for i
    using assms(1) order_trans[OF assms(4)[of i]] by (simp add: lives_def)
  moreover have "life i (log w) = Alive" if "place_count w' i > 0 \<or> i \<in> H'" for i
  proof -
    have "place_count w i + (if i \<in> H then 1 else 0) > 0" using that assms(4)[of i] by (auto split: if_splits)
    then show ?thesis using assms(1) by (auto simp: lives_def split: if_splits)
  qed
  ultimately show ?thesis using assms(1-3) by (simp add: lives_def fresh_ids_def)
qed

text \<open>Events of an actor in somebody's hands.\<close>

lemma lives_event:
  assumes "lives H w" and "i \<in> H" and "\<And>j. life_step j ev = (if j = i then (\<lambda>p. if p = Alive then Alive else Broken) else id)"
    and "started_count [ev] = 0"
  shows "lives H (log_event ev w)"
proof -
  have "life j (log (log_event ev w)) = life j (log w)" for j
    using assms by (simp add: lives_def)
  moreover have "started_count (log (log_event ev w)) = started_count (log w)" using assms(4) by simp
  moreover have "shared (log_event ev w) = shared w" by simp
  ultimately show ?thesis
    using assms(1) by (simp add: lives_def fresh_ids_def del: log_event_simps)
qed

lemma lives_handled: "lives H w \<Longrightarrow> i \<in> H \<Longrightarrow> lives H (log_event (EvHandled i m) w)"
  by (rule lives_event) (auto simp: fun_eq_iff)

lemma lives_panicked: "lives H w \<Longrightarrow> i \<in> H \<Longrightarrow> lives H (log_event (EvPanicked i s) w)"
  by (rule lives_event) (auto simp: fun_eq_iff)

lemma lives_stopped:
  assumes "lives H w" and "i \<in> H"
  shows "lives (H - {i}) (log_event (EvStopped i) w)"
proof -
  have p: "place_count w i = 0" and al: "life i (log w) = Alive"
    using assms unfolding lives_def by (auto dest: spec[of _ i])
  have "life j (log (log_event (EvStopped i) w)) = (if j = i then Dead else life j (log w))" for j
    using al by simp
  moreover have "place_count w j + (if j \<in> H - {i} then 1 else 0) \<le> 1" for j
    using assms(1) unfolding lives_def by (cases "j = i") (simp_all add: p)
  moreover have "fresh_ids (log_event (EvStopped i) w)"
    using assms(1) al by (auto simp: lives_def fresh_ids_def)
  ultimately show ?thesis using assms(1) p by (auto simp: lives_def simp del: log_event_simps)
qed

section \<open>Steps of a life\<close>

text \<open>From a world where \<open>H\<close> are in hand to one where \<open>H'\<close> are.\<close>

definition life_ext :: "actor_id set \<Rightarrow> actor_id set \<Rightarrow> ('v, 'e) world \<Rightarrow> ('v, 'e) world \<Rightarrow> bool" where
  "life_ext H H' w w' \<longleftrightarrow> (\<exists>evs. log w' = log w @ evs) \<and> (few w' \<longrightarrow> lives H w \<longrightarrow> lives H' w')"

lemma few_prefix: "few w' \<Longrightarrow> log w' = log w @ evs \<Longrightarrow> few w"
  by (simp add: few_def)

lemma life_ext_trans:
  assumes "life_ext H H' w w'" and "life_ext H' H'' w' w''"
  shows "life_ext H H'' w w''"
  using assms few_prefix[of w'' w'] by (auto simp: life_ext_def)

lemma life_ext_same:
  assumes "log w' = log w" and "next_id (shared w') = next_id (shared w)"
    and "actor_maps (shared w') = actor_maps (shared w)" and "control_txs (shared w') = control_txs (shared w)"
  shows "life_ext H H w w'"
  using assms lives_cong[OF assms(1,2) place_count_cong[OF assms(3,4)]] by (simp add: life_ext_def)

lemma life_ext_fewer:
  assumes "log w' = log w" and "next_id (shared w') = next_id (shared w)"
    and "\<And>i. place_count w' i + (if i \<in> H' then 1 else 0) \<le> place_count w i + (if i \<in> H then 1 else 0)"
  shows "life_ext H H' w w'"
  using assms by (auto simp: life_ext_def intro: lives_fewer)

lemma life_ext_weaken: "H' \<subseteq> H \<Longrightarrow> life_ext H H' w w"
  by (rule life_ext_fewer) auto

lemma life_ext_event:
  "i \<in> H \<Longrightarrow> life_ext H H w (log_event (EvHandled i m) w)"
  "i \<in> H \<Longrightarrow> life_ext H H w (log_event (EvPanicked i s) w)"
  "i \<in> H \<Longrightarrow> life_ext H (H - {i}) w (log_event (EvStopped i) w)"
  by (simp_all add: life_ext_def lives_handled lives_panicked lives_stopped)

text \<open>The start of an actor: its id is allocated and its \<^verbatim>\<open>started\<close> is called.\<close>

lemma lives_start:
  assumes l: "lives H w" and i: "i = ActorId (next_id (shared w))"
    and w': "log w' = log w @ [EvStarted i t]" "next_id (shared w') = next_id (shared w) + 1"
      "actor_maps (shared w') = actor_maps (shared w)" "control_txs (shared w') = control_txs (shared w)"
    and f: "few w'"
  shows "lives (insert i H) w'"
proof -
  let ?k = "next_id (shared w)"
  have u: "unat ?k = Suc (started_count (log w))" and un: "\<And>j. ?k \<le> raw j \<Longrightarrow> life j (log w) = Unborn"
    using l by (simp_all add: lives_def fresh_ids_def)
  have "Suc (unat ?k) < 2 ^ LENGTH(64)" using f by (simp add: u few_def w')
  then have n: "unat (?k + 1) = Suc (unat ?k)" by (rule unat_plus_one)
  have li: "life i (log w) = Unborn" by (rule un) (simp add: i)
  have raw: "j \<noteq> i \<and> ?k \<le> raw j" if "?k + 1 \<le> raw j" for j
  proof -
    have "Suc (unat ?k) \<le> unat (raw j)" using that n by (simp add: word_le_nat_alt)
    then show ?thesis by (auto simp: i word_le_nat_alt)
  qed
  have life: "life j (log w') = (if j = i then Alive else life j (log w))" for j
    using li by (simp add: w')
  have p: "place_count w' j = place_count w j" for j by (rule place_count_cong[OF w'(3,4)])
  have "place_count w i = 0" "i \<notin> H" using l li by (auto simp: lives_def)
  then have "place_count w j + (if j \<in> insert i H then 1 else 0) \<le> 1" for j
    using l by (cases "j = i") (simp_all add: lives_def)
  moreover have "fresh_ids w'"
    using n u un raw unfolding fresh_ids_def life by (simp add: w'(1,2))
  ultimately show ?thesis using l by (simp add: lives_def life p)
qed

lemma life_ext_start:
  assumes "i = ActorId (next_id (shared w))"
    and "log w' = log w @ [EvStarted i t]" "next_id (shared w') = next_id (shared w) + 1"
      "actor_maps (shared w') = actor_maps (shared w)" "control_txs (shared w') = control_txs (shared w)"
  shows "life_ext H (insert i H) w w'"
  using assms lives_start[OF _ assms] by (auto simp: life_ext_def)

text \<open>Storing an actor that is in hand.\<close>

lemma place_insert:
  assumes "actor_maps (shared w') = (actor_maps (shared w))[n := hm_insert i cell (actor_maps (shared w) ! n)]"
    and "control_txs (shared w') = control_txs (shared w)"
  shows "place_count w' j \<le> place_count w j + (if j = i then 1 else 0)"
proof -
  have "queued_count w' j = queued_count w j" by (simp add: queued_count_def assms(2))
  moreover have "stored_count w' j \<le> stored_count w j + (if j = i then 1 else 0)"
  proof (cases "n < length (actor_maps (shared w))")
    case True
    with stored_count_update[OF True assms(1), of j] show ?thesis by (auto split: if_splits)
  next
    case False
    then have "actor_maps (shared w') = actor_maps (shared w)" unfolding assms(1) by (intro list_update_beyond) simp
    then have "stored_count w' j = stored_count w j" by (simp only: stored_count_def)
    then show ?thesis by simp
  qed
  ultimately show ?thesis by (simp add: place_count_def)
qed

lemma life_ext_insert:
  assumes "log w' = log w" and "next_id (shared w') = next_id (shared w)"
    and "actor_maps (shared w') = (actor_maps (shared w))[n := hm_insert i cell (actor_maps (shared w) ! n)]"
    and "control_txs (shared w') = control_txs (shared w)" and "i \<notin> H"
  shows "life_ext (insert i H) H w w'"
proof (rule life_ext_fewer[OF assms(1,2)])
  show "place_count w' j + (if j \<in> H then 1 else 0) \<le> place_count w j + (if j \<in> insert i H then 1 else 0)" for j
    using place_insert[OF assms(3,4), of j] assms(5) by (cases "j = i") (auto split: if_splits)
qed

text \<open>Taking a stored actor in hand.\<close>

lemma life_ext_remove:
  assumes "n < length (actor_maps (shared w))" and "hm_get (actor_maps (shared w) ! n) i \<noteq> None"
    and "log w' = log w" and "next_id (shared w') = next_id (shared w)"
    and "actor_maps (shared w') = (actor_maps (shared w))[n := hm_remove i (actor_maps (shared w) ! n)]"
    and "control_txs (shared w') = control_txs (shared w)"
  shows "life_ext {} {i} w w'"
proof (rule life_ext_fewer[OF assms(3,4)])
  fix j
  have "queued_count w' j = queued_count w j" by (simp add: queued_count_def assms(6))
  with stored_count_update[OF assms(1,5), of j] assms(2)
  show "place_count w' j + (if j \<in> {i} then 1 else 0) \<le> place_count w j + (if j \<in> {} then 1 else 0)"
    by (auto simp: place_count_def split: if_splits)
qed

section \<open>Callbacks and lives\<close>

text \<open>Whatever a callback does, it keeps the lives of all actors, whoever is in hand.\<close>

interpretation life_acct: api_relation "\<lambda>_ _ w w'. \<forall>H. life_ext H H w w'"
proof (unfold_locales, goal_cases)
  case (2 sp n w w' w'')
  then show ?case by (blast intro: life_ext_trans)
next
  case (8 n i t w w')
  have "life_ext H (insert i H) w (log_event (EvStarted i t) (snd (allocate_id w)))" for H
    by (rule life_ext_start[OF 8(2)]) simp_all
  with 8(1) have "life_ext H (insert i H) w w'" for H by (blast intro: life_ext_trans)
  moreover have "life_ext (insert i H) H w' w'" for H by (rule life_ext_weaken) auto
  ultimately show ?case by (blast intro: life_ext_trans)
next
  case (9 n i t w w' v)
  let ?w = "snd (spawn_actor_direct i n \<lparr>any_type = t, any_val = v\<rparr> (OnStopFn t) w')"
  have "life_ext H (insert i H) w (log_event (EvStarted i t) (snd (allocate_id w)))" for H
    by (rule life_ext_start[OF 9(2)]) simp_all
  with 9(1) have a: "life_ext H (insert i H) w w'" for H by (blast intro: life_ext_trans)
  have "life_ext (insert i (H - {i})) (H - {i}) w' ?w" for H
    by (rule life_ext_insert[where n = n and i = i]) simp_all
  then have b: "life_ext (insert i H) (H - {i}) w' ?w" for H by simp
  have "life_ext H H w ?w" for H
  proof (cases "i \<in> H")
    case True
    have "\<not> lives H w" if "few ?w"
    proof
      assume l: "lives H w"
      then have "life i (log w) = Unborn" using 9(2) by (simp add: lives_def fresh_ids_def)
      with l True show False by (simp add: lives_def)
    qed
    with a[of H] show ?thesis by (auto simp: life_ext_def)
  next
    case False
    with life_ext_trans[OF a[of H] b] show ?thesis by simp
  qed
  then show ?case by blast
qed (auto intro: life_ext_same)

lemma exec_life: "exec p self ctx w = (res, self', ctx', w') \<Longrightarrow> life_ext H H w w'"
  using life_acct.exec_R[where p = p and self = self and ctx = ctx and w = w] by simp

lemma reply_life: "life_ext H H w (reply_send r v w)" "life_ext H H w (reply_drop r w)"
  by (rule life_ext_same; simp)+

lemma call_handle_life:
  assumes "call_handle cls a msg act ctx w = (res, act', ctx', w')" and "ctx_actor_id ctx \<in> H"
  shows "life_ext H H w w'"
  using assms(1)
proof (cases rule: call_handle_E)
  case (Handled v')
  from life_ext_trans[OF life_ext_event(1)[OF assms(2)] exec_life[OF Handled(3)]] show ?thesis .
qed (simp add: life_ext_weaken)

lemma call_dispatch_life:
  assumes d: "call_dispatch cls f act ctx w = (res, act', ctx', w')" and i: "ctx_actor_id ctx \<in> H"
  shows "life_ext H (H - {ctx_actor_id ctx}) w w'"
    and "(\<forall>a. f \<noteq> OnStopFn a) \<Longrightarrow> life_ext H H w w'"
proof -
  have w: "life_ext H (H - {ctx_actor_id ctx}) w' w'" by (rule life_ext_weaken) auto
  have m: "life_ext H H w w'" if "\<forall>a. f \<noteq> OnStopFn a"
    using that d i by (cases f) (auto simp: call_dispatch_def dest: call_handle_life
        intro: life_ext_trans[OF _ reply_life(1)] life_ext_trans[OF _ reply_life(2)]
        split: prod.splits sum.splits fault.splits)
  then show "(\<forall>a. f \<noteq> OnStopFn a) \<Longrightarrow> life_ext H H w w'" .
  show "life_ext H (H - {ctx_actor_id ctx}) w w'"
  proof (cases "\<exists>a. f = OnStopFn a")
    case True
    then obtain a where f: "f = OnStopFn a" by blast
    show ?thesis
    proof (cases "any_type act = a")
      case False
      with d f w show ?thesis by (simp add: call_dispatch_def)
    next
      case True
      obtain r1 v1 c1 w1 where x: "exec (cls_stopped (cls a) (any_val act)) (any_val act) ctx
          (log_event (EvStopped (context_id ctx)) w) = (r1, v1, c1, w1)" by (metis prod_cases4)
      then have "w' = w1" using d f True by (auto simp: call_dispatch_def split: sum.splits)
      with life_ext_trans[OF life_ext_event(3)[OF i] exec_life[OF x[simplified]]] show ?thesis by simp
    qed
  next
    case False
    with life_ext_trans[OF m w] show ?thesis by simp
  qed
qed

section \<open>A worker's step\<close>

lemma drop_envelopes_life: "life_ext H H w (drop_envelopes es w)"
  by (rule life_ext_same) simp_all

lemma stop_cell_life:
  assumes "stop_cell cls i cell wk w = (r, wk', w')"
  shows "life_ext {i} {} w w'"
proof -
  obtain res act' ctx' w1 where d: "call_dispatch cls (on_stop cell) (actor cell)
      (context_with_spawner i (worker_idx wk)) w = (res, act', ctx', w1)" by (metis prod_cases4)
  have "life_ext {i} {} w w1" using call_dispatch_life(1)[OF d, of "{i}"] by simp
  with life_ext_trans[OF _ drop_envelopes_life] assms d show ?thesis
    by (auto simp: stop_cell_def forget_actor_def split: sum.splits)
qed

lemma shared_remove_life:
  assumes "shared_remove_actor i n w = (Some cell, w1)" and "n < length (actor_maps (shared w))"
  shows "life_ext {} {i} w w1"
proof -
  have "hm_get (actor_maps (shared w) ! n) i = Some cell" using assms(1) by (simp add: shared_remove_actor_def)
  with assms shared_remove_simps[of i n w] show ?thesis
    by (intro life_ext_remove[where n = n and i = i]) simp_all
qed

lemma shared_remove_absent:
  assumes "shared_remove_actor i n w = (None, w1)" and "n < length (actor_maps (shared w))"
  shows "life_ext {} {} w w1"
proof (rule life_ext_fewer)
  have m: "hm_get (actor_maps (shared w) ! n) i = None" "log w1 = log w"
    "shared w1 = (shared w)\<lparr>actor_maps := (actor_maps (shared w))[n := hm_remove i (actor_maps (shared w) ! n)]\<rparr>"
    using assms(1) shared_remove_simps[of i n w] by simp_all
  then show "log w1 = log w" "next_id (shared w1) = next_id (shared w)" by simp_all
  fix j
  have "queued_count w1 j = queued_count w j" by (simp add: queued_count_def m)
  with stored_count_update[OF assms(2), of w1 "hm_remove i (actor_maps (shared w) ! n)" j] m
  show "place_count w1 j + (if j \<in> {} then 1 else 0) \<le> place_count w j + (if j \<in> {} then 1 else 0)"
    by (auto simp: place_count_def split: if_splits)
qed

lemma map_insert_life: "life_ext {i} {} w (map_insert wk i cell w)"
  by (rule life_ext_insert[where n = "worker_idx wk"]) simp_all

lemma worker_dispatch_life:
  assumes d: "worker_dispatch cls e wk w = (r, wk', w')" and e: "is_message e"
    and n: "worker_idx wk < length (actor_maps (shared w))" and nb: "\<forall>q. r \<noteq> Inl (Blocking q)"
  shows "life_ext {} {} w w'"
proof -
  have m: "\<forall>a. env_dispatch e \<noteq> OnStopFn a" using e by (auto simp: is_message_def)
  have call: "life_ext {} {env_actor_id e} w w2"
    if "shared_remove_actor (env_actor_id e) (worker_idx wk) w = (Some cell, w1)"
      "call_dispatch cls (env_dispatch e) (actor cell) (context_with_spawner (env_actor_id e) (worker_idx wk)) w1
         = (res, act', ctx', w2)" for cell w1 res act' ctx' w2
    by (rule life_ext_trans[OF shared_remove_life[OF that(1) n] call_dispatch_life(2)[OF that(2) _ m]]) simp
  from d show ?thesis
  proof (cases rule: worker_dispatch_E)
    case (Absent w1)
    have "life_ext {} {} w1 w'" by (rule life_ext_same) (simp_all add: Absent)
    with life_ext_trans[OF shared_remove_absent[OF Absent(1) n]] show ?thesis .
  next
    case (Kept cell w1 act' ctx' w2)
    from life_ext_trans[OF call[OF Kept(1,2)] map_insert_life] show ?thesis by (simp add: Kept)
  next
    case (Stopped cell w1 act' ctx' w2)
    from life_ext_trans[OF call[OF Stopped(1,2)] stop_cell_life[OF Stopped(4)]] show ?thesis .
  next
    case (Panicked cell w1 p act' ctx' w2)
    from life_ext_trans[OF call[OF Panicked(1,2)] life_ext_trans[OF life_ext_event(2) stop_cell_life[OF Panicked(3)]]]
    show ?thesis by simp
  next
    case (Blocked q)
    with nb show ?thesis by blast
  qed
qed

lemma worker_remove_life:
  assumes d: "worker_remove_actor cls i wk w = (r, wk', w')"
    and n: "worker_idx wk < length (actor_maps (shared w))"
  shows "life_ext {} {} w w'"
proof -
  obtain co w1 where s: "shared_remove_actor i (worker_idx wk) w = (co, w1)" by fastforce
  show ?thesis
  proof (cases co)
    case None
    with d s have "w' = drop_envelopes (mailbox (wk_scheduler wk) i) w1"
      by (simp add: worker_remove_actor_def forget_actor_def)
    with life_ext_trans[OF shared_remove_absent[OF s[unfolded None] n] drop_envelopes_life] show ?thesis by simp
  next
    case (Some cell)
    with d s have "stop_cell cls i cell wk w1 = (r, wk', w')" by (simp add: worker_remove_actor_def)
    from life_ext_trans[OF shared_remove_life[OF s[unfolded Some] n] stop_cell_life[OF this]] show ?thesis .
  qed
qed

lemma worker_remove_kept:
  assumes "worker_remove_actor cls i wk w = (r, wk', w')"
  shows "others_kept wk w w'" and "worker_idx wk' = worker_idx wk"
  using worker_remove_all_kept[of cls "[i]" wk w r wk' w'] assms by (auto split: sum.splits)

lemma worker_remove_all_life:
  "worker_remove_all cls is wk w = (r, wk', w') \<Longrightarrow> worker_idx wk < length (actor_maps (shared w)) \<Longrightarrow>
   life_ext {} {} w w'"
proof (induction "is" arbitrary: wk w)
  case Nil
  then show ?case by (simp add: life_ext_weaken)
next
  case (Cons i "is")
  obtain r1 wk1 w1 where d: "worker_remove_actor cls i wk w = (r1, wk1, w1)" by (metis prod_cases3)
  note l = worker_remove_life[OF d Cons.prems(2)]
  have n1: "worker_idx wk1 < length (actor_maps (shared w1))"
    using worker_remove_kept[OF d] Cons.prems(2) by (simp add: others_kept_def)
  show ?case
  proof (cases r1)
    case (Inl f)
    with Cons.prems(1) d l show ?thesis by simp
  next
    case (Inr u)
    with Cons.prems(1) d have "worker_remove_all cls is wk1 w1 = (r, wk', w')" by simp
    from life_ext_trans[OF l Cons.IH[OF this n1]] show ?thesis .
  qed
qed

text \<open>A change of one control channel.\<close>

lemma control_life:
  assumes "log w' = log w" and "next_id (shared w') = next_id (shared w)"
    and "actor_maps (shared w') = actor_maps (shared w)" and "n < length (control_txs (shared w))"
    and "control_txs (shared w') = (control_txs (shared w))[n := c]"
    and "\<And>j. spawn_count j (chan_queue c) + (if j \<in> H' then 1 else 0) \<le>
      spawn_count j (chan_queue (control_txs (shared w) ! n)) + (if j \<in> H then 1 else 0)"
  shows "life_ext H H' w w'"
proof (rule life_ext_fewer[OF assms(1,2)])
  fix j
  have "stored_count w' j = stored_count w j" by (simp add: stored_count_def assms(3))
  with queued_count_update[OF assms(4,5), of j] assms(6)[of j]
  show "place_count w' j + (if j \<in> H' then 1 else 0) \<le> place_count w j + (if j \<in> H then 1 else 0)"
    by (simp add: place_count_def)
qed

lemma worker_end_life:
  assumes "worker_end place wk w = (wk', w')" and "worker_idx wk < length (control_txs (shared w))"
  shows "life_ext {} {} w w'"
proof -
  let ?c = "snd (chan_drop_rx (wk_control wk w))"
  have "life_ext {} {} w w'"
    by (rule control_life[where n = "worker_idx wk" and c = ?c])
      (use assms in \<open>auto simp: worker_end_def Let_def chan_drop_rx_def\<close>)
  then show ?thesis .
qed

lemma step_control_life:
  assumes s: "step_control wk w = (wk', w')" and n: "worker_idx wk < length (control_txs (shared w))"
  shows "life_ext {} {} w w'"
proof -
  obtain rc c where rc: "chan_try_recv (wk_control wk w) = (rc, c)" by fastforce
  show ?thesis
  proof (cases "\<exists>i act stop k. rc = Received (SpawnActor i act stop k)")
    case True
    then obtain i act stop k where m: "rc = Received (SpawnActor i act stop k)" by blast
    have q: "chan_queue (wk_control wk w) = SpawnActor i act stop k # chan_queue c"
      using rc m by (auto simp: chan_try_recv_def split: list.splits if_splits)
    let ?w1 = "set_control wk c w" and ?cell = "\<lparr>actor = act, on_stop = stop\<rparr>"
    have 1: "life_ext {} {i} w ?w1"
      by (rule control_life[where n = "worker_idx wk" and c = c])
        (use n q in \<open>auto simp: wk_control_def\<close>)
    have 2: "life_ext {} {} (map_insert wk i ?cell ?w1) (confirm_send k (map_insert wk i ?cell ?w1))"
      by (rule life_ext_same) simp_all
    have "w' = confirm_send k (map_insert wk i ?cell ?w1)" using s rc m by (auto simp: step_control_def)
    with life_ext_trans[OF life_ext_trans[OF 1 map_insert_life] 2] show ?thesis by simp
  next
    case False
    have "spawn_count j (chan_queue c) \<le> spawn_count j (chan_queue (wk_control wk w))" for j
      using rc by (auto simp: chan_try_recv_def spawn_count_def split: list.splits if_splits)
    then have "life_ext {} {} w (set_control wk c w)"
      by (intro control_life[where n = "worker_idx wk" and c = c])
        (use n in \<open>auto simp: wk_control_def\<close>)
    moreover have "w' = set_control wk c w"
      using False s rc by (auto simp: step_control_def split: recv.splits control_msg.splits)
    ultimately show ?thesis by simp
  qed
qed

lemma end_step_life:
  assumes "end_step (r, wk, w) cont = (wk', w')" and "worker_idx wk < length (control_txs (shared w))"
  shows "life_ext {} {} w w'"
  using assms worker_end_life[OF _ assms(2)]
  by (auto simp: end_step_def life_ext_weaken split: sum.splits fault.splits)

lemma worker_step_life:
  assumes inv: "wk_inv held wk w" and r: "worker_step order cls wk w = (wk', w')"
    and nb: "\<forall>q. wk_place wk' \<noteq> Blocked_on q"
  shows "life_ext {} {} w w'"
proof -
  have core: "wk_core None held wk w" using inv by (simp add: wk_inv_def)
  have n: "worker_idx wk < length (control_txs (shared w))" "worker_idx wk < length (actor_maps (shared w))"
    using core by (simp_all add: wk_core_def)
  show ?thesis
  proof (cases "wk_place wk")
    case At_control
    with r step_control_life[OF _ n(1)] show ?thesis by (simp add: worker_step_def)
  next
    case At_drain
    with r show ?thesis
      by (intro life_ext_same) (auto simp: worker_step_def step_drain_def split: recv.splits prod.splits)
  next
    case At_schedule
    with r have s: "step_schedule cls wk w = (wk', w')" by (simp add: worker_step_def)
    show ?thesis
    proof (cases "ready_queue (wk_scheduler wk)")
      case Nil
      with s have "w' = w" by (auto simp: step_schedule_def next_ready_Nil)
      then show ?thesis by (simp add: life_ext_weaken)
    next
      case (Cons i q)
      obtain e s1 s2 where d: "next_ready (wk_scheduler wk) = (Some i, s1)" "dequeue i s1 = (Some e, s2)"
        and m: "is_message e"
        by (rule wk_core_take[OF core Cons]) (rule that; assumption)
      obtain res wk1 w1 where ds: "worker_dispatch cls e (wk\<lparr>wk_scheduler := s2\<rparr>) w = (res, wk1, w1)"
        by (metis prod_cases3)
      have es: "end_step (res, wk1, w1) (\<lambda>wk'. wk'\<lparr>wk_scheduler := requeue_if_ready i (wk_scheduler wk'),
          wk_place := At_control\<rparr>) = (wk', w')"
        using s d ds by (simp add: step_schedule_def)
      have nb1: "\<forall>q. res \<noteq> Inl (Blocking q)" using es nb by (auto simp: end_step_def)
      have "life_ext {} {} w w1" by (rule worker_dispatch_life[OF ds m _ nb1]) (use n in simp)
      moreover have "worker_idx wk1 < length (control_txs (shared w1))"
        using worker_dispatch_kept[OF ds nb1] n by (simp add: others_kept_def)
      ultimately show ?thesis using end_step_life[OF es] life_ext_trans by blast
    qed
  next
    case At_recv
    with r show ?thesis
      by (intro life_ext_same) (auto simp: worker_step_def step_recv_def split: recv.splits prod.splits)
  next
    case Stopping
    obtain res wk1 w1 where d: "worker_stop_all order cls wk w = (res, wk1, w1)" by (metis prod_cases3)
    note d' = d[unfolded worker_stop_all_def]
    have n1: "worker_idx wk1 < length (control_txs (shared w1))"
      using worker_remove_all_kept[OF d'] n by (simp add: others_kept_def)
    have "life_ext {} {} w1 w'"
      using r Stopping d end_step_life[of res wk1 w1 id wk' w'] worker_end_life[of Exited wk1 w1 wk' w'] n1
      by (auto simp: worker_step_def step_stop_def split: sum.splits)
    with life_ext_trans[OF worker_remove_all_life[OF d' n(2)]] show ?thesis .
  qed (use r in \<open>auto simp: worker_step_def life_ext_weaken\<close>)
qed

section \<open>The runtime's steps\<close>

lemma rt_spawn_begin_life:
  assumes "rt_spawn_begin st a v rt = (r, rt')"
  shows "life_ext {} {} (rt_world rt) (rt_world rt')"
proof -
  let ?w = "rt_world rt"
  obtain i w1 where al: "allocate_id ?w = (i, w1)" by fastforce
  obtain idx w2 where pk: "pick_worker w1 = (idx, w2)" by fastforce
  obtain res v' ctx' w3 where x: "exec st v (context_with_spawner i idx) (log_event (EvStarted i a) w2) = (res, v', ctx', w3)"
    by (metis prod_cases4)
  have w1: "w1 = snd (allocate_id ?w)" "i = ActorId (next_id (shared ?w))" and w2: "w2 = snd (pick_worker w1)"
    using al pk by (simp_all add: allocate_id_def)
  have "life_ext {} {i} ?w (log_event (EvStarted i a) w2)"
    by (rule life_ext_start[OF w1(2)]) (simp_all add: w1 w2)
  from life_ext_trans[OF this exec_life[OF x]] have 3: "life_ext {} {i} ?w w3" .
  have 4: "life_ext {i} {} w3 w3" by (rule life_ext_weaken) simp
  show ?thesis
  proof (cases res)
    case (Inl f)
    with assms al pk x life_ext_trans[OF 3 4] show ?thesis by (auto simp: rt_spawn_begin_def)
  next
    case (Inr y)
    let ?act = "\<lparr>any_type = a, any_val = v'\<rparr>"
    obtain q w4 where s: "spawn_remote_begin i idx ?act (OnStopFn a) w3 = (q, w4)" by fastforce
    have rt': "rt_world rt' = w4"
      using assms al pk x Inr s by (auto simp: rt_spawn_begin_def split: sum.splits)
    have "life_ext {i} {} w3 w4"
    proof (cases "idx < length (control_txs (shared w3)) \<and> chan_open (control_txs (shared w3) ! idx)")
      case True
      then show ?thesis
        using s by (intro control_life[where n = idx and c = "snd (chan_send (SpawnActor i ?act (OnStopFn a)
            (length (confirms w3))) (control_txs (shared w3) ! idx))"])
          (auto simp: spawn_remote_begin_def Let_def)
    next
      case False
      then have "actor_maps (shared w4) = actor_maps (shared w3)" "control_txs (shared w4) = control_txs (shared w3)"
        "next_id (shared w4) = next_id (shared w3)" "log w4 = log w3"
        using s by (auto simp: spawn_remote_begin_def Let_def split: if_splits
            simp del: not_less simp: list_update_beyond linorder_not_less[symmetric])
      then have "life_ext {} {} w3 w4" by (intro life_ext_same) simp_all
      with life_ext_trans[OF 4] show ?thesis .
    qed
    with life_ext_trans[OF 3] rt' show ?thesis by simp
  qed
qed

lemma rt_shutdown_life: "life_ext {} {} (rt_world rt) (rt_world (rt_shutdown rt))"
proof (rule life_ext_fewer)
  let ?w = "rt_world rt"
  fix j
  have "(\<Sum>c \<leftarrow> map (\<lambda>c. snd (chan_send Shutdown c)) cs. spawn_count j (chan_queue c)) =
      (\<Sum>c \<leftarrow> cs. spawn_count j (chan_queue c))" for cs :: "'v control_msg chan list"
    by (induction cs) (simp_all add: chan_send_def)
  then have "queued_count (rt_world (rt_shutdown rt)) j = queued_count ?w j"
    by (simp add: queued_count_def rt_shutdown_def)
  moreover have "stored_count (rt_world (rt_shutdown rt)) j = stored_count ?w j"
    by (simp add: stored_count_def rt_shutdown_def)
  ultimately show "place_count (rt_world (rt_shutdown rt)) j + (if j \<in> {} then 1 else 0)
      \<le> place_count ?w j + (if j \<in> {} then 1 else 0)"
    by (simp add: place_count_def)
qed (simp_all add: rt_shutdown_def)

lemma rt_step_life: "rt_step order cls rt rt' \<Longrightarrow> rt_comm rt \<Longrightarrow> life_ext {} {} (rt_world rt) (rt_world rt')"
proof (induction rule: rt_step.induct)
  case (rt_work n rt rt')
  obtain rest where rest: "held_by (rt_workers rt) = mailbox_replies (wk_scheduler (rt_workers rt ! n)) + rest"
    using held_by_member[OF rt_work(1)] by metis
  obtain wk w where s: "worker_step order cls (rt_workers rt ! n) (rt_world rt) = (wk, w)" by fastforce
  have "rt' = \<lparr>rt_world = w, rt_workers = (rt_workers rt)[n := wk]\<rparr>"
    using rt_work(2) s by (simp add: run_worker_def)
  with worker_step_life[OF rt_comm_worker[OF rt_work(4,1) rest] s] rt_work(1,3) show ?case by simp
next
  case (rt_spawn st a v rt r rt')
  then show ?case by (blast intro: rt_spawn_begin_life)
next
  case (rt_spawned t rt r rt')
  then have "\<exists>c. rt_world rt' = rt_world rt \<or> rt_world rt' = upd_chan c chan_clone_tx (rt_world rt)"
    by (auto simp: rt_spawn_finish_def spawn_remote_result_def Let_def split: reply.splits)
  then show ?case by (auto intro: life_ext_same)
next
  case (rt_stop rt)
  show ?case by (rule rt_shutdown_life)
qed (simp_all add: life_ext_same)

lemma rt_steps_life: "rt_steps order cls rt rt' \<Longrightarrow> rt_comm rt \<Longrightarrow> life_ext {} {} (rt_world rt) (rt_world rt')"
proof (induction rule: rt_steps.induct)
  case (rt_trans rt rt' rt'')
  with rt_step_life rt_steps_comm show ?case by (blast intro: life_ext_trans)
qed (simp add: life_ext_weaken)

lemma rt_lives_new:
  assumes "rt_with_threads n e = Inr rt"
  shows "lives {} (rt_world rt)"
proof -
  have rt: "log (rt_world rt) = []" "next_id (shared (rt_world rt)) = 1"
    "control_txs (shared (rt_world rt)) = replicate n chan_new" "actor_maps (shared (rt_world rt)) = replicate n hm_new"
    using assms by (auto simp: rt_with_threads_def split: if_splits)
  have "place_count (rt_world rt) i = 0" for i
    by (simp add: place_count_def stored_count_def queued_count_def rt sum_list_replicate chan_new_def)
  then show ?thesis by (simp add: lives_def fresh_ids_def rt)
qed

end
