(* ===== verification/Runtime_Cells.thy ===== *)
theory Runtime_Cells
  imports Runtime_Life
begin

text \<open>
  What a callback on one worker cannot do to the other actors: their cells stay where they are,
  replies once given stay as they are, and a stopped actor stays stopped. From this follow the
  effects of a stop and of a dispatch on the actors involved.
\<close>

section \<open>Stored actors stay\<close>

definition cells_stay :: "('v, 'e) world \<Rightarrow> ('v, 'e) world \<Rightarrow> bool" where
  "cells_stay w w' \<longleftrightarrow> length (actor_maps (shared w')) = length (actor_maps (shared w))
   \<and> (\<forall>n i cell. n < length (actor_maps (shared w)) \<longrightarrow> hm_get (actor_maps (shared w) ! n) i = Some cell \<longrightarrow>
        hm_get (actor_maps (shared w') ! n) i = Some cell)"

definition calls_keep :: "('v, 'e) world \<Rightarrow> ('v, 'e) world \<Rightarrow> bool" where
  "calls_keep w w' \<longleftrightarrow> (\<forall>H. life_ext H H w w') \<and> (\<forall>H. few w' \<longrightarrow> lives H w \<longrightarrow> cells_stay w w')"

lemma cells_stay_refl [simp]: "cells_stay w w"
  by (simp add: cells_stay_def)

lemma cells_stay_trans: "cells_stay w w' \<Longrightarrow> cells_stay w' w'' \<Longrightarrow> cells_stay w w''"
  by (simp add: cells_stay_def)

lemma cells_stay_same: "actor_maps (shared w') = actor_maps (shared w) \<Longrightarrow> cells_stay w w'"
  by (simp add: cells_stay_def)

lemma calls_keep_trans:
  assumes "calls_keep w w'" and "calls_keep w' w''"
  shows "calls_keep w w''"
proof -
  have l: "life_ext H H w w'" "life_ext H H w' w''" for H using assms by (simp_all add: calls_keep_def)
  have "cells_stay w w''" if "few w''" "lives H w" for H
  proof -
    have "few w'" using that(1) l(2)[of H] by (auto simp: life_ext_def intro: few_prefix)
    then have "cells_stay w w'" "lives H w'" using assms(1) l(1)[of H] that by (auto simp: calls_keep_def life_ext_def)
    moreover from this(2) that have "cells_stay w' w''" using assms(2) by (auto simp: calls_keep_def)
    ultimately show ?thesis by (blast intro: cells_stay_trans)
  qed
  then show ?thesis using l by (auto simp: calls_keep_def intro: life_ext_trans)
qed

lemma calls_keep_same:
  assumes "log w' = log w" and "next_id (shared w') = next_id (shared w)"
    and "actor_maps (shared w') = actor_maps (shared w)" and "control_txs (shared w') = control_txs (shared w)"
  shows "calls_keep w w'"
  using assms by (simp add: calls_keep_def life_ext_same cells_stay_same)

lemma lives_unborn: "lives H w \<Longrightarrow> life (ActorId (next_id (shared w))) (log w) = Unborn"
  by (simp add: lives_def fresh_ids_def)

lemma lives_stored:
  "lives H w \<Longrightarrow> n < length (actor_maps (shared w)) \<Longrightarrow> hm_get (actor_maps (shared w) ! n) i = Some cell \<Longrightarrow>
   life i (log w) = Alive"
  using stored_count_pos[of n w i] by (auto simp: lives_def place_count_def)

interpretation calls: api_relation "\<lambda>_ _. calls_keep"
proof (unfold_locales, goal_cases)
  case (2 sp n w w' w'')
  then show ?case by (rule calls_keep_trans)
next
  case (8 n i t w w')
  let ?w1 = "log_event (EvStarted i t) (snd (allocate_id w))"
  have "\<forall>H. life_ext H H w w'"
    by (rule life_acct.api_start[where t = t, OF _ 8(2)]) (use 8(1) in \<open>simp add: calls_keep_def\<close>)
  then have l: "life_ext H H w w'" for H by blast
  have s: "life_ext H (insert i H) w ?w1" for H by (rule life_ext_start[OF 8(2)]) simp_all
  have "cells_stay w w'" if "few w'" "lives H w" for H
  proof -
    have "few ?w1" using that(1) 8(1) by (auto simp: calls_keep_def life_ext_def intro: few_prefix)
    with s that(2) have "lives (insert i H) ?w1" by (simp add: life_ext_def)
    with 8(1) that(1) have "cells_stay ?w1 w'" by (auto simp: calls_keep_def)
    then show ?thesis by (simp add: cells_stay_def)
  qed
  with l show ?case by (auto simp: calls_keep_def)
next
  case (9 n i t w w' v)
  let ?w1 = "log_event (EvStarted i t) (snd (allocate_id w))"
  let ?w2 = "snd (spawn_actor_direct i n \<lparr>any_type = t, any_val = v\<rparr> (OnStopFn t) w')"
  have "\<forall>H. life_ext H H w ?w2"
    by (rule life_acct.api_insert[where t = t, OF _ 9(2)]) (use 9(1) in \<open>simp add: calls_keep_def\<close>)
  then have l: "life_ext H H w ?w2" for H by blast
  have s: "life_ext H (insert i H) w ?w1" for H by (rule life_ext_start[OF 9(2)]) simp_all
  have "cells_stay w ?w2" if "few ?w2" "lives H w" for H
  proof -
    have "few w'" using that(1) by (simp add: few_def)
    then have "few ?w1" using 9(1) by (auto simp: calls_keep_def life_ext_def intro: few_prefix)
    with s that(2) have "lives (insert i H) ?w1" by (simp add: life_ext_def)
    with 9(1) \<open>few w'\<close> have "cells_stay ?w1 w'" by (auto simp: calls_keep_def)
    then have c: "cells_stay w w'" by (simp add: cells_stay_def)
    have "life i (log w) = Unborn" using lives_unborn[OF that(2)] 9(2) by simp
    then have "hm_get (actor_maps (shared w) ! m) i \<noteq> Some cell" if "m < length (actor_maps (shared w))" for m cell
      using lives_stored[OF \<open>lives H w\<close> that] by fastforce
    with c show ?thesis by (auto simp: cells_stay_def nth_list_update_lt)
  qed
  with l show ?case by (auto simp: calls_keep_def)
qed (auto intro: calls_keep_same)

lemma exec_keep: "exec p self ctx w = (res, self', ctx', w') \<Longrightarrow> calls_keep w w'"
  using calls.exec_R[where p = p and self = self and ctx = ctx and w = w] by simp

lemma cells_stay_exec:
  assumes "exec p self ctx w = (res, self', ctx', w')" and "lives H w" and "few w'"
  shows "cells_stay w w'"
  using exec_keep[OF assms(1)] assms(2,3) by (auto simp: calls_keep_def)

text \<open>A call of a closure keeps the stored actors: the one it is for is in hand.\<close>

lemma call_dispatch_cells:
  assumes d: "call_dispatch cls f act ctx w = (res, act', ctx', w')" and l: "lives H w"
    and i: "ctx_actor_id ctx \<in> H" and fw: "few w'"
  shows "cells_stay w w'"
proof -
  have r: "cells_stay w1 (reply_send q v w1)" "cells_stay w1 (reply_drop q w1)" for q v and w1 :: "('a, 'b) world"
    by (rule cells_stay_same; simp)+
  have h: "cells_stay w w1" if "call_handle cls a msg act ctx w = (r1, a1, c1, w1)" "few w1" for a msg r1 a1 c1 w1
    using that(1)
  proof (cases rule: call_handle_E)
    case (Handled v')
    have "lives H (log_event (EvHandled (ctx_actor_id ctx) msg) w)" by (rule lives_handled[OF l i])
    from cells_stay_exec[OF Handled(3) this that(2)] show ?thesis by (simp add: cells_stay_def)
  qed simp
  have s: "cells_stay w w1" if "exec p self ctx (log_event (EvStopped (ctx_actor_id ctx)) w) = (r1, v1, c1, w1)" "few w1"
    for p self r1 v1 c1 w1
    using cells_stay_exec[OF that(1) lives_stopped[OF l i] that(2)] by (simp add: cells_stay_def)
  have fr: "few (reply_send q v w1) = few w1" "few (reply_drop q w1) = few w1" for q v and w1 :: "('a, 'b) world"
    by (simp_all add: few_def)
  show ?thesis
    using d fw by (cases f) (auto simp: call_dispatch_def fr dest: h s
        intro: cells_stay_trans[OF _ r(1)] cells_stay_trans[OF _ r(2)] split: if_splits prod.splits sum.splits fault.splits)
qed

section \<open>Settled replies\<close>

text \<open>A reply that was given or dropped is not touched again.\<close>

definition settled :: "('v, 'e) world \<Rightarrow> ('v, 'e) world \<Rightarrow> bool" where
  "settled w w' \<longleftrightarrow> length (replies w) \<le> length (replies w')
   \<and> (\<forall>r < length (replies w). replies w ! r \<noteq> Pending \<longrightarrow> replies w' ! r = replies w ! r)"

lemma settled_trans: "settled w w' \<Longrightarrow> settled w' w'' \<Longrightarrow> settled w w''"
  by (auto simp: settled_def)

lemma settled_comm: "comm_ext w w' \<Longrightarrow> settled w w'"
  by (auto simp: comm_ext_def settled_def nth_append)

lemma settled_same: "replies w' = replies w \<Longrightarrow> settled w w'"
  by (simp add: settled_def)

lemma settled_drop: "settled w (drop_envelopes es w)"
proof (induction es arbitrary: w)
  case (Cons e es)
  have "settled w (drop_envelope e w)" by (auto simp: settled_def nth_drop_envelope)
  from settled_trans[OF this Cons.IH] show ?case by simp
qed (simp add: settled_def)

lemma call_stop_settled:
  assumes "call_dispatch cls (OnStopFn a) act ctx w = (res, act', ctx', w')"
  shows "settled w w'"
proof (cases "any_type act = a")
  case True
  obtain r1 v1 c1 w1 where x: "exec (cls_stopped (cls a) (any_val act)) (any_val act) ctx
      (log_event (EvStopped (context_id ctx)) w) = (r1, v1, c1, w1)" by (metis prod_cases4)
  then have "w' = w1" using assms True by (auto simp: call_dispatch_def split: sum.splits)
  with settled_trans[OF settled_same settled_comm[OF exec_comm[OF x]]] show ?thesis by simp
qed (use assms in \<open>simp add: call_dispatch_def settled_same\<close>)

lemma stop_cell_settled:
  assumes "stop_cell cls i cell wk w = (r, wk', w')" and "cell_ok cell"
  shows "settled w w'"
proof -
  obtain res act' ctx' w1 where d: "call_dispatch cls (on_stop cell) (actor cell)
      (context_with_spawner i (worker_idx wk)) w = (res, act', ctx', w1)" by (metis prod_cases4)
  then have "settled w w1" using assms(2) by (auto simp: cell_ok_def intro: call_stop_settled)
  with settled_trans[OF _ settled_drop] assms(1) d show ?thesis
    by (auto simp: stop_cell_def forget_actor_def split: sum.splits)
qed

section \<open>Stopped for good\<close>

lemma life_append: "life i (l @ evs) = fold (life_step i) evs (life i l)"
  by (simp add: life_def)

lemma life_step_broken [simp]: "life_step i ev Broken = Broken"
  by (cases ev) simp_all

lemma life_broken_stays: "fold (life_step i) evs Broken = Broken"
  by (induction evs) simp_all

lemma life_dead_stays: "fold (life_step i) evs Dead \<in> {Dead, Broken}"
proof (induction evs)
  case (Cons ev evs)
  have "life_step i ev Dead = Dead \<or> life_step i ev Dead = Broken" by (cases ev) auto
  with Cons life_broken_stays[of i evs] show ?case by auto
qed simp

lemma life_ext_dead:
  assumes "life_ext H H' w w'" and "lives H w" and "few w'" and "life i (log w) = Dead"
  shows "life i (log w') = Dead"
proof -
  obtain evs where l: "log w' = log w @ evs" and "lives H' w'" using assms(1-3) by (auto simp: life_ext_def)
  then have "life i (log w') \<noteq> Broken" by (simp add: lives_def)
  with l assms(4) life_dead_stays[of i evs] show ?thesis by (simp add: life_append)
qed

lemma lives_dead_gone:
  assumes "lives H w" and "life i (log w) = Dead" and "n < length (actor_maps (shared w))"
  shows "hm_get (actor_maps (shared w) ! n) i = None"
  using lives_stored[OF assms(1,3)] assms(2) by fastforce

text \<open>Calling \<^verbatim>\<open>on_stop\<close> on the actor's own cell ends its life, even when it panics.\<close>

lemma stop_cell_dead:
  assumes s: "stop_cell cls i cell wk w = (r, wk', w')" and c: "cell_ok cell" and l: "lives {i} w" and f: "few w'"
  shows "life i (log w') = Dead" and "lives {} w'" and "cells_stay w w'"
proof -
  obtain res act' ctx' w1 where d: "call_dispatch cls (on_stop cell) (actor cell)
      (context_with_spawner i (worker_idx wk)) w = (res, act', ctx', w1)" by (metis prod_cases4)
  have w': "log w' = log w1" "actor_maps (shared w') = actor_maps (shared w1)"
    using s d by (auto simp: stop_cell_def forget_actor_def split: sum.splits)
  have f1: "few w1" using f by (simp add: few_def w')
  obtain r1 v1 c1 w2 where x: "exec (cls_stopped (cls (any_type (actor cell))) (any_val (actor cell))) (any_val (actor cell))
      (context_with_spawner i (worker_idx wk)) (log_event (EvStopped i) w) = (r1, v1, c1, w2)" by (metis prod_cases4)
  then have w1: "w1 = w2" using d c by (auto simp: call_dispatch_def cell_ok_def split: sum.splits)
  have l1: "lives {} (log_event (EvStopped i) w)" using lives_stopped[OF l] by simp
  have "life i (log w) = Alive" using l by (simp add: lives_def)
  then have "life i (log (log_event (EvStopped i) w)) = Dead" by simp
  from life_ext_dead[OF exec_life[OF x] l1 f1[unfolded w1] this] show "life i (log w') = Dead"
    by (simp add: w' w1)
  show "lives {} w'" using stop_cell_life[OF s] l f by (simp add: life_ext_def)
  have "cells_stay w w1" by (rule call_dispatch_cells[OF d l _ f1]) simp
  then show "cells_stay w w'" by (simp add: cells_stay_def w')
qed

section \<open>Stopping everything\<close>

lemma cells_stay_remove:
  assumes "shared_remove_actor i n w = (co, w1)" and "m < length (actor_maps (shared w))" and "j \<noteq> i"
  shows "hm_get (actor_maps (shared w1) ! m) j = hm_get (actor_maps (shared w) ! m) j"
  using assms(2,3) shared_remove_simps(8)[of i n w] assms(1) by (auto simp: nth_list_update_lt)

lemma cells_ok_get: "cells_ok w \<Longrightarrow> n < length (actor_maps (shared w)) \<Longrightarrow>
   hm_get (actor_maps (shared w) ! n) i = Some cell \<Longrightarrow> cell_ok cell"
  by (simp add: cells_ok_def)

lemma cells_ok_removed:
  "cells_ok w \<Longrightarrow> shared_remove_actor i n w = (co, w1) \<Longrightarrow> cells_ok w1"
  by (rule cells_ok_remove[of w w1 n i]) (auto simp: shared_remove_actor_def)

lemma stop_cell_ok: "stop_cell cls i cell wk w = (r, wk', w') \<Longrightarrow> cells_ok w \<Longrightarrow> cells_ok w'"
proof -
  assume s: "stop_cell cls i cell wk w = (r, wk', w')" and c: "cells_ok w"
  obtain res act' ctx' w1 where d: "call_dispatch cls (on_stop cell) (actor cell)
      (context_with_spawner i (worker_idx wk)) w = (res, act', ctx', w1)" by (metis prod_cases4)
  have "cells_ok w1" using call_dispatch_infra[OF d] c by (simp add: infra_def)
  moreover have "actor_maps (shared w') = actor_maps (shared w1)"
    using s d by (auto simp: stop_cell_def forget_actor_def split: sum.splits)
  ultimately show "cells_ok w'" by (simp add: cells_ok_def)
qed

lemma worker_remove_dead:
  assumes d: "worker_remove_actor cls i wk w = (r, wk', w')" and ok: "cells_ok w" and l: "lives {} w"
    and f: "few w'" and n: "worker_idx wk < length (actor_maps (shared w))"
  shows "hm_get (actor_maps (shared w) ! worker_idx wk) i \<noteq> None \<Longrightarrow> life i (log w') = Dead"
    and "cells_ok w'"
    and "j \<noteq> i \<Longrightarrow> m < length (actor_maps (shared w)) \<Longrightarrow>
      hm_get (actor_maps (shared w) ! m) j = Some cell \<Longrightarrow> hm_get (actor_maps (shared w') ! m) j = Some cell"
proof -
  obtain co w1 where s: "shared_remove_actor i (worker_idx wk) w = (co, w1)" by fastforce
  have co: "co = hm_get (actor_maps (shared w) ! worker_idx wk) i" using s by (simp add: shared_remove_actor_def)
  have len: "length (actor_maps (shared w1)) = length (actor_maps (shared w))"
    using s by (auto simp: shared_remove_actor_def)
  have ok1: "cells_ok w1" by (rule cells_ok_removed[OF ok s])
  have "(hm_get (actor_maps (shared w) ! worker_idx wk) i \<noteq> None \<longrightarrow> life i (log w') = Dead)
    \<and> cells_ok w' \<and> cells_stay w1 w'"
  proof (cases co)
    case None
    with d s have "shared w' = shared w1" by (auto simp: worker_remove_actor_def forget_actor_def)
    with None co ok1 show ?thesis by (simp add: cells_ok_def cells_stay_def)
  next
    case (Some c)
    with d s have st: "stop_cell cls i c wk w1 = (r, wk', w')" by (simp add: worker_remove_actor_def)
    have "few w1" using stop_cell_life[OF st] f by (auto simp: life_ext_def intro: few_prefix)
    then have l1: "lives {i} w1" using shared_remove_life[OF s[unfolded Some] n] l by (simp add: life_ext_def)
    have "cell_ok c" using cells_ok_get[OF ok n] co Some by simp
    from stop_cell_dead[OF st this l1 f] stop_cell_ok[OF st ok1] show ?thesis by simp
  qed
  then show "hm_get (actor_maps (shared w) ! worker_idx wk) i \<noteq> None \<Longrightarrow> life i (log w') = Dead" "cells_ok w'"
    "j \<noteq> i \<Longrightarrow> m < length (actor_maps (shared w)) \<Longrightarrow>
      hm_get (actor_maps (shared w) ! m) j = Some cell \<Longrightarrow> hm_get (actor_maps (shared w') ! m) j = Some cell"
    using cells_stay_remove[OF s, of m j] len by (auto simp: cells_stay_def)
qed

lemma worker_remove_all_dead:
  "worker_remove_all cls is wk w = (Inr (), wk', w') \<Longrightarrow> cells_ok w \<Longrightarrow> lives {} w \<Longrightarrow> few w' \<Longrightarrow>
   worker_idx wk < length (actor_maps (shared w)) \<Longrightarrow> i \<in> set is \<Longrightarrow>
   hm_get (actor_maps (shared w) ! worker_idx wk) i \<noteq> None \<Longrightarrow> life i (log w') = Dead"
proof (induction "is" arbitrary: wk w)
  case (Cons j "is")
  obtain r1 wk1 w1 where d: "worker_remove_actor cls j wk w = (r1, wk1, w1)" by (metis prod_cases3)
  with Cons.prems(1) have rest: "worker_remove_all cls is wk1 w1 = (Inr (), wk', w')"
    by (auto split: sum.splits)
  have k1: "worker_idx wk1 = worker_idx wk" "length (actor_maps (shared w1)) = length (actor_maps (shared w))"
    using worker_remove_kept[OF d] by (simp_all add: others_kept_def)
  have n1: "worker_idx wk1 < length (actor_maps (shared w1))" using k1 Cons.prems(5) by simp
  note l2 = worker_remove_all_life[OF rest n1]
  have f1: "few w1" using l2 Cons.prems(4) by (auto simp: life_ext_def intro: few_prefix)
  have l1: "lives {} w1" using worker_remove_life[OF d Cons.prems(5)] Cons.prems(3) f1 by (simp add: life_ext_def)
  note rd = worker_remove_dead[OF d Cons.prems(2,3) f1 Cons.prems(5)]
  show ?case
  proof (cases "i = j")
    case True
    with rd(1) Cons.prems(7) have "life i (log w1) = Dead" by simp
    from life_ext_dead[OF l2 l1 Cons.prems(4) this] show ?thesis .
  next
    case False
    with rd(3)[OF False Cons.prems(5)] Cons.prems(7)
    have "hm_get (actor_maps (shared w1) ! worker_idx wk1) i \<noteq> None" by (auto simp: k1)
    with Cons.IH[OF rest rd(2) l1 Cons.prems(4) n1] Cons.prems(6) False show ?thesis by simp
  qed
qed simp

end
