(* ===== verification/Runtime_Props.thy ===== *)
theory Runtime_Props
  imports Runtime_Cells Demo
begin

text \<open>
  The properties of the multi-threaded \<^verbatim>\<open>Runtime\<close>: what holds in every state it can reach,
  whatever the interleaving of its workers with each other and with the threads that use it,
  what a dispatch, a panic and a shutdown do to the actors and callers concerned, and that the
  loop of a worker ends when it is told to.
\<close>

section \<open>Reachable states\<close>

lemma rt_reach_comm:
  "rt_with_threads n e = Inr rt0 \<Longrightarrow> rt_steps order cls rt0 rt \<Longrightarrow> rt_comm rt"
  by (rule rt_steps_comm[OF _ rt_comm_new])

lemma rt_reach_lives:
  assumes "rt_with_threads n e = Inr rt0" and "rt_steps order cls rt0 rt" and "few (rt_world rt)"
  shows "lives {} (rt_world rt)"
  using rt_steps_life[OF assms(2) rt_comm_new[OF assms(1)]] rt_lives_new[OF assms(1)] assms(3)
  by (simp add: life_ext_def)

lemma run_worker_step:
  assumes "n < length (rt_workers rt)"
  shows "rt_workers (run_worker order cls n rt) ! n = fst (worker_step order cls (rt_workers rt ! n) (rt_world rt))"
    and "rt_world (run_worker order cls n rt) = snd (worker_step order cls (rt_workers rt ! n) (rt_world rt))"
    and "k \<noteq> n \<Longrightarrow> rt_workers (run_worker order cls n rt) ! k = rt_workers rt ! k"
    and "length (rt_workers (run_worker order cls n rt)) = length (rt_workers rt)"
  using assms by (simp_all add: run_worker_def split: prod.splits)

text \<open>An actor in one worker's map is in no other.\<close>

lemma stored_once:
  assumes "stored_count w i \<le> 1" and "m < length (actor_maps (shared w))" and "k < length (actor_maps (shared w))"
    and "hm_get (actor_maps (shared w) ! m) i \<noteq> None" and "hm_get (actor_maps (shared w) ! k) i \<noteq> None"
  shows "m = k"
proof (rule ccontr)
  assume ne: "m \<noteq> k"
  define w' where "w' = upd_shared (\<lambda>s. s\<lparr>actor_maps := (actor_maps s)[m := hm_new]\<rparr>) w"
  have maps: "actor_maps (shared w') = (actor_maps (shared w))[m := hm_new]" by (simp add: w'_def)
  have "stored_count w' i + 1 = stored_count w i" using stored_count_update[OF assms(2) maps, of i] assms(4) by simp
  moreover have "stored_count w' i > 0"
    by (rule stored_count_pos[of k]) (use assms(3,5) ne in \<open>simp_all add: maps\<close>)
  ultimately show False using assms(1) by simp
qed

section \<open>A runtime of two workers\<close>

text \<open>
  The counter of the demo program on a runtime with two workers: just started, with the
  counter's spawn waiting for its worker, with the worker's confirmation, and with a request
  in the worker's channel.
\<close>

type_synonym demo_runtime = "(demo_val, string list) runtime"

definition duo_start :: demo_runtime where
  "duo_start = (case rt_with_threads 2 [] of Inr rt \<Rightarrow> rt | Inl _ \<Rightarrow> undefined)"

definition duo_asked :: demo_runtime where
  "duo_asked = snd (rt_spawn_begin demo_started counter_type (CounterActor 0) duo_start)"

definition duo_spawned :: demo_runtime where
  "duo_spawned = run_worker id (demo_classes True) 0 duo_asked"

definition duo_addr :: addr where
  "duo_addr = addr_new (ActorId 1) 0 counter_type"

definition duo_sent :: demo_runtime where
  "duo_sent = duo_spawned\<lparr>rt_world := snd (addr_send_begin duo_addr Increment (rt_world duo_spawned))\<rparr>"

definition duo_stopping :: demo_runtime where
  "duo_stopping = run_worker id (demo_classes True) 0 (rt_shutdown duo_sent)"

definition duo_half :: demo_runtime where
  "duo_half = run_worker id (demo_classes True) 0 duo_stopping"

definition duo_ended :: demo_runtime where
  "duo_ended = run_worker id (demo_classes True) 1 (run_worker id (demo_classes True) 1 duo_half)"

lemma duo_start_new: "rt_with_threads 2 [] = Inr duo_start"
  by (simp add: duo_start_def rt_with_threads_def)

lemma rt_work_run:
  assumes "rt_steps order cls rt0 rt" and "n < length (rt_workers rt)"
    and "case wk_place (rt_workers (run_worker order cls n rt) ! n) of Blocked_on _ \<Rightarrow> False | _ \<Rightarrow> True"
  shows "rt_steps order cls rt0 (run_worker order cls n rt)"
  using assms by (intro rt_trans[OF assms(1) rt_work]) (auto split: worker_place.splits)

lemma duo_steps:
  "rt_steps id (demo_classes True) duo_start duo_asked"
  "rt_steps id (demo_classes True) duo_start duo_spawned"
  "rt_steps id (demo_classes True) duo_start duo_sent"
  "rt_steps id (demo_classes True) duo_start duo_stopping"
  "rt_steps id (demo_classes True) duo_start duo_half"
  "rt_steps id (demo_classes True) duo_start duo_ended"
proof -
  show 1: "rt_steps id (demo_classes True) duo_start duo_asked"
    unfolding duo_asked_def by (rule rt_trans[OF rt_refl rt_spawn]) (rule prod.collapse[symmetric])
  show 2: "rt_steps id (demo_classes True) duo_start duo_spawned"
    unfolding duo_spawned_def by (rule rt_work_run[OF 1]) code_simp+
  show 3: "rt_steps id (demo_classes True) duo_start duo_sent"
    unfolding duo_sent_def by (rule rt_trans[OF 2 rt_send])
  show 4: "rt_steps id (demo_classes True) duo_start duo_stopping"
    unfolding duo_stopping_def by (rule rt_work_run[OF rt_trans[OF 3 rt_stop]]) code_simp+
  show 5: "rt_steps id (demo_classes True) duo_start duo_half"
    unfolding duo_half_def by (rule rt_work_run[OF 4]) code_simp+
  have "rt_steps id (demo_classes True) duo_start (run_worker id (demo_classes True) 1 duo_half)"
    by (rule rt_work_run[OF 5]) code_simp+
  then show "rt_steps id (demo_classes True) duo_start duo_ended"
    unfolding duo_ended_def by (rule rt_work_run) code_simp+
qed

lemma duo_few:
  "few (rt_world duo_sent)" "few (rt_world duo_stopping)" "few (rt_world duo_half)"
proof -
  have "started_count (log (rt_world duo_sent)) = 1" "started_count (log (rt_world duo_stopping)) = 1"
    "started_count (log (rt_world duo_half)) = 1" by code_simp+
  then show "few (rt_world duo_sent)" "few (rt_world duo_stopping)" "few (rt_world duo_half)"
    by (simp_all add: few_def)
qed

lemma duo_stored:
  "hm_get (actor_maps (shared (rt_world duo_sent)) ! 0) (ActorId 1) =
     Some \<lparr>actor = \<lparr>any_type = counter_type, any_val = CounterActor 0\<rparr>, on_stop = OnStopFn counter_type\<rparr>"
  "hm_get (actor_maps (shared (rt_world duo_stopping)) ! 0) (ActorId 1) =
     Some \<lparr>actor = \<lparr>any_type = counter_type, any_val = CounterActor 0\<rparr>, on_stop = OnStopFn counter_type\<rparr>"
  by (code_simp)+

section \<open>Properties of all interleavings\<close>

text \<open>
  C2: in every state a runtime can reach, whatever the interleaving, as long as the id counter
  has not wrapped: each actor's callbacks have run in the documented order, no two workers
  store the same actor, and stored actors are started and not stopped.
\<close>

theorem rt_lifecycle:
  assumes "rt_with_threads n e = Inr rt0" and "rt_steps order cls rt0 rt" and "few (rt_world rt)"
  shows "(\<forall>i. life i (log (rt_world rt)) \<noteq> Broken)
    \<and> (\<forall>m k i. m < length (actor_maps (shared (rt_world rt))) \<and> k < length (actor_maps (shared (rt_world rt)))
         \<and> hm_get (actor_maps (shared (rt_world rt)) ! m) i \<noteq> None
         \<and> hm_get (actor_maps (shared (rt_world rt)) ! k) i \<noteq> None \<longrightarrow> m = k)
    \<and> (\<forall>m i. m < length (actor_maps (shared (rt_world rt)))
         \<and> hm_get (actor_maps (shared (rt_world rt)) ! m) i \<noteq> None \<longrightarrow> life i (log (rt_world rt)) = Alive)"
proof -
  note l = rt_reach_lives[OF assms]
  have s: "stored_count (rt_world rt) i \<le> 1" for i
    using l by (auto simp: lives_def place_count_def dest: spec[of _ i])
  have "\<forall>i. life i (log (rt_world rt)) \<noteq> Broken" using l by (simp add: lives_def)
  then show ?thesis using stored_once[OF s] lives_stored[OF l] by blast
qed

theorem rt_lifecycle_witness:
  "life (ActorId 1) (log (rt_world duo_sent)) = Alive
   \<and> hm_get (actor_maps (shared (rt_world duo_sent)) ! 1) (ActorId 1) = None"
proof -
  have "length (actor_maps (shared (rt_world duo_sent))) = 2" by code_simp
  then have "0 < length (actor_maps (shared (rt_world duo_sent)))" "1 < length (actor_maps (shared (rt_world duo_sent)))"
    by simp_all
  moreover have "hm_get (actor_maps (shared (rt_world duo_sent)) ! 0) (ActorId 1) \<noteq> None"
    by (simp add: duo_stored(1))
  ultimately show ?thesis
    using rt_lifecycle[OF duo_start_new duo_steps(3) duo_few(1)] zero_neq_one by blast
qed

text \<open>
  C4: no caller of \<^verbatim>\<open>Addr::send\<close> is forgotten by the runtime. In every reachable state a reply
  somebody waits for belongs to exactly one envelope, in a worker's channel or in a mailbox of
  a worker's scheduler; a reply already given or dropped belongs to none.
\<close>

theorem rt_replies_accounted:
  assumes "rt_with_threads n e = Inr rt0" and "rt_steps order cls rt0 rt"
  shows "count (held_by (rt_workers rt)) r + count (owed (rt_world rt)) r =
    (if r < length (replies (rt_world rt)) \<and> replies (rt_world rt) ! r = Pending then 1 else 0)"
  using rt_reach_comm[OF assms] by (simp add: rt_comm_def acct_def)

theorem rt_replies_accounted_witness:
  "replies (rt_world duo_sent) ! 0 = Pending
   \<and> count (held_by (rt_workers duo_sent)) 0 + count (owed (rt_world duo_sent)) 0 = 1"
proof -
  have "0 < length (replies (rt_world duo_sent))" and "replies (rt_world duo_sent) ! 0 = Pending"
    by code_simp+
  with rt_replies_accounted[OF duo_start_new duo_steps(3), of 0] show ?thesis by simp
qed

lemma rt_ended_settled:
  assumes "rt_comm rt" and "rt_join rt \<noteq> None"
  shows "chan_queue (chan_at (rt_world rt) k) = [] \<and> \<not> chan_open (chan_at (rt_world rt) k)"
    and "r < length (replies (rt_world rt)) \<Longrightarrow> replies (rt_world rt) ! r \<noteq> Pending"
proof -
  let ?w = "rt_world rt" and ?wks = "rt_workers rt"
  note c = assms(1)
  have ended: "\<forall>wk \<in> set ?wks. wk_ended wk" using assms(2) by (auto simp: rt_join_def list_all_iff split: if_splits)
  have closed: "wk_closed (?wks ! k) ?w" if "k < length ?wks" for k
    using c ended that by (simp add: rt_comm_def wk_good_def)
  have ch: "chan_queue (chan_at ?w k) = [] \<and> \<not> chan_open (chan_at ?w k)" for k
  proof (cases "k < length ?wks")
    case True
    with closed[OF True] c show ?thesis
      by (simp add: wk_closed_def wk_chan_def rt_comm_def rt_shape_def Let_def)
  next
    case False
    with c show ?thesis by (simp add: rt_comm_def rt_shape_def Let_def chan_at_def)
  qed
  then show "chan_queue (chan_at ?w k) = [] \<and> \<not> chan_open (chan_at ?w k)" .
  have "\<forall>wk \<in> set ?wks. mailbox_replies (wk_scheduler wk) = {#}"
    using closed by (metis in_set_conv_nth mailbox_replies_new wk_closed_def)
  then have "held_by ?wks = {#}" unfolding held_by_def by (simp cong: map_cong)
  moreover have "owed ?w = {#}" by (simp add: owed_def ch)
  ultimately have "\<forall>r < length (replies ?w). replies ?w ! r \<noteq> Pending"
    using c by (simp add: rt_comm_def acct_def) (metis zero_neq_one)
  then show "r < length (replies ?w) \<Longrightarrow> replies ?w ! r \<noteq> Pending" by simp
qed

text \<open>
  C15: once every worker thread has ended, by returning or by a panic, every send has its
  result, and no send through an address of this runtime can wait any more.
\<close>

theorem rt_ended_answers_all:
  assumes "rt_with_threads n e = Inr rt0" and "rt_steps order cls rt0 rt" and "rt_join rt \<noteq> None"
  shows "(\<forall>r < length (replies (rt_world rt)). addr_send_result r (rt_world rt) \<noteq> None)
    \<and> (\<forall>adr m. fst (addr_send_begin adr m (rt_world rt)) = Inl RuntimeShutdown)"
  using rt_ended_settled[OF rt_reach_comm[OF assms(1,2)] assms(3)]
  by (auto simp: addr_send_result_def split: reply.splits)

theorem rt_ended_answers_all_witness:
  "addr_send_result 0 (rt_world duo_ended) = Some (Inl ActorNotRunning)
   \<and> fst (addr_send_begin duo_addr Increment (rt_world duo_ended)) = Inl RuntimeShutdown"
proof -
  have j: "rt_join duo_ended \<noteq> None" by code_simp
  have "addr_send_result 0 (rt_world duo_ended) = Some (Inl ActorNotRunning)" by code_simp
  with rt_ended_answers_all[OF duo_start_new duo_steps(6) j] show ?thesis by blast
qed

section \<open>Placement\<close>

text \<open>
  New actors are placed round-robin. As long as the worker counter does not wrap, as many
  consecutive picks as there are workers hit every worker exactly once, in cyclic order from
  where the counter stands.
\<close>

theorem round_robin_fair:
  assumes "num_workers (shared w) > 0" and "unat (next_worker (shared w)) + num_workers (shared w) \<le> 2 ^ 64"
    and "pick_many (num_workers (shared w)) w = (ks, w')"
  shows "distinct ks \<and> set ks = {..<num_workers (shared w)}
    \<and> (\<forall>j < length ks. ks ! j = (unat (next_worker (shared w)) + j) mod num_workers (shared w))"
proof -
  let ?n = "num_workers (shared w)"
  have ks: "ks = map (\<lambda>j. (unat (next_worker (shared w)) + j) mod ?n) [0..<?n]"
    using pick_many_no_wrap[OF assms(2)] assms(3) by simp
  have d: "distinct ks" unfolding ks by (rule consecutive_residues)
  have "set ks \<subseteq> {..<?n}" using assms(1) by (auto simp: ks)
  moreover have "card (set ks) = card {..<?n}" using distinct_card[OF d] by (simp add: ks)
  ultimately have "set ks = {..<?n}" by (intro card_subset_eq) simp_all
  with d show ?thesis by (simp add: ks)
qed

theorem round_robin_fair_witness:
  "fst (pick_many 2 (rt_world duo_start)) = [0, 1]
   \<and> set (fst (pick_many 2 (rt_world duo_start))) = {..<2}"
proof -
  have n: "num_workers (shared (rt_world duo_start)) = 2" and nw: "next_worker (shared (rt_world duo_start)) = 0"
    by code_simp+
  obtain ks w' where p: "pick_many 2 (rt_world duo_start) = (ks, w')" by fastforce
  have "fst (pick_many 2 (rt_world duo_start)) = [0, 1]" by code_simp
  moreover have "set ks = {..<2}"
    using round_robin_fair[of "rt_world duo_start" ks w'] n nw p by simp
  ultimately show ?thesis by (simp add: p)
qed

end
