(* ===== verification/Runtime_Effects.thy ===== *)
theory Runtime_Effects
  imports Runtime_Props
begin

text \<open>
  What single steps of a worker do, in any reachable state: a shutdown stops every stored actor
  and abandons unread messages, and the panic of a handler is contained to its actor and its
  caller.
\<close>

section \<open>A stopping worker\<close>

lemma worker_end_frame:
  assumes "worker_end place wk w = (wk', w')"
  shows "log w' = log w" "actor_maps (shared w') = actor_maps (shared w)" "wk_place wk' = place"
    "settled w w'"
proof -
  show "log w' = log w" "actor_maps (shared w') = actor_maps (shared w)" "wk_place wk' = place"
    using assms by (auto simp: worker_end_def Let_def)
  obtain w2 es fs where "w' = drop_envelopes fs (drop_envelopes es w2)" and "replies w2 = replies w"
    using assms by (auto simp: worker_end_def Let_def)
  then show "settled w w'" using settled_trans[OF settled_trans[OF settled_same settled_drop] settled_drop] by simp
qed

lemma worker_end_drops:
  assumes "worker_end place wk w = (wk', w')"
  obtains w2 fs where "w' = drop_envelopes fs (drop_envelopes (chan_queue (chan_at w (wk_chan wk w))) w2)"
    and "replies w2 = replies w"
proof -
  let ?w1 = "fold drop_control_msg (chan_queue (wk_control wk w)) (set_control wk (snd (chan_drop_rx (wk_control wk w))) w)"
  let ?w2 = "upd_chan (wk_chan wk ?w1) (\<lambda>c. snd (chan_drop_rx c)) ?w1"
  have "w' = drop_envelopes (concat (map snd (mailboxes (wk_scheduler wk))))
      (drop_envelopes (chan_queue (chan_at ?w1 (wk_chan wk ?w1))) ?w2)"
    using assms by (simp add: worker_end_def Let_def)
  moreover have "wk_chan wk ?w1 = wk_chan wk w" by (simp add: wk_chan_def)
  ultimately show ?thesis by (intro that[of _ ?w2]) simp_all
qed

lemma worker_at:
  assumes "rt_with_threads k e = Inr rt0" and "rt_steps order cls rt0 rt" and "n < length (rt_workers rt)"
  obtains held where "wk_inv held (rt_workers rt ! n) (rt_world rt)" and "rt_comm rt"
    and "worker_idx (rt_workers rt ! n) = n" and "wk_chan (rt_workers rt ! n) (rt_world rt) = n"
    and "n < length (actor_maps (shared (rt_world rt)))"
proof -
  have c: "rt_comm rt" by (rule rt_reach_comm[OF assms(1,2)])
  obtain rest where "held_by (rt_workers rt) = mailbox_replies (wk_scheduler (rt_workers rt ! n)) + rest"
    using held_by_member[OF assms(3)] by metis
  from rt_comm_worker[OF c assms(3) this] c assms(3) show ?thesis
    by (intro that[of rest]) (simp_all add: rt_comm_def rt_shape_def Let_def wk_chan_def)
qed

lemma run_stopping:
  assumes n: "n < length (rt_workers rt)" and pl: "wk_place (rt_workers rt ! n) = Stopping"
    and ex: "wk_place (rt_workers (run_worker order cls n rt) ! n) = Exited"
  obtains wk1 w1 where "worker_stop_all order cls (rt_workers rt ! n) (rt_world rt) = (Inr (), wk1, w1)"
    and "worker_end Exited wk1 w1 = (rt_workers (run_worker order cls n rt) ! n, rt_world (run_worker order cls n rt))"
proof -
  obtain res wk1 w1 where s: "worker_stop_all order cls (rt_workers rt ! n) (rt_world rt) = (res, wk1, w1)"
    by (metis prod_cases3)
  obtain wk' w' where st: "worker_step order cls (rt_workers rt ! n) (rt_world rt) = (wk', w')" by fastforce
  have run: "rt_workers (run_worker order cls n rt) ! n = wk'" "rt_world (run_worker order cls n rt) = w'"
    using run_worker_step(1,2)[OF n, of order cls] st by simp_all
  have "res = Inr () \<and> worker_end Exited wk1 w1 = (wk', w')"
  proof (cases res)
    case (Inr u)
    with st s pl show ?thesis by (simp add: worker_step_def step_stop_def)
  next
    case (Inl f)
    then have "end_step (Inl f, wk1, w1) id = (wk', w')"
      using st s pl by (simp add: worker_step_def step_stop_def)
    then have "wk_place wk' \<noteq> Exited"
      by (cases f) (auto simp: end_step_def dest: worker_end_frame(3))
    with ex run show ?thesis by simp
  qed
  with s run show ?thesis by (intro that[of wk1 w1]) simp_all
qed

text \<open>
  C10: when a worker that is shutting down returns, every actor its map held has been stopped and
  removed, whatever the order of the \<^verbatim>\<open>HashMap\<close>'s keys and whatever the other \<^verbatim>\<open>stopped\<close>
  callbacks did.
\<close>

theorem rt_stop_all:
  assumes "rt_with_threads k e = Inr rt0" and "rt_steps order cls rt0 rt" and "n < length (rt_workers rt)"
    and "wk_place (rt_workers rt ! n) = Stopping" and "permutes_keys order"
    and "rt' = run_worker order cls n rt" and "wk_place (rt_workers rt' ! n) = Exited" and "few (rt_world rt')"
    and "hm_get (actor_maps (shared (rt_world rt)) ! n) i = Some cell"
  shows "life i (log (rt_world rt')) = Dead \<and> hm_get (actor_maps (shared (rt_world rt')) ! n) i = None"
proof -
  obtain held where inv: "wk_inv held (rt_workers rt ! n) (rt_world rt)" and idx: "worker_idx (rt_workers rt ! n) = n"
    and len: "n < length (actor_maps (shared (rt_world rt)))"
    by (rule worker_at[OF assms(1-3)]) (rule that; assumption)
  obtain wk1 w1 where s: "worker_stop_all order cls (rt_workers rt ! n) (rt_world rt) = (Inr (), wk1, w1)"
    and e: "worker_end Exited wk1 w1 = (rt_workers rt' ! n, rt_world rt')"
    using run_stopping[OF assms(3,4), of order cls] assms(6,7) by metis
  note s' = s[unfolded worker_stop_all_def]
  have ok: "cells_ok (rt_world rt)" using inv by (simp add: wk_inv_def wk_core_def)
  have ext: "life_ext {} {} (rt_world rt) w1" by (rule worker_remove_all_life[OF s']) (simp add: idx len)
  have f1: "few w1" using assms(8) worker_end_frame(1)[OF e] by (simp add: few_def)
  then have "few (rt_world rt)" using ext by (auto simp: life_ext_def intro: few_prefix)
  from rt_reach_lives[OF assms(1,2) this] have l: "lives {} (rt_world rt)" .
  with ext f1 have l1: "lives {} w1" by (simp add: life_ext_def)
  have "i \<in> set (order (hm_keys (actor_maps (shared (rt_world rt)) ! worker_idx (rt_workers rt ! n))))"
    by (simp add: permutes_keys_set[OF assms(5)] idx assms(9))
  then have d: "life i (log w1) = Dead"
    by (intro worker_remove_all_dead[OF s' ok l f1]) (simp_all add: idx len assms(9))
  have "length (actor_maps (shared w1)) = length (actor_maps (shared (rt_world rt)))"
    using worker_remove_all_kept[OF s'] by (simp add: others_kept_def)
  then have "hm_get (actor_maps (shared w1) ! n) i = None" by (intro lives_dead_gone[OF l1 d]) (simp add: len)
  with d show ?thesis by (simp add: worker_end_frame(1,2)[OF e])
qed

theorem rt_stop_all_witness:
  "life (ActorId 1) (log (rt_world duo_half)) = Dead
   \<and> hm_get (actor_maps (shared (rt_world duo_half)) ! 0) (ActorId 1) = None"
proof -
  have "0 < length (rt_workers duo_stopping)" "wk_place (rt_workers duo_stopping ! 0) = Stopping"
    "wk_place (rt_workers duo_half ! 0) = Exited"
    by code_simp+
  then show ?thesis
    by (intro rt_stop_all[OF duo_start_new duo_steps(4) _ _ permutes_keys_id duo_half_def _ duo_few(3) duo_stored(2)])
qed

section \<open>Messages a shutdown leaves unread\<close>

text \<open>Queues only grow and no reply is answered.\<close>

definition mail_waits :: "('v, 'e) world \<Rightarrow> ('v, 'e) world \<Rightarrow> bool" where
  "mail_waits w w' \<longleftrightarrow> msg_txs (shared w') = msg_txs (shared w)
   \<and> (\<forall>c. set (chan_queue (chan_at w c)) \<subseteq> set (chan_queue (chan_at w' c)))
   \<and> length (replies w) \<le> length (replies w')
   \<and> (\<forall>r < length (replies w). replies w' ! r \<in> {replies w ! r, Dropped})"

lemma mail_waits_trans: "mail_waits w w' \<Longrightarrow> mail_waits w' w'' \<Longrightarrow> mail_waits w w''"
  unfolding mail_waits_def by (metis (no_types, lifting) insert_iff order.trans order_less_le_trans singletonD)

lemma mail_waits_same:
  "chans w' = chans w \<Longrightarrow> replies w' = replies w \<Longrightarrow> msg_txs (shared w') = msg_txs (shared w) \<Longrightarrow> mail_waits w w'"
  by (simp add: mail_waits_def chan_at_def)

lemma mail_waits_drop: "mail_waits w (drop_envelopes es w)"
proof (induction es arbitrary: w)
  case (Cons e es)
  have "mail_waits w (drop_envelope e w)" by (auto simp: mail_waits_def nth_drop_envelope)
  from mail_waits_trans[OF this Cons.IH] show ?case by simp
qed (simp add: mail_waits_def)

lemma mail_waits_exec:
  assumes "exec p self ctx w = (res, self', ctx', w')"
  shows "mail_waits w w'"
proof -
  have "\<forall>c. \<exists>es. chan_queue (chan_at w' c) = chan_queue (chan_at w c) @ es" "\<exists>rs. replies w' = replies w @ rs"
    using exec_comm[OF assms] by (simp_all add: comm_ext_def)
  moreover have "msg_txs (shared w') = msg_txs (shared w)" using exec_infra[OF assms] by (simp add: infra_def)
  ultimately show ?thesis unfolding mail_waits_def by (metis (no_types, lifting) insertI1 length_append
        le_add1 nth_append set_append sup_ge1)
qed

lemma mail_waits_stop_cell:
  assumes "stop_cell cls i cell wk w = (r, wk', w')" and "cell_ok cell"
  shows "mail_waits w w'"
proof -
  let ?t = "any_type (actor cell)" and ?v = "any_val (actor cell)"
  obtain r1 v1 c1 w1 where x: "exec (cls_stopped (cls ?t) ?v) ?v
      (context_with_spawner i (worker_idx wk)) (log_event (EvStopped i) w) = (r1, v1, c1, w1)" by (metis prod_cases4)
  have "w' = w1 \<or> (\<exists>es. w' = drop_envelopes es w1)"
    using assms x by (cases r1) (auto simp: stop_cell_def call_dispatch_def cell_ok_def forget_actor_def)
  moreover have "mail_waits w (log_event (EvStopped i) w)" by (rule mail_waits_same) simp_all
  ultimately show ?thesis using mail_waits_exec[OF x] mail_waits_drop mail_waits_trans by metis
qed

lemma mail_waits_remove_all:
  "worker_remove_all cls is wk w = (r, wk', w') \<Longrightarrow> cells_ok w \<Longrightarrow>
   worker_idx wk < length (actor_maps (shared w)) \<Longrightarrow> mail_waits w w'"
proof (induction "is" arbitrary: wk w)
  case (Cons i "is")
  obtain r1 wk1 w1 where d: "worker_remove_actor cls i wk w = (r1, wk1, w1)" by (metis prod_cases3)
  obtain co w0 where s: "shared_remove_actor i (worker_idx wk) w = (co, w0)" by fastforce
  have co: "co = hm_get (actor_maps (shared w) ! worker_idx wk) i" using s by (simp add: shared_remove_actor_def)
  have 0: "mail_waits w w0" using s by (intro mail_waits_same) (auto simp: shared_remove_actor_def)
  have ok0: "cells_ok w0" by (rule cells_ok_removed[OF Cons.prems(2) s])
  have "mail_waits w0 w1 \<and> cells_ok w1"
  proof (cases co)
    case None
    with d s have "w1 = drop_envelopes (mailbox (wk_scheduler wk) i) w0"
      by (simp add: worker_remove_actor_def forget_actor_def)
    with ok0 show ?thesis by (simp add: mail_waits_drop cells_ok_def)
  next
    case (Some cell)
    with d s have "stop_cell cls i cell wk w0 = (r1, wk1, w1)" by (simp add: worker_remove_actor_def)
    with mail_waits_stop_cell[OF this] stop_cell_ok[OF this ok0] cells_ok_get[OF Cons.prems(2,3)] co Some
    show ?thesis by simp
  qed
  with 0 have 1: "mail_waits w w1" "cells_ok w1" by (auto intro: mail_waits_trans)
  have "worker_idx wk1 < length (actor_maps (shared w1))"
    using worker_remove_kept[OF d] Cons.prems(3) by (simp add: others_kept_def)
  with Cons.IH 1 Cons.prems(1) d show ?case by (auto intro: mail_waits_trans split: sum.splits)
qed (simp add: mail_waits_same)

lemma drop_envelopes_dropped:
  "e \<in> set es \<Longrightarrow> reply_of e = Some r \<Longrightarrow> r < length (replies w) \<Longrightarrow> replies w ! r \<in> {Pending, Dropped} \<Longrightarrow>
   replies (drop_envelopes es w) ! r = Dropped"
proof (induction es arbitrary: w)
  case (Cons e' es)
  let ?w1 = "drop_envelope e' w"
  have 1: "replies ?w1 ! r = (if reply_of e' = Some r \<and> replies w ! r = Pending then Dropped else replies w ! r)"
    by (rule nth_drop_envelope[OF Cons.prems(3)])
  show ?case
  proof (cases "replies ?w1 ! r = Dropped")
    case True
    with settled_drop[of ?w1 es] Cons.prems(3) show ?thesis by (simp add: settled_def)
  next
    case False
    with 1 Cons.prems have "e \<in> set es" "replies ?w1 ! r \<in> {Pending, Dropped}" by (auto split: if_splits)
    with Cons.IH[of ?w1] Cons.prems(2,3) show ?thesis by simp
  qed
qed simp

lemma owed_member:
  assumes "c < length (chans w)" and "r \<in># queue_replies (chan_queue (chan_at w c))"
  shows "r \<in># owed w"
proof -
  have "owed w = queue_replies (chan_queue (chan_at w c))
      + (\<Sum>d \<in> {..<length (chans w)} - {c}. queue_replies (chan_queue (chan_at w d)))"
    unfolding owed_def by (rule sum.remove) (simp_all add: assms(1))
  with assms(2) show ?thesis by simp
qed

lemma queued_reply: "e \<in> set es \<Longrightarrow> reply_of e = Some r \<Longrightarrow> r \<in># queue_replies es"
  by (induction es) auto

lemma rt_owed_pending:
  assumes "rt_comm rt" and "r \<in># owed (rt_world rt)"
  shows "r < length (replies (rt_world rt)) \<and> replies (rt_world rt) ! r = Pending"
proof -
  have "count (held_by (rt_workers rt) + owed (rt_world rt)) r > 0" using assms(2) by simp
  then show ?thesis using assms(1) unfolding rt_comm_def acct_def by (metis less_irrefl)
qed

text \<open>
  C23: a shutdown does not wait for the messages already sent: a request still in the channel of
  a worker that is shutting down is not handled; when the worker has returned, its sender gets
  \<^verbatim>\<open>ActorNotRunning\<close>.
\<close>

theorem rt_shutdown_abandons:
  assumes "rt_with_threads k e = Inr rt0" and "rt_steps order cls rt0 rt" and "n < length (rt_workers rt)"
    and "wk_place (rt_workers rt ! n) = Stopping"
    and "req \<in> set (chan_queue (chan_at (rt_world rt) n))" and "reply_of req = Some r"
    and "rt' = run_worker order cls n rt" and "wk_place (rt_workers rt' ! n) = Exited"
  shows "addr_send_result r (rt_world rt') = Some (Inl ActorNotRunning)"
proof -
  let ?w = "rt_world rt"
  obtain held where inv: "wk_inv held (rt_workers rt ! n) ?w" and c: "rt_comm rt"
    and idx: "worker_idx (rt_workers rt ! n) = n" and ch: "wk_chan (rt_workers rt ! n) ?w = n"
    and len: "n < length (actor_maps (shared ?w))"
    by (rule worker_at[OF assms(1-3)]) (rule that; assumption)
  obtain wk1 w1 where s: "worker_stop_all order cls (rt_workers rt ! n) ?w = (Inr (), wk1, w1)"
    and e: "worker_end Exited wk1 w1 = (rt_workers rt' ! n, rt_world rt')"
    using run_stopping[OF assms(3,4), of order cls] assms(7,8) by metis
  note s' = s[unfolded worker_stop_all_def]
  have ok: "cells_ok ?w" using inv by (simp add: wk_inv_def wk_core_def)
  have mw: "mail_waits ?w w1" by (rule mail_waits_remove_all[OF s' ok]) (simp add: idx len)
  have nc: "n < length (chans ?w)" using c assms(3) by (simp add: rt_comm_def rt_shape_def Let_def)
  have p: "r < length (replies ?w)" "replies ?w ! r = Pending"
    using rt_owed_pending[OF c owed_member[OF nc queued_reply[OF assms(5,6)]]] by simp_all
  then have r1: "r < length (replies w1)" "replies w1 ! r \<in> {Pending, Dropped}"
    using mw by (auto simp: mail_waits_def)
  have "wk_chan wk1 w1 = n"
    using mw worker_remove_all_kept[OF s'] ch by (simp add: wk_chan_def mail_waits_def idx)
  then obtain w2 fs where w': "rt_world rt' = drop_envelopes fs (drop_envelopes (chan_queue (chan_at w1 n)) w2)"
    and w2: "replies w2 = replies w1"
    using worker_end_drops[OF e] by metis
  have "req \<in> set (chan_queue (chan_at w1 n))" using mw assms(5) by (auto simp: mail_waits_def)
  then have "replies (drop_envelopes (chan_queue (chan_at w1 n)) w2) ! r = Dropped"
    by (rule drop_envelopes_dropped[OF _ assms(6)]) (use r1 in \<open>simp_all add: w2\<close>)
  with settled_drop[of "drop_envelopes (chan_queue (chan_at w1 n)) w2" fs] r1(1)
  show ?thesis by (simp add: addr_send_result_def w' settled_def w2)
qed

theorem rt_shutdown_abandons_witness:
  "replies (rt_world duo_stopping) ! 0 = Pending
   \<and> addr_send_result 0 (rt_world duo_half) = Some (Inl ActorNotRunning)"
proof -
  have q: "\<lparr>env_actor_id = ActorId 1, env_dispatch = SendFn counter_type Increment 0\<rparr>
      \<in> set (chan_queue (chan_at (rt_world duo_stopping) 0))" by code_simp
  have "0 < length (rt_workers duo_stopping)" "wk_place (rt_workers duo_stopping ! 0) = Stopping"
    "wk_place (rt_workers duo_half ! 0) = Exited" "replies (rt_world duo_stopping) ! 0 = Pending"
    by code_simp+
  then show ?thesis
    using rt_shutdown_abandons[OF duo_start_new duo_steps(4) _ _ q _ duo_half_def]
    by (simp add: reply_of_def)
qed

section \<open>A panicking handler\<close>

text \<open>The reply of a request whose handler panics is dropped.\<close>

lemma call_panic_reply:
  assumes "call_dispatch cls f act ctx w = (Inl (Panicking p), act', ctx', w')" and "f = SendFn a m r"
    and "r < length (replies w)" and "replies w ! r = Pending"
  shows "r < length (replies w')" and "replies w' ! r = Dropped"
proof -
  obtain res1 act1 ctx1 w1 where h: "call_handle cls a m act ctx w = (res1, act1, ctx1, w1)" by (metis prod_cases4)
  from call_handle_comm[OF h] assms(3,4) have "r < length (replies w1)" "replies w1 ! r = Pending"
    by (auto simp: comm_ext_def nth_append)
  moreover have "w' = reply_drop r w1"
    using assms(1,2) h by (auto simp: call_dispatch_def split: sum.splits fault.splits)
  ultimately show "r < length (replies w')" "replies w' ! r = Dropped"
    by (simp_all add: nth_reply_drop)
qed

lemma settled_dropped: "settled w w' \<Longrightarrow> r < length (replies w) \<Longrightarrow> replies w ! r = Dropped \<Longrightarrow> replies w' ! r = Dropped"
  by (simp add: settled_def)

text \<open>
  A worker's dispatch whose handler panics. What \<^verbatim>\<open>stopped\<close> does afterwards is arbitrary, except
  that it returns.
\<close>

lemma dispatch_panic:
  assumes core: "wk_core cur (queue_replies [e] + held) wk w" and m: "is_message e" and l: "lives {} w"
    and s: "shared_remove_actor (env_actor_id e) (worker_idx wk) w = (Some cell, w1)"
    and p: "call_dispatch cls (env_dispatch e) (actor cell) (context_with_spawner (env_actor_id e) (worker_idx wk)) w1
      = (Inl (Panicking p), act', ctx', w2)"
    and d: "worker_dispatch cls e wk w = (Inr (), wk', w')" and f: "few w'"
  shows "life (env_actor_id e) (log w') = Dead"
    and "lives {} w'" and "mailbox (wk_scheduler wk') (env_actor_id e) = []"
    and "reply_of e = Some r \<Longrightarrow> addr_send_result r w' = Some (Inl ActorNotRunning)"
    and "k < length (actor_maps (shared w)) \<Longrightarrow> j \<noteq> env_actor_id e \<Longrightarrow>
      hm_get (actor_maps (shared w) ! k) j = Some c \<Longrightarrow> hm_get (actor_maps (shared w') ! k) j = Some c"
proof -
  let ?i = "env_actor_id e" and ?n = "worker_idx wk"
  let ?cell = "cell\<lparr>actor := act'\<rparr>"
  let ?w3 = "log_event (EvPanicked ?i (panic_reason p)) w2"
  have n: "?n < length (actor_maps (shared w))" using core by (simp add: wk_core_def)
  have cell: "hm_get (actor_maps (shared w) ! ?n) ?i = Some cell" using s by (simp add: shared_remove_actor_def)
  have w1: "replies w1 = replies w" "length (actor_maps (shared w1)) = length (actor_maps (shared w))"
    using s by (auto simp: shared_remove_actor_def)
  have st: "stop_cell cls ?i ?cell wk ?w3 = (Inr (), wk', w')"
    using d s p by (simp add: worker_dispatch_def Let_def)
  have mm: "\<forall>a. env_dispatch e \<noteq> OnStopFn a" using m by (auto simp: is_message_def)
  have ok: "cell_ok ?cell"
    using wk_core_cell[OF core cell] call_dispatch_type[OF p] by (intro cell_ok_actor) auto
  have x: "life_ext {?i} {?i} w1 w2" by (rule call_dispatch_life(2)[OF p _ mm]) simp
  have f3: "few ?w3" using stop_cell_life[OF st] f by (auto simp: life_ext_def intro: few_prefix)
  then have f2: "few w2" by (simp add: few_def)
  then have f1: "few w1" using x by (auto simp: life_ext_def intro: few_prefix)
  have l1: "lives {?i} w1" using shared_remove_life[OF s n] l f1 by (simp add: life_ext_def)
  then have l2: "lives {?i} w2" using x f2 by (simp add: life_ext_def)
  have l3: "lives {?i} ?w3" by (rule lives_panicked[OF l2]) simp
  note sd = stop_cell_dead[OF st ok l3 f]
  show "life ?i (log w') = Dead" "lives {} w'" by (rule sd)+
  show "mailbox (wk_scheduler wk') ?i = []"
    using st by (auto simp: stop_cell_def forget_actor_def split: prod.splits sum.splits)
  show "addr_send_result r w' = Some (Inl ActorNotRunning)" if r: "reply_of e = Some r"
  proof -
    obtain a msg where fn: "env_dispatch e = SendFn a msg r" using r by (auto simp: reply_of_def split: dispatch_fn.splits)
    have "acct (add_mset r (mailbox_replies (wk_scheduler wk) + held)) w"
      using core r by (simp add: wk_core_def ac_simps)
    from acct_pendingD[OF this] have "r < length (replies w1)" "replies w1 ! r = Pending" by (simp_all add: w1)
    from call_panic_reply[OF p fn this] have "r < length (replies ?w3)" "replies ?w3 ! r = Dropped" by simp_all
    from settled_dropped[OF stop_cell_settled[OF st ok] this] show ?thesis by (simp add: addr_send_result_def)
  qed
  have c12: "cells_stay w1 w2" by (rule call_dispatch_cells[OF p l1 _ f2]) simp
  show "hm_get (actor_maps (shared w') ! k) j = Some c"
    if "k < length (actor_maps (shared w))" "j \<noteq> ?i" "hm_get (actor_maps (shared w) ! k) j = Some c"
    using cells_stay_remove[OF s that(1,2)] that(1,3) c12 sd(3) by (simp add: cells_stay_def w1)
qed


text \<open>A counter at its largest value, with a request to increment it about to be dispatched.\<close>

definition full_sent :: demo_runtime where
  "full_sent =
     (let rt1 = run_worker id (demo_classes True) 0
                  (snd (rt_spawn_begin demo_started counter_type (CounterActor (- 1)) duo_start))
      in rt1\<lparr>rt_world := snd (addr_send_begin duo_addr Increment (rt_world rt1))\<rparr>)"

definition full_ready :: demo_runtime where
  "full_ready = (run_worker id (demo_classes True) 0 ^^ 3) full_sent"

lemma full_ready_steps: "rt_steps id (demo_classes True) duo_start full_ready"
proof -
  let ?run = "run_worker id (demo_classes True) 0"
  let ?rt0 = "snd (rt_spawn_begin demo_started counter_type (CounterActor (- 1)) duo_start)"
  have 0: "rt_steps id (demo_classes True) duo_start ?rt0"
    by (rule rt_trans[OF rt_refl rt_spawn]) (rule prod.collapse[symmetric])
  have 1: "rt_steps id (demo_classes True) duo_start (?run ?rt0)"
    by (rule rt_work_run[OF 0]) code_simp+
  have 2: "rt_steps id (demo_classes True) duo_start full_sent"
    unfolding full_sent_def Let_def by (rule rt_trans[OF 1 rt_send])
  have 3: "rt_steps id (demo_classes True) duo_start (?run full_sent)"
    by (rule rt_work_run[OF 2]) code_simp+
  have 4: "rt_steps id (demo_classes True) duo_start (?run (?run full_sent))"
    by (rule rt_work_run[OF 3]) code_simp+
  have 5: "rt_steps id (demo_classes True) duo_start (?run (?run (?run full_sent)))"
    by (rule rt_work_run[OF 4]) code_simp+
  then show ?thesis by (simp add: full_ready_def numeral_3_eq_3)
qed


end
