(* ===== verification/Runtime_Loop.thy ===== *)
theory Runtime_Loop
  imports Runtime_Effects
begin

text \<open>
  The loop of a worker on its own: a told worker ends, an idle one does not, and the two
  round trips through it, a spawn and a request.
\<close>

section \<open>A worker that is told to shut down ends\<close>

definition told :: "'v worker \<Rightarrow> ('v, 'e) world \<Rightarrow> bool" where
  "told wk w \<longleftrightarrow> Shutdown \<in> set (chan_queue (wk_control wk w))"

definition over :: "'v worker \<Rightarrow> bool" where
  "over wk \<longleftrightarrow> (case wk_place wk of Exited \<Rightarrow> True | Unwound_by _ \<Rightarrow> True | Blocked_on _ \<Rightarrow> True | _ \<Rightarrow> False)"

text \<open>
  How many more steps a worker can make that has been told: it reads its control channel up to
  the shutdown before anything else, after it has finished the round it is in.
\<close>

definition steps_left :: "'v worker \<Rightarrow> ('v, 'e) world \<Rightarrow> nat" where
  "steps_left wk w =
     (case wk_place wk of
        At_control \<Rightarrow> length (chan_queue (wk_control wk w)) + 1
      | At_recv \<Rightarrow> length (chan_queue (wk_control wk w)) + 2
      | At_schedule \<Rightarrow> length (chan_queue (wk_control wk w)) + 3
      | At_drain \<Rightarrow> length (chan_queue (wk_control wk w)) + length (chan_queue (chan_at w (wk_chan wk w))) + 4
      | Stopping \<Rightarrow> 1
      | _ \<Rightarrow> 0)"

definition shutting :: "'v worker \<Rightarrow> ('v, 'e) world \<Rightarrow> bool" where
  "shutting wk w \<longleftrightarrow> over wk \<or> wk_place wk = Stopping
   \<or> (told wk w \<and> worker_idx wk < length (control_txs (shared w)) \<and> wk_chan wk w < length (chans w))"

lemma over_step: "over wk \<Longrightarrow> worker_step order cls wk w = (wk, w)"
  by (auto simp: over_def worker_step_def split: worker_place.splits)

lemma over_end: "worker_end Exited wk w = (wk', w') \<Longrightarrow> over wk'"
  "worker_end (Unwound_by p) wk w = (wk', w') \<Longrightarrow> over wk'"
  by (auto simp: over_def dest: worker_end_frame(3))

lemma end_step_over: "end_step (Inl f, wk, w) cont = (wk', w') \<Longrightarrow> over wk'"
  by (cases f) (auto simp: end_step_def over_def dest: worker_end_frame(3))

lemma over_steps_left: "steps_left wk w = 0 \<longleftrightarrow> over wk"
  by (simp add: over_def steps_left_def split: worker_place.split)

lemma step_control_shutting:
  assumes "step_control wk w = (wk', w')" and "wk_place wk = At_control" and "told wk w"
    and "worker_idx wk < length (control_txs (shared w))" and "wk_chan wk w < length (chans w)"
  shows "shutting wk' w' \<and> steps_left wk' w' < steps_left wk w"
proof -
  obtain m ms where q: "chan_queue (wk_control wk w) = m # ms" using assms(3) by (cases "chan_queue (wk_control wk w)") (auto simp: told_def)
  show ?thesis
  proof (cases m)
    case Shutdown
    with assms q show ?thesis
      by (auto simp: step_control_def chan_try_recv_simps shutting_def steps_left_def)
  next
    case (SpawnActor i act stop k)
    with assms q show ?thesis
      by (auto simp: step_control_def chan_try_recv_simps shutting_def steps_left_def told_def wk_control_def wk_chan_def)
  qed
qed

lemma worker_dispatch_control:
  assumes "worker_dispatch cls e wk w = (Inr (), wk', w')"
  shows "control_txs (shared w') = control_txs (shared w)" and "worker_idx wk' = worker_idx wk"
    and "length (chans w') = length (chans w)" and "msg_txs (shared w') = msg_txs (shared w)"
proof -
  have st: "control_txs (shared w2) = control_txs (shared w1)"
    if "stop_cell cls i cell wk1 w1 = (r, wk2, w2)" for i cell wk1 w1 r wk2 w2
  proof -
    obtain res act' ctx' w3 where d: "call_dispatch cls (on_stop cell) (actor cell)
        (context_with_spawner i (worker_idx wk1)) w1 = (res, act', ctx', w3)" by (metis prod_cases4)
    with that call_dispatch_infra[OF d] show ?thesis
      by (auto simp: stop_cell_def forget_actor_def infra_def split: sum.splits)
  qed
  have sr: "control_txs (shared w1) = control_txs (shared w)" if "shared_remove_actor i n w = (co, w1)" for i n co w1
    using that by (auto simp: shared_remove_actor_def)
  from assms show "control_txs (shared w') = control_txs (shared w)"
    by (cases rule: worker_dispatch_E) (auto dest!: sr st call_dispatch_infra simp: infra_def)
  show "worker_idx wk' = worker_idx wk" "length (chans w') = length (chans w)" "msg_txs (shared w') = msg_txs (shared w)"
    using worker_dispatch_kept[OF assms] by (simp_all add: others_kept_def)
qed

lemma step_schedule_shutting:
  assumes s: "step_schedule cls wk w = (wk', w')" and p: "wk_place wk = At_schedule" and t: "told wk w"
    and n: "worker_idx wk < length (control_txs (shared w))" and c: "wk_chan wk w < length (chans w)"
  shows "shutting wk' w' \<and> steps_left wk' w' < steps_left wk w"
proof (cases "\<exists>i s1 e s2. next_ready (wk_scheduler wk) = (Some i, s1) \<and> dequeue i s1 = (Some e, s2)")
  case False
  then have "w' = w \<and> worker_idx wk' = worker_idx wk \<and> wk_place wk' \<in> {At_recv, At_control}"
    using s by (auto simp: step_schedule_def split: option.splits prod.splits)
  with p t n c show ?thesis by (auto simp: shutting_def steps_left_def told_def wk_control_def wk_chan_def)
next
  case True
  then obtain i s1 e s2 where d: "next_ready (wk_scheduler wk) = (Some i, s1)" "dequeue i s1 = (Some e, s2)" by blast
  obtain res wk1 w1 where ds: "worker_dispatch cls e (wk\<lparr>wk_scheduler := s2\<rparr>) w = (res, wk1, w1)" by (metis prod_cases3)
  have es: "end_step (res, wk1, w1) (\<lambda>wk'. wk'\<lparr>wk_scheduler := requeue_if_ready i (wk_scheduler wk'),
      wk_place := At_control\<rparr>) = (wk', w')"
    using s d ds by (simp add: step_schedule_def)
  show ?thesis
  proof (cases res)
    case (Inl f)
    with es have "over wk'" by (auto intro: end_step_over)
    with p over_steps_left[of wk' w'] show ?thesis by (simp add: shutting_def steps_left_def[of wk])
  next
    case (Inr u)
    with es ds worker_dispatch_control[of cls e "wk\<lparr>wk_scheduler := s2\<rparr>" w wk1 w1] p t n c show ?thesis
      by (auto simp: end_step_def shutting_def steps_left_def told_def wk_control_def wk_chan_def)
  qed
qed

lemma worker_step_shutting:
  assumes s: "worker_step order cls wk w = (wk', w')" and sh: "shutting wk w" and no: "\<not> over wk"
  shows "shutting wk' w' \<and> steps_left wk' w' < steps_left wk w"
proof (cases "wk_place wk")
  case Stopping
  obtain res wk1 w1 where d: "worker_stop_all order cls wk w = (res, wk1, w1)" by (metis prod_cases3)
  have "over wk'"
    using s Stopping d end_step_over[of _ wk1 w1 id wk' w'] over_end(1)[of wk1 w1 wk' w']
    by (auto simp: worker_step_def step_stop_def split: sum.splits)
  with Stopping over_steps_left[of wk' w'] show ?thesis by (simp add: shutting_def steps_left_def[of wk])
next
  case At_control
  with s sh no step_control_shutting[of wk w wk' w'] show ?thesis by (simp add: worker_step_def shutting_def)
next
  case At_schedule
  with s sh no step_schedule_shutting[of cls wk w wk' w'] show ?thesis by (simp add: worker_step_def shutting_def)
next
  case At_drain
  then have t: "told wk w" "worker_idx wk < length (control_txs (shared w))" "wk_chan wk w < length (chans w)"
    using sh no by (simp_all add: shutting_def)
  with s At_drain show ?thesis
    by (auto simp: worker_step_def step_drain_def chan_try_recv_def shutting_def steps_left_def told_def
        wk_control_def wk_chan_def split: list.splits if_splits)
next
  case At_recv
  then have t: "told wk w" "worker_idx wk < length (control_txs (shared w))" "wk_chan wk w < length (chans w)"
    using sh no by (simp_all add: shutting_def)
  with s At_recv show ?thesis
    by (auto simp: worker_step_def step_recv_def chan_try_recv_def shutting_def steps_left_def told_def
        wk_control_def wk_chan_def split: list.splits if_splits)
qed (use no in \<open>simp_all add: over_def\<close>)

lemma worker_steps_over:
  "shutting wk w \<Longrightarrow> steps_left wk w \<le> n \<Longrightarrow> over (fst (worker_steps order cls n wk w))"
proof (induction n arbitrary: wk w)
  case 0
  then show ?case using over_steps_left[of wk w] by simp
next
  case (Suc n)
  obtain wk' w' where s: "worker_step order cls wk w = (wk', w')" by fastforce
  show ?case
  proof (cases "over wk")
    case True
    with Suc.IH[OF Suc.prems(1)] over_steps_left[of wk w] over_step[OF True, of order cls w] show ?thesis by simp
  next
    case False
    with worker_step_shutting[OF s Suc.prems(1) False] Suc.IH[of wk' w'] Suc.prems(2) s show ?thesis by simp
  qed
qed



section \<open>An idle worker never ends\<close>

text \<open>Receiving from a channel that is empty and has a sender left changes nothing.\<close>

lemma idle_control:
  assumes "chan_queue (wk_control wk w) = []" and "chan_senders (wk_control wk w) > 0"
  shows "chan_try_recv (wk_control wk w) = (Empty, wk_control wk w)" and "set_control wk (wk_control wk w) w = w"
proof -
  show "chan_try_recv (wk_control wk w) = (Empty, wk_control wk w)"
    using assms by (simp add: chan_try_recv_simps)
  have "(control_txs (shared w))[worker_idx wk := wk_control wk w] = control_txs (shared w)"
    by (simp add: wk_control_def)
  then show "set_control wk (wk_control wk w) w = w" by (simp add: set_control_def upd_shared_def)
qed



section \<open>A spawn\<close>

text \<open>What \<^verbatim>\<open>started\<close> cannot touch.\<close>

lemma started_infra:
  assumes "rt_spawn_begin st a v rt = (Inr t, rt')" and "rt_comm rt"
  obtains v' w3 where "tk_id t = ActorId (next_id (shared (rt_world rt)))"
    and "tk_worker t = unat (next_worker (shared (rt_world rt))) mod num_workers (shared (rt_world rt))"
    and "tk_type t = a" and "infra (rt_world rt) w3" and "tk_confirm t = length (confirms w3)"
    and "rt' = rt\<lparr>rt_world := upd_shared (\<lambda>s. s\<lparr>control_txs := (control_txs s)[tk_worker t :=
      snd (chan_send (SpawnActor (tk_id t) \<lparr>any_type = a, any_val = v'\<rparr> (OnStopFn a) (tk_confirm t))
        (control_txs (shared w3) ! tk_worker t))]\<rparr>) (w3\<lparr>confirms := confirms w3 @ [Pending]\<rparr>)\<rparr>"
    and "chan_open (control_txs (shared w3) ! tk_worker t)"
proof -
  let ?w = "rt_world rt"
  obtain i w1 where al: "allocate_id ?w = (i, w1)" by fastforce
  obtain idx w2 where pk: "pick_worker w1 = (idx, w2)" by fastforce
  obtain res v' ctx' w3 where x: "exec st v (context_with_spawner i idx) (log_event (EvStarted i a) w2) = (res, v', ctx', w3)"
    by (metis prod_cases4)
  have w12: "w1 = snd (allocate_id ?w)" "w2 = snd (pick_worker w1)" "i = ActorId (next_id (shared ?w))"
    "idx = unat (next_worker (shared ?w)) mod num_workers (shared ?w)"
    using al pk by (auto simp: allocate_id_def pick_worker_def)
  then have "infra ?w (log_event (EvStarted i a) w2)" by (simp add: infra_def cells_ok_def)
  from infra_trans[OF this exec_infra[OF x]] have "infra ?w w3" .
  then have i: "infra ?w w3" .
  obtain q w4 where s: "spawn_remote_begin i idx \<lparr>any_type = a, any_val = v'\<rparr> (OnStopFn a) w3 = (q, w4)" by fastforce
  have "t = \<lparr>tk_id = i, tk_worker = idx, tk_type = a, tk_confirm = projr q\<rparr>" "rt' = rt\<lparr>rt_world := w4\<rparr>" "\<not> isl q"
    using assms(1) al pk x s by (auto simp: rt_spawn_begin_def isl_def split: sum.splits)
  moreover from this s have "q = Inr (length (confirms w3))" "chan_open (control_txs (shared w3) ! idx)"
    "w4 = upd_shared (\<lambda>s. s\<lparr>control_txs := (control_txs s)[idx :=
      snd (chan_send (SpawnActor i \<lparr>any_type = a, any_val = v'\<rparr> (OnStopFn a) (length (confirms w3)))
        (control_txs (shared w3) ! idx))]\<rparr>) (w3\<lparr>confirms := confirms w3 @ [Pending]\<rparr>)"
    by (auto simp: spawn_remote_begin_def Let_def split: if_splits)
  ultimately show ?thesis using i w12(3,4) by (intro that[of w3 v']) simp_all
qed



section \<open>A request\<close>

text \<open>
  An idle worker after a request has been put into its channel: three steps bring it to the
  dispatch.
\<close>

lemma run_worker_eq:
  "worker_step order cls (rt_workers rt ! n) (rt_world rt) = (wk, w) \<Longrightarrow>
   run_worker order cls n rt = \<lparr>rt_world = w, rt_workers = (rt_workers rt)[n := wk]\<rparr>"
  by (simp add: run_worker_def)

lemma control_same: "set_control wk (wk_control wk w) w = w"
  by (simp add: set_control_def upd_shared_def wk_control_def)

lemma step_control_empty:
  "wk_place wk = At_control \<Longrightarrow> chan_queue (wk_control wk w) = [] \<Longrightarrow>
   worker_step order cls wk w = (wk\<lparr>wk_place := At_drain\<rparr>, w)"
  using control_same[of wk w] by (simp add: worker_step_def step_control_def chan_try_recv_simps)

lemma step_drain_one:
  "wk_place wk = At_drain \<Longrightarrow> chan_queue (chan_at w (wk_chan wk w)) = e # es \<Longrightarrow>
   worker_step order cls wk w = (wk\<lparr>wk_scheduler := enqueue e (wk_scheduler wk)\<rparr>,
     upd_chan (wk_chan wk w) (\<lambda>_. (chan_at w (wk_chan wk w))\<lparr>chan_queue := es\<rparr>) w)"
  by (simp add: worker_step_def step_drain_def chan_try_recv_simps)

lemma step_drain_empty:
  assumes "wk_place wk = At_drain" and "chan_queue (chan_at w (wk_chan wk w)) = []"
  shows "worker_step order cls wk w = (wk\<lparr>wk_place := At_schedule\<rparr>, w)"
proof -
  obtain r where r: "chan_try_recv (chan_at w (wk_chan wk w)) = (r, chan_at w (wk_chan wk w))" "\<And>e. r \<noteq> Received e"
    using assms(2) by (auto simp: chan_try_recv_simps)
  from recv_not_Received[OF r] r assms(1) show ?thesis
    by (cases r) (auto simp: worker_step_def step_drain_def)
qed

text \<open>The worker before and after those three steps.\<close>

lemma idle_takes_request:
  assumes idx: "n < length (rt_workers rt)" "worker_idx (rt_workers rt ! n) = n"
    "wk_chan (rt_workers rt ! n) (rt_world rt) = n" "n < length (chans (rt_world rt))"
    and place: "wk_place (rt_workers rt ! n) = At_control"
    and control: "chan_queue (control_txs (shared (rt_world rt)) ! n) = []"
    and chan: "chan_queue (chan_at (rt_world rt) n) = [e]"
  shows "(run_worker order cls n ^^ 3) rt =
    \<lparr>rt_world = upd_chan n (\<lambda>_. (chan_at (rt_world rt) n)\<lparr>chan_queue := []\<rparr>) (rt_world rt),
     rt_workers = (rt_workers rt)[n := (rt_workers rt ! n)\<lparr>wk_scheduler := enqueue e (wk_scheduler (rt_workers rt ! n)),
       wk_place := At_schedule\<rparr>]\<rparr>"
proof -
  let ?wk = "rt_workers rt ! n" and ?w = "rt_world rt"
  let ?w2 = "upd_chan n (\<lambda>_. (chan_at ?w n)\<lparr>chan_queue := []\<rparr>) ?w"
  let ?wk2 = "?wk\<lparr>wk_place := At_drain, wk_scheduler := enqueue e (wk_scheduler ?wk)\<rparr>"
  have ch: "wk_chan (?wk\<lparr>wk_place := pl\<rparr>) ?w = n" "wk_chan (?wk\<lparr>wk_place := pl, wk_scheduler := s\<rparr>) ?w2 = n" for pl s
    using idx(3) by (simp_all add: wk_chan_def)
  have 1: "run_worker order cls n rt = \<lparr>rt_world = ?w, rt_workers = (rt_workers rt)[n := ?wk\<lparr>wk_place := At_drain\<rparr>]\<rparr>"
    by (rule run_worker_eq[OF step_control_empty[OF place]]) (simp add: wk_control_def idx(2) control)
  have "worker_step order cls (?wk\<lparr>wk_place := At_drain\<rparr>) ?w = (?wk2, ?w2)"
    using step_drain_one[of "?wk\<lparr>wk_place := At_drain\<rparr>" ?w e "[]" order cls] chan by (simp add: ch)
  then have 2: "run_worker order cls n (run_worker order cls n rt) = \<lparr>rt_world = ?w2, rt_workers = (rt_workers rt)[n := ?wk2]\<rparr>"
    unfolding 1 using idx(1) by (simp add: run_worker_def)
  have "worker_step order cls ?wk2 ?w2 = (?wk2\<lparr>wk_place := At_schedule\<rparr>, ?w2)"
    by (rule step_drain_empty) (simp_all add: ch idx(4))
  then have "run_worker order cls n (run_worker order cls n (run_worker order cls n rt)) =
      \<lparr>rt_world = ?w2, rt_workers = (rt_workers rt)[n := ?wk2\<lparr>wk_place := At_schedule\<rparr>]\<rparr>"
    unfolding 2 using idx(1) by (simp add: run_worker_def)
  then show ?thesis by (simp add: numeral_3_eq_3)
qed

text \<open>A worker's turn that dispatches to an actor which goes on.\<close>

lemma dispatch_kept:
  assumes core: "wk_core None held wk w" and place: "wk_place wk = At_schedule"
    and rq: "ready_queue (wk_scheduler wk) = i # q" and mb: "mailbox (wk_scheduler wk) i = e # es"
    and cell: "hm_get (actor_maps (shared w) ! worker_idx wk) i = Some cell"
    and d: "call_dispatch cls (env_dispatch e) (actor cell) (context_with_spawner i (worker_idx wk))
      (snd (shared_remove_actor i (worker_idx wk) w)) = (Inr (), act', ctx', w')" and run: "ctx_running ctx'"
  shows "\<exists>s. worker_step order cls wk w = (wk\<lparr>wk_scheduler := s, wk_place := At_control\<rparr>,
    map_insert wk i (cell\<lparr>actor := act'\<rparr>) w')"
proof -
  obtain e' s1 s2 where n: "next_ready (wk_scheduler wk) = (Some i, s1)" "dequeue i s1 = (Some e', s2)"
    and m: "mailbox (wk_scheduler wk) i = e' # mailbox s2 i" "env_actor_id e' = i"
    by (rule wk_core_take[OF core rq]) (rule that; assumption)
  then have e: "e' = e" "env_actor_id e = i" using mb by auto
  have "shared_remove_actor i (worker_idx wk) w = (Some cell, snd (shared_remove_actor i (worker_idx wk) w))"
    by (simp add: prod_eq_iff cell)
  then obtain w0 where s: "shared_remove_actor i (worker_idx wk) w = (Some cell, w0)" by blast
  then have "worker_dispatch cls e (wk\<lparr>wk_scheduler := s2\<rparr>) w =
      (Inr (), wk\<lparr>wk_scheduler := s2\<rparr>, map_insert wk i (cell\<lparr>actor := act'\<rparr>) w')"
    using d run by (simp add: worker_dispatch_def Let_def e(2) map_insert_def)
  with n e place show ?thesis
    by (intro exI[of _ "requeue_if_ready i s2"]) (simp add: worker_step_def step_schedule_def end_step_def)
qed

text \<open>
  C8: a request to a stored actor is answered by its worker. When an address sends to an actor
  stored on worker \<open>n\<close>, which is idle, and the handler returns \<open>v\<close> without stopping its
  context, then the worker's fourth step from there on has the waiting \<^verbatim>\<open>send\<close> return \<open>Ok(v)\<close>
  and the actor stored with its new state; until then the sender waits.
\<close>

theorem rt_request_reply:
  assumes "rt_with_threads k e = Inr rt0" and "rt_steps order cls rt0 rt" and "n < length (rt_workers rt)"
    and "wk_place (rt_workers rt ! n) = At_control" and "ready_queue (wk_scheduler (rt_workers rt ! n)) = []"
    and "chan_queue (control_txs (shared (rt_world rt)) ! n) = []" and "chan_queue (chan_at (rt_world rt) n) = []"
    and "chan_senders (chan_at (rt_world rt) n) > 0"
    and "addr_tx adr = n" and "addr_actor_id adr = i"
    and "hm_get (actor_maps (shared (rt_world rt)) ! n) i = Some cell" and "any_type (actor cell) = addr_type adr"
    and "addr_send_begin adr m (rt_world rt) = (Inr r, w1)"
    and "rt4 = (run_worker order cls n ^^ 3) (rt\<lparr>rt_world := w1\<rparr>)"
    and "exec (cls_handle (cls (addr_type adr)) (any_val (actor cell)) m) (any_val (actor cell))
      (context_with_spawner i n) (log_event (EvHandled i m) (snd (shared_remove_actor i n (rt_world rt4))))
      = (Inr v, v', ctx', w5)"
    and "ctx_running ctx'" and "rt5 = run_worker order cls n rt4"
  shows "addr_send_result r (rt_world rt4) = None \<and> addr_send_result r (rt_world rt5) = Some (Inr v)
    \<and> hm_get (actor_maps (shared (rt_world rt5)) ! n) i = Some (cell\<lparr>actor := (actor cell)\<lparr>any_val := v'\<rparr>\<rparr>)
    \<and> wk_place (rt_workers rt5 ! n) = At_control"
proof -
  let ?w = "rt_world rt" and ?wk = "rt_workers rt ! n"
  let ?e = "\<lparr>env_actor_id = i, env_dispatch = SendFn (addr_type adr) m r\<rparr>"
  have c: "rt_comm rt" by (rule rt_reach_comm[OF assms(1,2)])
  then have sh: "worker_idx ?wk = n" "wk_chan ?wk ?w = n" "n < length (chans ?w)" "n < length (actor_maps (shared ?w))"
    using assms(3) by (simp_all add: rt_comm_def rt_shape_def Let_def wk_chan_def)
  have w1: "w1 = snd (addr_send_begin adr m ?w)" using assms(13) by simp
  have o: "chan_open (chan_at ?w n)" and r: "r = length (replies ?w)"
    using addr_send_begin_simps(8)[of adr m ?w] assms(9,13) by (auto split: if_splits)
  have q1: "chan_queue (chan_at w1 n) = [?e]"
    using assms(7,9,10) o by (simp add: w1 chan_queue_send_begin r)
  have rep: "replies w1 = replies ?w @ [Pending]" using assms(9) o by (simp add: w1 replies_send_begin)
  let ?rt1 = "rt\<lparr>rt_world := w1\<rparr>" and ?s = "enqueue ?e (wk_scheduler ?wk)"
  let ?w2 = "upd_chan n (\<lambda>_. (chan_at w1 n)\<lparr>chan_queue := []\<rparr>) w1" and ?wk2 = "?wk\<lparr>wk_scheduler := ?s, wk_place := At_schedule\<rparr>"
  have rt4: "rt4 = \<lparr>rt_world = ?w2, rt_workers = (rt_workers rt)[n := ?wk2]\<rparr>"
    unfolding assms(14)
    using idle_takes_request[of n ?rt1 ?e order cls] assms(3,4,6) sh q1 by (simp add: w1 wk_chan_def)
  obtain held where inv: "wk_inv held ?wk ?w" by (rule worker_at[OF assms(1-3)]) (rule that; assumption)
  have c1: "rt_comm ?rt1" using rt_step_comm[OF rt_send c] by (simp add: w1)
  obtain rest where "held_by (rt_workers rt) = mailbox_replies (wk_scheduler ?wk) + rest"
    using held_by_member[OF assms(3)] by metis
  from rt_comm_worker[OF c1, of n rest] this assms(3) have core1: "wk_core None rest ?wk w1"
    by (simp add: wk_inv_def)
  have ch1: "wk_chan ?wk w1 = n" using sh(2) by (simp add: w1 wk_chan_def)
  have core: "wk_core None rest ?wk2 ?w2"
    using wk_core_recv[OF core1, of ?e "(chan_at w1 n)\<lparr>chan_queue := []\<rparr>" At_schedule] q1
    by (simp add: ch1 chan_try_recv_simps)
  have si: "sched_inv None (wk_scheduler ?wk)" using core1 by (simp add: wk_core_def)
  then have emp: "mailbox (wk_scheduler ?wk) j = []" for j using assms(5) sched_inv_ready_iff[OF si, of j] by simp
  have rq: "ready_queue ?s = [i]" "mailbox ?s i = [?e]"
    using emp[of i] assms(5) by (simp_all add: ready_queue_enqueue has_pending_iff)
  have cell2: "hm_get (actor_maps (shared ?w2) ! worker_idx ?wk2) i = Some cell"
    using assms(11) sh(1) by (simp add: w1)
  have l: "r < length (replies w5)"
    using exec_comm[OF assms(15)] by (auto simp: comm_ext_def rt4 rep r)
  have d: "call_dispatch cls (env_dispatch ?e) (actor cell) (context_with_spawner i (worker_idx ?wk2))
      (snd (shared_remove_actor i (worker_idx ?wk2) ?w2)) = (Inr (), (actor cell)\<lparr>any_val := v'\<rparr>, ctx', reply_send r v w5)"
    using assms(12,15) sh(1) by (simp add: call_dispatch_def call_handle_def rt4)
  obtain s where st: "worker_step order cls ?wk2 ?w2 = (?wk2\<lparr>wk_scheduler := s, wk_place := At_control\<rparr>,
      map_insert ?wk2 i (cell\<lparr>actor := (actor cell)\<lparr>any_val := v'\<rparr>\<rparr>) (reply_send r v w5))"
    using dispatch_kept[OF core _ _ _ cell2 d assms(16), of "[]" "[]" order] rq by auto
  have rt5: "rt5 = \<lparr>rt_world = map_insert ?wk2 i (cell\<lparr>actor := (actor cell)\<lparr>any_val := v'\<rparr>\<rparr>) (reply_send r v w5),
      rt_workers = (rt_workers rt)[n := ?wk2\<lparr>wk_scheduler := s, wk_place := At_control\<rparr>]\<rparr>"
    using st assms(3) by (simp add: assms(17) rt4 run_worker_def)
  have "length (actor_maps (shared w5)) = length (actor_maps (shared ?w))"
    using exec_infra[OF assms(15)] by (simp add: infra_def rt4 w1)
  then show ?thesis
    using l sh(1,4) assms(3) by (simp add: rt5 addr_send_result_def rt4 rep r nth_reply_send)
qed

theorem rt_request_reply_witness:
  "addr_send_result 0 (rt_world (run_worker id (demo_classes True) 0
     ((run_worker id (demo_classes True) 0 ^^ 3) duo_sent))) = Some (Inr (Usize 1))"
proof -
  let ?rt4 = "(run_worker id (demo_classes True) 0 ^^ 3) duo_sent"
  let ?cell = "\<lparr>actor = \<lparr>any_type = counter_type, any_val = CounterActor 0\<rparr>, on_stop = OnStopFn counter_type\<rparr>"
  have a: "0 < length (rt_workers duo_spawned)" "wk_place (rt_workers duo_spawned ! 0) = At_control"
    "ready_queue (wk_scheduler (rt_workers duo_spawned ! 0)) = []"
    "chan_queue (control_txs (shared (rt_world duo_spawned)) ! 0) = []"
    "chan_queue (chan_at (rt_world duo_spawned) 0) = []" "chan_senders (chan_at (rt_world duo_spawned) 0) > 0"
    "addr_tx duo_addr = 0" "addr_actor_id duo_addr = ActorId 1" "any_type (actor ?cell) = addr_type duo_addr"
    "hm_get (actor_maps (shared (rt_world duo_spawned)) ! 0) (ActorId 1) = Some ?cell"
    "fst (addr_send_begin duo_addr Increment (rt_world duo_spawned)) = Inr 0"
    by code_simp+
  have sb: "addr_send_begin duo_addr Increment (rt_world duo_spawned) = (Inr 0, rt_world duo_sent)"
    using a(11) by (cases "addr_send_begin duo_addr Increment (rt_world duo_spawned)") (simp add: duo_sent_def)
  have rt: "duo_spawned\<lparr>rt_world := rt_world duo_sent\<rparr> = duo_sent" by (simp add: duo_sent_def)
  have ty: "addr_type duo_addr = counter_type" by (simp add: duo_addr_def)
  have add: "add_profile True (0 :: usize) 1 = Some 1" by code_simp
  have x: "exec (cls_handle (demo_classes True (addr_type duo_addr)) (any_val (actor ?cell)) Increment) (any_val (actor ?cell))
      (context_with_spawner (ActorId 1) 0) w0 = (Inr (Usize 1), CounterActor 1, context_with_spawner (ActorId 1) 0, w0)" for w0
    by (simp add: demo_classes_def ty add)
  show ?thesis
    using rt_request_reply[OF duo_start_new duo_steps(2) a(1-8) a(10) a(9) sb _ x _ refl, of ?rt4] by (simp only: rt) simp
qed

end
