(* ===== verification/Client.thy ===== *)
theory Client
  imports Runtime_Loop
begin

text \<open>
  Programs that use a \<^verbatim>\<open>Runtime\<close> from one thread at a time: a call that waits lets the worker it
  waits for take steps until it can go on. Every such run is a run of the runtime
  (\<open>rt_await_steps\<close>), so what holds in all reachable states holds along it.
\<close>

section \<open>Waiting\<close>

text \<open>
  \<open>rt_await k\<close> gives worker \<open>n\<close> up to \<open>k\<close> steps until \<open>ready\<close> has a result. \<open>None\<close>: it had none
  by then, or a callback of the worker waits.
\<close>

primrec rt_await ::
  "(actor_id list \<Rightarrow> actor_id list) \<Rightarrow> ('v, 'e) classes \<Rightarrow> nat \<Rightarrow> nat \<Rightarrow>
   (('v, 'e) runtime \<Rightarrow> 'r option) \<Rightarrow> ('v, 'e) runtime \<Rightarrow> ('r \<times> ('v, 'e) runtime) option" where
  "rt_await order cls 0 n ready rt = map_option (\<lambda>r. (r, rt)) (ready rt)"
| "rt_await order cls (Suc k) n ready rt =
     (case ready rt of
        Some r \<Rightarrow> Some (r, rt)
      | None \<Rightarrow>
          (let rt' = run_worker order cls n rt in
           case wk_place (rt_workers rt' ! n) of
             Blocked_on _ \<Rightarrow> None
           | _ \<Rightarrow> rt_await order cls k n ready rt'))"

text \<open>\<^verbatim>\<open>addr.send(msg)\<close> from outside the runtime.\<close>

definition rt_call ::
  "(actor_id list \<Rightarrow> actor_id list) \<Rightarrow> ('v, 'e) classes \<Rightarrow> nat \<Rightarrow> addr \<Rightarrow> 'v \<Rightarrow> ('v, 'e) runtime \<Rightarrow>
   ((send_error + 'v) \<times> ('v, 'e) runtime) option" where
  "rt_call order cls k adr m rt =
     (case addr_send_begin adr m (rt_world rt) of
        (Inl err, w) \<Rightarrow> Some (Inl err, rt\<lparr>rt_world := w\<rparr>)
      | (Inr r, w) \<Rightarrow>
          rt_await order cls k (addr_tx adr) (\<lambda>rt. addr_send_result r (rt_world rt)) (rt\<lparr>rt_world := w\<rparr>))"

text \<open>\<^verbatim>\<open>rt.spawn(actor)\<close>.\<close>

definition rt_spawn_sync ::
  "(actor_id list \<Rightarrow> actor_id list) \<Rightarrow> ('v, 'e) classes \<Rightarrow> nat \<Rightarrow> ('v, 'e) prog \<Rightarrow> type_id \<Rightarrow> 'v \<Rightarrow>
   ('v, 'e) runtime \<Rightarrow> ((fault + addr) \<times> ('v, 'e) runtime) option" where
  "rt_spawn_sync order cls k st a v rt =
     (case rt_spawn_begin st a v rt of
        (Inl f, rt1) \<Rightarrow> Some (Inl f, rt1)
      | (Inr t, rt1) \<Rightarrow> map_option fst (rt_await order cls k (tk_worker t) (rt_spawn_finish t) rt1))"

text \<open>Shutting down and joining the workers one after the other.\<close>

definition rt_join_one ::
  "(actor_id list \<Rightarrow> actor_id list) \<Rightarrow> ('v, 'e) classes \<Rightarrow> nat \<Rightarrow> nat \<Rightarrow> ('v, 'e) runtime \<Rightarrow> ('v, 'e) runtime option" where
  "rt_join_one order cls k n rt =
     map_option snd (rt_await order cls k n (\<lambda>rt. if wk_ended (rt_workers rt ! n) then Some () else None) rt)"

primrec rt_join_all ::
  "(actor_id list \<Rightarrow> actor_id list) \<Rightarrow> ('v, 'e) classes \<Rightarrow> nat \<Rightarrow> nat list \<Rightarrow> ('v, 'e) runtime \<Rightarrow> ('v, 'e) runtime option" where
  "rt_join_all order cls k [] rt = Some rt"
| "rt_join_all order cls k (n # ns) rt =
     (case rt_join_one order cls k n rt of None \<Rightarrow> None | Some rt' \<Rightarrow> rt_join_all order cls k ns rt')"

definition rt_drop_sync ::
  "(actor_id list \<Rightarrow> actor_id list) \<Rightarrow> ('v, 'e) classes \<Rightarrow> nat \<Rightarrow> ('v, 'e) runtime \<Rightarrow> ('v, 'e) runtime option" where
  "rt_drop_sync order cls k rt =
     (if running (shared (rt_world rt))
      then rt_join_all order cls k [0..<length (rt_workers rt)] (rt_drop_begin rt)
      else Some rt)"

section \<open>These are runs of the runtime\<close>

lemma rt_steps_trans: "rt_steps order cls rt' rt'' \<Longrightarrow> rt_steps order cls rt rt' \<Longrightarrow> rt_steps order cls rt rt''"
  by (induction rule: rt_steps.induct) (auto intro: rt_trans)

lemma rt_steps_workers: "rt_steps order cls rt rt' \<Longrightarrow> rt_comm rt \<Longrightarrow> length (rt_workers rt') = length (rt_workers rt)"
proof (induction rule: rt_steps.induct)
  case (rt_trans rt rt' rt'')
  have "length (rt_workers rt'') = length (rt_workers rt')"
    using rt_trans(2)
  proof (cases rule: rt_step.cases)
    case (rt_spawn st a v r)
    then show ?thesis by (auto simp: rt_spawn_begin_def split: prod.splits sum.splits)
  next
    case (rt_spawned t r)
    then show ?thesis by (auto simp: rt_spawn_finish_def split: option.splits sum.splits)
  qed (auto simp: run_worker_def rt_shutdown_def split: prod.splits)
  with rt_trans show ?case by simp
qed simp

lemma rt_await_steps:
  "rt_await order cls k n ready rt = Some (r, rt') \<Longrightarrow> n < length (rt_workers rt) \<Longrightarrow>
   rt_steps order cls rt rt' \<and> ready rt' = Some r"
proof (induction k arbitrary: rt)
  case 0
  then show ?case by (auto intro: rt_refl)
next
  case (Suc k)
  show ?case
  proof (cases "ready rt")
    case (Some r1)
    with Suc.prems show ?thesis by (auto intro: rt_refl)
  next
    case None
    let ?rt1 = "run_worker order cls n rt"
    have nb: "\<forall>q. wk_place (rt_workers ?rt1 ! n) \<noteq> Blocked_on q"
      using Suc.prems(1) None by (auto simp: Let_def)
    then have aw: "rt_await order cls k n ready ?rt1 = Some (r, rt')"
      using Suc.prems(1) None by (auto simp: Let_def split: worker_place.splits)
    have "rt_step order cls rt ?rt1" by (rule rt_work[OF Suc.prems(2) refl nb])
    then have "rt_steps order cls rt ?rt1" by (rule rt_trans[OF rt_refl])
    moreover have "rt_steps order cls ?rt1 rt' \<and> ready rt' = Some r"
      by (rule Suc.IH[OF aw]) (simp add: run_worker_step(4)[OF Suc.prems(2)] Suc.prems(2))
    ultimately show ?thesis by (blast intro: rt_steps_trans)
  qed
qed

lemma rt_call_steps:
  assumes "rt_call order cls k adr m rt = Some (r, rt')" and "addr_tx adr < length (rt_workers rt)"
  shows "rt_steps order cls rt rt'"
proof -
  obtain q w where s: "addr_send_begin adr m (rt_world rt) = (q, w)" by fastforce
  then have "w = snd (addr_send_begin adr m (rt_world rt))" by simp
  then have 1: "rt_steps order cls rt (rt\<lparr>rt_world := w\<rparr>)" using rt_trans[OF rt_refl rt_send] by simp
  show ?thesis
  proof (cases q)
    case (Inl err)
    with assms(1) s 1 show ?thesis by (auto simp: rt_call_def)
  next
    case (Inr i)
    with assms s have "rt_steps order cls (rt\<lparr>rt_world := w\<rparr>) rt'"
      using rt_await_steps[of order cls k "addr_tx adr" "\<lambda>rt. addr_send_result i (rt_world rt)" "rt\<lparr>rt_world := w\<rparr>" r rt']
      by (simp add: rt_call_def)
    with 1 show ?thesis by (blast intro: rt_steps_trans)
  qed
qed

lemma rt_spawn_sync_steps:
  assumes "rt_spawn_sync order cls k st a v rt = Some (r, rt')" and "rt_comm rt"
  shows "rt_steps order cls rt rt'"
proof -
  obtain q rt1 where s: "rt_spawn_begin st a v rt = (q, rt1)" by fastforce
  have 1: "rt_steps order cls rt rt1" by (rule rt_trans[OF rt_refl rt_spawn[OF s]])
  show ?thesis
  proof (cases q)
    case (Inl f)
    with assms(1) s 1 show ?thesis by (simp add: rt_spawn_sync_def)
  next
    case (Inr t)
    with assms(1) s obtain rt2 where a: "rt_await order cls k (tk_worker t) (rt_spawn_finish t) rt1 = Some ((r, rt'), rt2)"
      by (auto simp: rt_spawn_sync_def)
    have l: "num_workers (shared (rt_world rt)) = length (rt_workers rt)" "length (rt_workers rt) > 0"
      using assms(2) by (simp_all add: rt_comm_def rt_shape_def Let_def)
    have "tk_worker t = unat (next_worker (shared (rt_world rt))) mod num_workers (shared (rt_world rt))"
      by (rule started_infra[OF s[unfolded Inr] assms(2)]) assumption
    then have "tk_worker t < length (rt_workers rt1)"
      using l rt_steps_workers[OF 1 assms(2)] by simp
    from rt_await_steps[OF a this] have "rt_steps order cls rt1 rt2" "rt_spawn_finish t rt2 = Some (r, rt')" by simp_all
    then have "rt_steps order cls rt1 rt'" by (blast intro: rt_trans rt_spawned)
    with 1 show ?thesis by (blast intro: rt_steps_trans)
  qed
qed

end
