(* ===== verification/Runtime_Waits.thy ===== *)
theory Runtime_Waits
  imports Client
begin

text \<open>
  Programs whose callbacks never wait. The documentation of \<^verbatim>\<open>Context::send\<close> warns that waiting
  in a handler can block a worker for ever; callbacks that do not call it, as those of all
  examples, cannot. For them every step of a worker is a step of the runtime, and a worker
  that is told to shut down ends.
\<close>

section \<open>Callbacks that never wait\<close>

primrec never_waits :: "('v, 'e) prog \<Rightarrow> bool" where
  "never_waits (Return r) \<longleftrightarrow> True"
| "never_waits (Panic p) \<longleftrightarrow> True"
| "never_waits (SetSelf v k) \<longleftrightarrow> never_waits k"
| "never_waits (CtxId k) \<longleftrightarrow> (\<forall>i. never_waits (k i))"
| "never_waits (CtxStop k) \<longleftrightarrow> never_waits k"
| "never_waits (DoSend a m k) \<longleftrightarrow> (\<forall>r. never_waits (k r))"
| "never_waits (Notify a m k) \<longleftrightarrow> never_waits k"
| "never_waits (SendWait a m k) \<longleftrightarrow> False"
| "never_waits (CloneAddr a k) \<longleftrightarrow> (\<forall>b. never_waits (k b))"
| "never_waits (DropAddr a k) \<longleftrightarrow> never_waits k"
| "never_waits (SpawnChild a v started k) \<longleftrightarrow> never_waits started \<and> (\<forall>b. never_waits (k b))"
| "never_waits (Shared f k) \<longleftrightarrow> (\<forall>e. never_waits (k e))"

definition waitless :: "('v, 'e) classes \<Rightarrow> bool" where
  "waitless cls \<longleftrightarrow>
     (\<forall>a v m. never_waits (cls_handle (cls a) v m)) \<and> (\<forall>a v. never_waits (cls_stopped (cls a) v))"

lemma exec_never_waits:
  "never_waits p \<Longrightarrow> exec p self ctx w = (Inl f, self', ctx', w') \<Longrightarrow> \<exists>q. f = Panicking q"
proof (induction p arbitrary: self ctx w self' ctx' w')
  case (SpawnChild a v started k)
  show ?case
  proof (cases "context_spawn (exec started) a v ctx w")
    case (Pair r w1)
    show ?thesis
    proof (cases r)
      case (Inl g)
      with SpawnChild.prems Pair have "f = g" by simp
      with Pair Inl SpawnChild.prems(1) SpawnChild.IH(1) show ?thesis
        by (auto simp: context_spawn_def Let_def split: option.splits prod.splits sum.splits)
    next
      case (Inr adr)
      with SpawnChild.prems Pair have "never_waits (k adr)" "exec (k adr) self ctx w1 = (Inl f, self', ctx', w')" by simp_all
      then show ?thesis by (rule SpawnChild.IH(2)[OF rangeI])
    qed
  qed
qed (auto split: prod.splits, (blast intro: rangeI)+)

lemma call_dispatch_waitless:
  assumes "call_dispatch cls g act ctx w = (Inl f, act', ctx', w')" and "waitless cls"
  shows "\<exists>p. f = Panicking p"
proof -
  have x: "\<exists>p. f' = Panicking p" if "exec (cls_handle (cls a) v m) self ctx w1 = (Inl f', s')" for a v m self ctx w1 f' s'
    using that exec_never_waits[of "cls_handle (cls a) v m" self ctx w1 f'] assms(2) by (cases s') (simp add: waitless_def)
  have y: "\<exists>p. f' = Panicking p" if "exec (cls_stopped (cls a) v) self ctx w1 = (Inl f', s')" for a v self ctx w1 f' s'
    using that exec_never_waits[of "cls_stopped (cls a) v" self ctx w1 f'] assms(2) by (cases s') (simp add: waitless_def)
  show ?thesis
    using assms(1)
    by (cases g) (auto simp: call_dispatch_def call_handle_def dest!: x y
        split: if_splits prod.splits sum.splits fault.splits)
qed

lemma stop_cell_waitless:
  "stop_cell cls i cell wk w = (Inl f, wk', w') \<Longrightarrow> waitless cls \<Longrightarrow> \<exists>p. f = Panicking p"
  by (auto simp: stop_cell_def dest!: call_dispatch_waitless split: prod.splits sum.splits)

lemma worker_dispatch_waitless:
  "worker_dispatch cls e wk w = (Inl f, wk', w') \<Longrightarrow> waitless cls \<Longrightarrow> \<exists>p. f = Panicking p"
  by (auto simp: worker_dispatch_def Let_def dest!: call_dispatch_waitless stop_cell_waitless
      split: prod.splits option.splits sum.splits fault.splits if_splits)

lemma worker_remove_all_waitless:
  "worker_remove_all cls is wk w = (Inl f, wk', w') \<Longrightarrow> waitless cls \<Longrightarrow> \<exists>p. f = Panicking p"
  by (induction "is" arbitrary: wk w)
    (auto simp: worker_remove_actor_def dest!: stop_cell_waitless split: prod.splits option.splits sum.splits)

definition blocked :: "'v worker \<Rightarrow> bool" where
  "blocked wk \<longleftrightarrow> (case wk_place wk of Blocked_on _ \<Rightarrow> True | _ \<Rightarrow> False)"

lemma blocked_simps [simp]:
  "blocked (wk\<lparr>wk_scheduler := s\<rparr>) = blocked wk"
  "blocked (wk\<lparr>wk_place := pl\<rparr>) \<longleftrightarrow> (case pl of Blocked_on _ \<Rightarrow> True | _ \<Rightarrow> False)"
  "blocked (wk\<lparr>wk_scheduler := s, wk_place := pl\<rparr>) \<longleftrightarrow> (case pl of Blocked_on _ \<Rightarrow> True | _ \<Rightarrow> False)"
  "\<not> blocked (worker_new n)"
  by (simp_all add: blocked_def worker_new_def)

lemma worker_end_unblocked: "worker_end pl wk w = (wk', w') \<Longrightarrow> blocked wk' \<longleftrightarrow> (case pl of Blocked_on _ \<Rightarrow> True | _ \<Rightarrow> False)"
  by (auto simp: worker_end_def Let_def)

lemma end_step_unblocked:
  assumes "end_step (r, wk, w) cont = (wk', w')" and "\<And>f. r = Inl f \<Longrightarrow> \<exists>p. f = Panicking p"
    and "r = Inr () \<Longrightarrow> \<not> blocked (cont wk)"
  shows "\<not> blocked wk'"
  using assms by (cases r) (auto simp: end_step_def dest!: worker_end_unblocked split: fault.splits)

lemma worker_step_unblocked:
  assumes "worker_step order cls wk w = (wk', w')" and "waitless cls" and "\<not> blocked wk"
  shows "\<not> blocked wk'"
proof (cases "wk_place wk")
  case Stopping
  obtain r wk1 w1 where d: "worker_stop_all order cls wk w = (r, wk1, w1)" by (metis prod_cases3)
  have f: "\<exists>p. f = Panicking p" if "r = Inl f" for f
    using worker_remove_all_waitless[of cls _ wk w f wk1 w1] d that assms(2) by (auto simp: worker_stop_all_def)
  show ?thesis
  proof (cases r)
    case (Inl g)
    with Stopping d assms(1) have e: "end_step (r, wk1, w1) id = (wk', w')" by (simp add: worker_step_def step_stop_def)
    show ?thesis by (rule end_step_unblocked[OF e f]) (simp_all add: Inl)
  next
    case (Inr u)
    with Stopping d assms(1) show ?thesis
      by (auto simp: worker_step_def step_stop_def dest!: worker_end_unblocked)
  qed
next
  case At_schedule
  show ?thesis
  proof (cases "\<exists>i s1 e s2. next_ready (wk_scheduler wk) = (Some i, s1) \<and> dequeue i s1 = (Some e, s2)")
    case False
    with At_schedule assms show ?thesis
      by (auto simp: worker_step_def step_schedule_def split: option.splits prod.splits)
  next
    case True
    then obtain i s1 e s2 where d: "next_ready (wk_scheduler wk) = (Some i, s1)" "dequeue i s1 = (Some e, s2)" by blast
    obtain r wk1 w1 where ds: "worker_dispatch cls e (wk\<lparr>wk_scheduler := s2\<rparr>) w = (r, wk1, w1)" by (metis prod_cases3)
    have e: "end_step (r, wk1, w1) (\<lambda>wk'. wk'\<lparr>wk_scheduler := requeue_if_ready i (wk_scheduler wk'),
        wk_place := At_control\<rparr>) = (wk', w')"
      using assms(1) At_schedule d ds by (simp add: worker_step_def step_schedule_def)
    show ?thesis
      by (rule end_step_unblocked[OF e]) (use ds worker_dispatch_waitless[OF _ assms(2)] in auto)
  qed
qed (use assms in \<open>auto simp: worker_step_def step_control_def step_drain_def step_recv_def blocked_def
    split: recv.splits prod.splits control_msg.splits\<close>)

section \<open>Replies are never forgotten\<close>

lemma call_dispatch_replies: "call_dispatch cls f act ctx w = (r, act', ctx', w') \<Longrightarrow> length (replies w) \<le> length (replies w')"
  by (auto simp: comm_ext_def dest!: call_dispatch_comm)

lemma shared_remove_replies: "shared_remove_actor i n w = (co, w') \<Longrightarrow> replies w' = replies w"
  by (auto simp: shared_remove_actor_def)

lemma stop_cell_replies: "stop_cell cls i cell wk w = (r, wk', w') \<Longrightarrow> length (replies w) \<le> length (replies w')"
  by (auto simp: stop_cell_def forget_actor_def dest!: call_dispatch_replies split: prod.splits sum.splits)

lemma worker_dispatch_replies:
  assumes "worker_dispatch cls e wk w = (r, wk', w')"
  shows "length (replies w) \<le> length (replies w')"
proof -
  obtain co w1 where sr: "shared_remove_actor (env_actor_id e) (worker_idx wk) w = (co, w1)" by fastforce
  have l1: "length (replies w1) = length (replies w)" using shared_remove_replies[OF sr] by simp
  show ?thesis
  proof (cases co)
    case None
    with assms sr l1 show ?thesis by (auto simp: worker_dispatch_def Let_def)
  next
    case (Some cell)
    obtain res act' ctx' w2 where d: "call_dispatch cls (env_dispatch e) (actor cell)
        (context_with_spawner (env_actor_id e) (worker_idx wk)) w1 = (res, act', ctx', w2)"
      by (metis prod_cases4)
    have l2: "length (replies w) \<le> length (replies w2)" using call_dispatch_replies[OF d] l1 by simp
    from assms sr Some d l2 show ?thesis
      by (auto simp: worker_dispatch_def Let_def dest!: stop_cell_replies split: sum.splits fault.splits if_splits)
  qed
qed

lemma worker_remove_all_replies:
  "worker_remove_all cls is wk w = (r, wk', w') \<Longrightarrow> length (replies w) \<le> length (replies w')"
proof (induction "is" arbitrary: wk w)
  case (Cons i "is")
  obtain r1 wk1 w1 where s: "worker_remove_actor cls i wk w = (r1, wk1, w1)" by (metis prod_cases3)
  have "length (replies w) \<le> length (replies w1)"
    using s by (auto simp: worker_remove_actor_def forget_actor_def
        dest!: shared_remove_replies stop_cell_replies split: prod.splits option.splits)
  with s Cons.prems Cons.IH[of wk1 w1] show ?case by (cases r1) auto
qed simp

lemma worker_end_replies: "worker_end pl wk w = (wk', w') \<Longrightarrow> length (replies w') = length (replies w)"
  by (auto simp: worker_end_def Let_def)

lemma end_step_replies: "end_step (r, wk, w) cont = (wk', w') \<Longrightarrow> length (replies w') = length (replies w)"
  by (cases r) (auto simp: end_step_def dest!: worker_end_replies split: fault.splits)

lemma worker_step_replies:
  assumes "worker_step order cls wk w = (wk', w')"
  shows "length (replies w) \<le> length (replies w')"
proof (cases "wk_place wk")
  case Stopping
  obtain r wk1 w1 where d: "worker_stop_all order cls wk w = (r, wk1, w1)" by (metis prod_cases3)
  then have "length (replies w) \<le> length (replies w1)" by (auto simp: worker_stop_all_def dest: worker_remove_all_replies)
  with Stopping d assms show ?thesis
    by (cases r) (auto simp: worker_step_def step_stop_def dest!: end_step_replies worker_end_replies)
next
  case At_schedule
  show ?thesis
  proof (cases "\<exists>i s1 e s2. next_ready (wk_scheduler wk) = (Some i, s1) \<and> dequeue i s1 = (Some e, s2)")
    case False
    with At_schedule assms show ?thesis
      by (auto simp: worker_step_def step_schedule_def split: option.splits prod.splits)
  next
    case True
    then obtain i s1 e s2 where d: "next_ready (wk_scheduler wk) = (Some i, s1)" "dequeue i s1 = (Some e, s2)" by blast
    obtain r wk1 w1 where ds: "worker_dispatch cls e (wk\<lparr>wk_scheduler := s2\<rparr>) w = (r, wk1, w1)" by (metis prod_cases3)
    have "end_step (r, wk1, w1) (\<lambda>wk'. wk'\<lparr>wk_scheduler := requeue_if_ready i (wk_scheduler wk'),
        wk_place := At_control\<rparr>) = (wk', w')"
      using assms At_schedule d ds by (simp add: worker_step_def step_schedule_def)
    from end_step_replies[OF this] worker_dispatch_replies[OF ds] show ?thesis by simp
  qed
qed (use assms in \<open>auto simp: worker_step_def step_control_def step_drain_def step_recv_def
    split: recv.splits prod.splits control_msg.splits\<close>)

section \<open>Reachable states\<close>

lemma rt_steps_unblocked:
  "rt_steps order cls rt rt' \<Longrightarrow> \<forall>wk \<in> set (rt_workers rt). \<not> blocked wk \<Longrightarrow> \<forall>wk \<in> set (rt_workers rt'). \<not> blocked wk"
proof (induction rule: rt_steps.induct)
  case (rt_trans rt rt' rt'')
  from rt_trans(2) rt_trans.IH[OF rt_trans.prems] show ?case
  proof (cases rule: rt_step.cases)
    case (rt_work n)
    with rt_trans.IH[OF rt_trans.prems] show ?thesis
      by (auto simp: run_worker_def blocked_def in_set_conv_nth nth_list_update split: prod.splits worker_place.splits if_splits)
  next
    case (rt_spawn st a v r)
    with rt_trans.IH[OF rt_trans.prems] show ?thesis by (auto simp: rt_spawn_begin_def split: prod.splits sum.splits)
  next
    case (rt_spawned t r)
    with rt_trans.IH[OF rt_trans.prems] show ?thesis by (auto simp: rt_spawn_finish_def split: option.splits sum.splits)
  qed (simp_all add: rt_shutdown_def)
qed simp

lemma rt_reach_unblocked:
  assumes "rt_with_threads k e = Inr rt0" and "rt_steps order cls rt0 rt"
  shows "\<forall>wk \<in> set (rt_workers rt). \<not> blocked wk"
  by (rule rt_steps_unblocked[OF assms(2)]) (use assms(1) in \<open>auto simp: rt_with_threads_def split: if_splits\<close>)

text \<open>With callbacks that never wait, letting a worker go on is always a step.\<close>

lemma rt_work_waitless:
  assumes "\<forall>wk \<in> set (rt_workers rt). \<not> blocked wk" and "waitless cls" and "n < length (rt_workers rt)"
  shows "rt_step order cls rt (run_worker order cls n rt)"
proof (rule rt_work[OF assms(3) refl])
  obtain wk' w' where s: "worker_step order cls (rt_workers rt ! n) (rt_world rt) = (wk', w')" by fastforce
  have "\<not> blocked wk'" using worker_step_unblocked[OF s assms(2)] assms(1,3) by simp
  with s assms(3) show "\<forall>q. wk_place (rt_workers (run_worker order cls n rt) ! n) \<noteq> Blocked_on q"
    by (auto simp: run_worker_def blocked_def)
qed

end
