(* ===== verification/Ex_Ping_Pong.thy ===== *)
theory Ex_Ping_Pong
  imports System_Loops Stateful
begin

text \<open>
  The rally of \<^verbatim>\<open>examples/ping_pong.rs\<close>: two state machines on an \<^verbatim>\<open>ActorSystem\<close>, played by a
  sender thread while the main thread is in \<^verbatim>\<open>run\<close>. Standard output is the shared state;
  strings are the bytes of their UTF-8 encoding.
\<close>

section \<open>The actor\<close>

datatype rally_state = Ping | Pong

datatype rally_val =
    RallyActor string
  | RallyMachine rally_val nat "rally_state list"
  | Rally string usize
  | RallyText string
  | RallyUnit

definition left_arrow :: string where
  "left_arrow = [CHR 0xE2, CHR 0x86, CHR 0x90]"

definition times_sign :: string where
  "times_sign = [CHR 0xC3, CHR 0x97]"

definition rally_line :: "string \<Rightarrow> string \<Rightarrow> usize \<Rightarrow> string \<Rightarrow> nat \<Rightarrow> string" where
  "rally_line name side round player idx =
     ''['' @ name @ ''] '' @ side @ ''  '' @ left_arrow @ '' round '' @ decimal (unat round) @ '' from ''
       @ player @ '' (state '' @ decimal idx @ '')''"

fun rally_handle :: "rally_val \<Rightarrow> nat \<Rightarrow> rally_state \<Rightarrow> rally_val \<Rightarrow> (rally_val, string list) prog" where
  "rally_handle (RallyActor name) idx Ping (Rally player round) =
     Return (RallyText (rally_line name ''PING'' round player idx))"
| "rally_handle (RallyActor name) idx Pong (Rally player round) =
     Return (RallyText (rally_line name ''PONG'' round player idx))"
| "rally_handle _ _ _ _ = Panic POther"

text \<open>The actor keeps the empty default \<^verbatim>\<open>started\<close> and \<^verbatim>\<open>stopped\<close>.\<close>

definition rally :: "(rally_state, rally_val, string list) state_handler" where
  "rally =
     \<lparr>initial_state = Ping, state_sequence = [Ping, Pong], handle_in_state = rally_handle,
      inner_started = (\<lambda>_. Return RallyUnit), inner_stopped = (\<lambda>_. Return RallyUnit)\<rparr>"

definition rally_pack :: "(rally_state, rally_val) state_machine \<Rightarrow> rally_val" where
  "rally_pack sm = RallyMachine (inner sm) (current sm) (states sm)"

fun rally_unpack :: "rally_val \<Rightarrow> (rally_state, rally_val) state_machine option" where
  "rally_unpack (RallyMachine v k sts) = Some \<lparr>inner = v, current = k, states = sts\<rparr>"
| "rally_unpack _ = None"

definition rally_classes :: "(rally_val, string list) classes" where
  "rally_classes a = sm_class rally_pack rally_unpack rally"

section \<open>The main function\<close>

type_synonym rally_system = "(rally_val, string list) actor_system"

definition sys_print :: "string \<Rightarrow> ('v, string list) actor_system \<Rightarrow> ('v, string list) actor_system" where
  "sys_print s sys = sys\<lparr>sys_world := (sys_world sys)\<lparr>env := env (sys_world sys) @ [s]\<rparr>\<rparr>"

text \<open>
  One \<^verbatim>\<open>send(..).unwrap()\<close> of the sender thread and the line it prints: the message is queued,
  the event loop of the main thread runs until it waits again, the reply is received.
\<close>

definition rally_send :: "addr \<Rightarrow> string \<Rightarrow> nat \<Rightarrow> rally_system \<Rightarrow> rally_system option" where
  "rally_send adr player round s =
     (case addr_send_begin adr (Rally player (of_nat round)) (sys_world s) of
        (Inl err, w) \<Rightarrow> None
      | (Inr r, w) \<Rightarrow>
          (case sys_resume id rally_classes (s\<lparr>sys_world := w\<rparr>) of
             Some (Waiting, s') \<Rightarrow>
               (case addr_send_result r (sys_world s') of
                  Some (Inr (RallyText result)) \<Rightarrow> Some (sys_print (''  '' @ result) s')
                | _ \<Rightarrow> None)
           | _ \<Rightarrow> None))"

primrec rally_rounds :: "nat list \<Rightarrow> addr \<Rightarrow> addr \<Rightarrow> rally_system \<Rightarrow> rally_system option" where
  "rally_rounds [] alice bob s = Some s"
| "rally_rounds (round # rounds) alice bob s =
     (case rally_send alice ''alice'' round s of
        None \<Rightarrow> None
      | Some s1 \<Rightarrow>
          (case rally_send bob ''bob'' round s1 of
             None \<Rightarrow> None
           | Some s2 \<Rightarrow> rally_rounds rounds alice bob s2))"

definition rally_spawn :: "bool \<Rightarrow> string \<Rightarrow> rally_system \<Rightarrow> (fault + addr) \<times> rally_system" where
  "rally_spawn oc name s =
     (case sm_new rally (RallyActor name) of
        Inl f \<Rightarrow> (Inl f, s)
      | Inr sm \<Rightarrow> sys_spawn oc (sm_start_prog rally_pack rally sm) 0 (rally_pack sm) s)"

definition rally_main :: "bool \<Rightarrow> rally_system option" where
  "rally_main oc =
     (case rally_spawn oc ''Alice'' (system_new []) of
        (Inr alice, s1) \<Rightarrow>
          (case rally_spawn oc ''Bob'' s1 of
             (Inr bob, s2) \<Rightarrow>
               (case sys_run id rally_classes (sys_print (''=== Ping-Pong State Machine ==='' @ [CHR 0x0A]) s2) of
                  Some (Waiting, s3) \<Rightarrow>
                    (case rally_rounds [1, 2, 3, 4] alice bob s3 of
                       Some s4 \<Rightarrow>
                         (case sys_resume id rally_classes
                                 (s4\<lparr>sys_world := addr_drop bob (addr_drop alice (sys_world s4))\<rparr>) of
                            Some (Finished _, s5) \<Rightarrow>
                              Some (sys_print ([CHR 0x0A] @ ''=== Complete: 4 rounds '' @ times_sign
                                @ '' 2 players = 8 messages, 2 full state cycles each ==='') s5)
                          | _ \<Rightarrow> None)
                     | None \<Rightarrow> None)
                | _ \<Rightarrow> None)
           | _ \<Rightarrow> None)
      | _ \<Rightarrow> None)"

section \<open>Property\<close>

text \<open>
  The ping-pong example returns: the two machines alternate between their states
  independently of each other, the eight replies are printed in the order of the rounds, the
  event loop ends when both addresses are dropped, and both actors have been stopped.
\<close>

theorem rally_main_output:
  "\<exists>s. rally_main oc = Some s \<and> actors s = []
     \<and> env (sys_world s) =
         [''=== Ping-Pong State Machine ==='' @ [CHR 0x0A],
          ''  '' @ rally_line ''Alice'' ''PING'' 1 ''alice'' 0, ''  '' @ rally_line ''Bob'' ''PING'' 1 ''bob'' 0,
          ''  '' @ rally_line ''Alice'' ''PONG'' 2 ''alice'' 1, ''  '' @ rally_line ''Bob'' ''PONG'' 2 ''bob'' 1,
          ''  '' @ rally_line ''Alice'' ''PING'' 3 ''alice'' 0, ''  '' @ rally_line ''Bob'' ''PING'' 3 ''bob'' 0,
          ''  '' @ rally_line ''Alice'' ''PONG'' 4 ''alice'' 1, ''  '' @ rally_line ''Bob'' ''PONG'' 4 ''bob'' 1,
          [CHR 0x0A] @ ''=== Complete: 4 rounds '' @ times_sign
            @ '' 2 players = 8 messages, 2 full state cycles each ==='']
     \<and> life (ActorId 1) (log (sys_world s)) = Dead \<and> life (ActorId 2) (log (sys_world s)) = Dead"
proof -
  let ?out = "\<lambda>s. (actors s, env (sys_world s), life (ActorId 1) (log (sys_world s)),
      life (ActorId 2) (log (sys_world s)))"
  let ?exp = "([], [''=== Ping-Pong State Machine ==='' @ [CHR 0x0A],
          ''  '' @ rally_line ''Alice'' ''PING'' 1 ''alice'' 0, ''  '' @ rally_line ''Bob'' ''PING'' 1 ''bob'' 0,
          ''  '' @ rally_line ''Alice'' ''PONG'' 2 ''alice'' 1, ''  '' @ rally_line ''Bob'' ''PONG'' 2 ''bob'' 1,
          ''  '' @ rally_line ''Alice'' ''PING'' 3 ''alice'' 0, ''  '' @ rally_line ''Bob'' ''PING'' 3 ''bob'' 0,
          ''  '' @ rally_line ''Alice'' ''PONG'' 4 ''alice'' 1, ''  '' @ rally_line ''Bob'' ''PONG'' 4 ''bob'' 1,
          [CHR 0x0A] @ ''=== Complete: 4 rounds '' @ times_sign
            @ '' 2 players = 8 messages, 2 full state cycles each ===''], Dead, Dead)"
  have "map_option ?out (rally_main True) = Some ?exp" by code_simp
  moreover have "map_option ?out (rally_main False) = Some ?exp" by code_simp
  ultimately have "map_option ?out (rally_main oc) = Some ?exp" by (cases oc) simp_all
  then show ?thesis by auto
qed

end
