(* ===== verification/Example_Text.thy ===== *)
theory Example_Text
  imports Actor
begin

text \<open>
  The operations of the standard library on strings that the example programs and the tests use,
  and the pieces of text they share. A string is the list of the bytes of its UTF-8 encoding. What a
  user types is taken to be ASCII: on other text \<open>trim\<close> and \<open>to_lowercase\<close> differ from Rust's,
  which know the white space and the cases of Unicode.
\<close>

section \<open>Characters\<close>

definition quot :: string where
  "quot = [CHR 0x22]"

definition apos :: string where
  "apos = [CHR 0x27]"

definition newline :: string where
  "newline = [CHR 0x0A]"

definition em_dash :: string where
  "em_dash = [CHR 0xE2, CHR 0x80, CHR 0x94]"

definition is_digit :: "char \<Rightarrow> bool" where
  "is_digit c \<longleftrightarrow> (48::nat) \<le> of_char c \<and> of_char c \<le> (57::nat)"

definition is_space :: "char \<Rightarrow> bool" where
  "is_space c \<longleftrightarrow> of_char c = (32::nat) \<or> (9::nat) \<le> of_char c \<and> of_char c \<le> (13::nat)"

definition lower_char :: "char \<Rightarrow> char" where
  "lower_char c = (if (65::nat) \<le> of_char c \<and> of_char c \<le> (90::nat) then char_of (of_char c + (32::nat)) else c)"

section \<open>Strings\<close>

definition trim :: "string \<Rightarrow> string" where
  "trim s = rev (dropWhile is_space (rev (dropWhile is_space s)))"

definition to_lowercase :: "string \<Rightarrow> string" where
  "to_lowercase s = map lower_char s"

text \<open>\<^verbatim>\<open>s.splitn(n, c)\<close>: at most \<open>n\<close> pieces, the last of which holds the rest.\<close>

fun splitn :: "nat \<Rightarrow> char \<Rightarrow> string \<Rightarrow> string list" where
  "splitn 0 c s = []"
| "splitn (Suc 0) c s = [s]"
| "splitn (Suc (Suc n)) c s =
     (case dropWhile (\<lambda>x. x \<noteq> c) s of
        [] \<Rightarrow> [s]
      | _ # rest \<Rightarrow> takeWhile (\<lambda>x. x \<noteq> c) s # splitn (Suc n) c rest)"

text \<open>\<^verbatim>\<open>s.contains(p)\<close>\<close>

fun str_prefix :: "string \<Rightarrow> string \<Rightarrow> bool" where
  "str_prefix [] s \<longleftrightarrow> True"
| "str_prefix (c # cs) [] \<longleftrightarrow> False"
| "str_prefix (c # cs) (d # ds) \<longleftrightarrow> c = d \<and> str_prefix cs ds"

fun str_contains :: "string \<Rightarrow> string \<Rightarrow> bool" where
  "str_contains p [] \<longleftrightarrow> p = []"
| "str_contains p (c # cs) \<longleftrightarrow> str_prefix p (c # cs) \<or> str_contains p cs"

fun join :: "string \<Rightarrow> string list \<Rightarrow> string" where
  "join sep [] = []"
| "join sep [s] = s"
| "join sep (s # ss) = s @ sep @ join sep ss"

text \<open>
  \<^verbatim>\<open>s.parse::<u64>()\<close>: an optional plus sign and at least one digit; \<open>None\<close> for any error,
  overflow included.
\<close>

fun parse_digits :: "u64 \<Rightarrow> string \<Rightarrow> u64 option" where
  "parse_digits acc [] = Some acc"
| "parse_digits acc (c # cs) =
     (if is_digit c
      then let n = 10 * uint acc + int (char_digit c)
           in if n < 2 ^ 64 then parse_digits (word_of_int n) cs else None
      else None)"

definition parse_u64 :: "string \<Rightarrow> u64 option" where
  "parse_u64 s =
     (let ds = (if s \<noteq> [] \<and> hd s = CHR ''+'' then tl s else s)
      in if ds = [] then None else parse_digits 0 ds)"

section \<open>Splitting loses nothing\<close>

lemma splitn_bound: "length (splitn n c s) \<le> n"
  by (induction n c s rule: splitn.induct) (auto split: list.split)

lemma splitn_nonempty: "n > 0 \<Longrightarrow> splitn n c s \<noteq> []"
  by (induction n c s rule: splitn.induct) (auto split: list.split)

lemma join_Cons: "ss \<noteq> [] \<Longrightarrow> join sep (s # ss) = s @ sep @ join sep ss"
  by (cases ss) simp_all

lemma split_at: "dropWhile (\<lambda>x. x \<noteq> c) s = y # rest \<Longrightarrow> y = c \<and> s = takeWhile (\<lambda>x. x \<noteq> c) s @ c # rest"
  by (metis (mono_tags, lifting) hd_dropWhile list.distinct(1) list.sel(1) takeWhile_dropWhile_id)

lemma join_splitn: "n > 0 \<Longrightarrow> join [c] (splitn n c s) = s"
proof (induction n c s rule: splitn.induct)
  case (3 n c s)
  show ?case
  proof (cases "dropWhile (\<lambda>x. x \<noteq> c) s")
    case (Cons y rest)
    have "join [c] (splitn (Suc n) c rest) = rest" by (rule 3(1)[OF Cons]) simp
    with Cons split_at[OF Cons] show ?thesis by (simp add: join_Cons splitn_nonempty)
  next
    case Nil
    show ?thesis by (simp add: Nil del: dropWhile_eq_Nil_conv)
  qed
qed simp_all

section \<open>Parsing what was printed\<close>

lemma digit_char_digit: "d < 10 \<Longrightarrow> is_digit (digit_char d)"
  by (simp add: is_digit_def digit_char_def of_char_of)

lemma decimal_digits: "list_all is_digit (decimal n) \<and> decimal n \<noteq> []"
proof (induction n rule: decimal.induct)
  case (1 n)
  then show ?case by (subst (1 2) decimal.simps) (auto simp: digit_char_digit)
qed

lemma undecimal_snoc: "undecimal (s @ [c]) = 10 * undecimal s + char_digit c"
  by (simp add: undecimal_def)

lemma undecimal_mono: "undecimal s \<le> undecimal (s @ t)"
proof (induction t rule: rev_induct)
  case (snoc c t)
  then show ?case using undecimal_snoc[of "s @ t" c] by simp
qed simp

lemma parse_digits_from:
  assumes "list_all is_digit ds" and "undecimal (s @ ds) < 2 ^ 64"
  shows "parse_digits (of_nat (undecimal s)) ds = Some (of_nat (undecimal (s @ ds)))"
  using assms
proof (induction ds arbitrary: s)
  case (Cons c ds)
  have lt: "undecimal (s @ [c]) < 2 ^ 64"
    using undecimal_mono[of "s @ [c]" ds] Cons.prems(2) by simp
  then have "undecimal s < 2 ^ 64" by (simp add: undecimal_snoc)
  then have "uint (of_nat (undecimal s) :: u64) = int (undecimal s)"
    by (simp add: uint_nat unat_of_nat take_bit_nat_eq_self)
  then have n: "10 * uint (of_nat (undecimal s) :: u64) + int (char_digit c) = int (undecimal (s @ [c]))"
    by (simp add: undecimal_snoc)
  have i: "int (undecimal (s @ [c])) < 2 ^ 64" using lt of_nat_less_iff[of "undecimal (s @ [c])" "2 ^ 64", where ?'a = int] by simp
  from Cons.IH[of "s @ [c]"] Cons.prems show ?case
    by (simp only: parse_digits.simps n Let_def i) simp
qed simp

lemma parse_decimal: "parse_u64 (decimal (unat a)) = Some a"
proof -
  have d: "list_all is_digit (decimal (unat a))" "decimal (unat a) \<noteq> []" using decimal_digits by auto
  then have "hd (decimal (unat a)) \<noteq> CHR ''+''"
    by (cases "decimal (unat a)") (auto simp: is_digit_def)
  moreover have "undecimal ([] @ decimal (unat a)) < 2 ^ 64"
    using unsigned_less[of a] by (simp add: undecimal_decimal)
  from parse_digits_from[OF d(1) this] have "parse_digits 0 (decimal (unat a)) = Some a"
    by (simp add: undecimal_decimal) (simp add: undecimal_def)
  ultimately show ?thesis using d(2) by (simp add: parse_u64_def)
qed

end
