(* ===== verification/Ex_Pipeline.thy ===== *)
theory Ex_Pipeline
  imports Client Stateful Example_Text
begin

text \<open>
  The document pipeline of \<^verbatim>\<open>examples/state_machine.rs\<close>: a state machine of four states on a
  runtime with two workers. Standard output is the shared state, a list of what each
  \<^verbatim>\<open>println!\<close> writes.
\<close>

section \<open>The actor\<close>

datatype doc_state = Receive | Validate | Process | Archive

datatype pipe_val =
    PipelineActor usize usize
  | PipeMachine pipe_val nat "doc_state list"
  | Document usize string
  | PipeText string
  | PipeUnit

definition overflow_panic :: payload where
  "overflow_panic = PStr ''attempt to add with overflow''"

definition println :: "string \<Rightarrow> ('v, string list) prog \<Rightarrow> ('v, string list) prog" where
  "println s k = Shared (\<lambda>out. out @ [s]) (\<lambda>_. k)"

text \<open>
  \<^verbatim>\<open>handle_in_state\<close>; the fields are \<^verbatim>\<open>processed\<close> and \<^verbatim>\<open>validated\<close>, in this order. The last
  equation stands for values of other types, which the Rust type checker excludes.
\<close>

fun pipe_handle :: "bool \<Rightarrow> pipe_val \<Rightarrow> nat \<Rightarrow> doc_state \<Rightarrow> pipe_val \<Rightarrow> (pipe_val, string list) prog" where
  "pipe_handle oc (PipelineActor p v) idx Receive (Document i c) =
     (let result = ''[Receive]  Accepted document #'' @ decimal (unat i) @ '': '' @ quot @ c @ quot
      in println result (Return (PipeText result)))"
| "pipe_handle oc (PipelineActor p v) idx Validate (Document i c) =
     (if c \<noteq> []
      then (case add_profile oc v 1 of
              None \<Rightarrow> Panic overflow_panic
            | Some v' \<Rightarrow>
                (let result = ''[Validate] Document #'' @ decimal (unat i) @ '' is valid (total valid: ''
                       @ decimal (unat v') @ '')''
                 in SetSelf (PipelineActor p v') (println result (Return (PipeText result)))))
      else (let result = ''[Validate] Document #'' @ decimal (unat i) @ '' is INVALID''
            in println result (Return (PipeText result))))"
| "pipe_handle oc (PipelineActor p v) idx Process (Document i c) =
     (let result = ''[Process]  Processing document #'' @ decimal (unat i) @ '' (state idx: ''
            @ decimal idx @ '')...''
      in println result
           (case add_profile oc p 1 of
              None \<Rightarrow> Panic overflow_panic
            | Some p' \<Rightarrow> SetSelf (PipelineActor p' v) (Return (PipeText result))))"
| "pipe_handle oc (PipelineActor p v) idx Archive (Document i c) =
     (let result = ''[Archive]  Document #'' @ decimal (unat i) @ '' archived (total done: ''
            @ decimal (unat p) @ '')''
      in println result (Return (PipeText result)))"
| "pipe_handle oc _ _ _ _ = Panic POther"

definition pipe_started :: "pipe_val \<Rightarrow> (pipe_val, string list) prog" where
  "pipe_started self = println ''[Pipeline] Started'' (Return PipeUnit)"

fun pipe_stopped :: "pipe_val \<Rightarrow> (pipe_val, string list) prog" where
  "pipe_stopped (PipelineActor p v) =
     println (''[Pipeline] Stopped '' @ em_dash @ '' validated: '' @ decimal (unat v)
       @ '', fully processed: '' @ decimal (unat p)) (Return PipeUnit)"
| "pipe_stopped _ = Panic POther"

definition pipeline :: "bool \<Rightarrow> (doc_state, pipe_val, string list) state_handler" where
  "pipeline oc =
     \<lparr>initial_state = Receive, state_sequence = [Receive, Validate, Process, Archive],
      handle_in_state = pipe_handle oc, inner_started = pipe_started, inner_stopped = pipe_stopped\<rparr>"

text \<open>The machine as a value of the program.\<close>

definition pipe_pack :: "(doc_state, pipe_val) state_machine \<Rightarrow> pipe_val" where
  "pipe_pack sm = PipeMachine (inner sm) (current sm) (states sm)"

fun pipe_unpack :: "pipe_val \<Rightarrow> (doc_state, pipe_val) state_machine option" where
  "pipe_unpack (PipeMachine v k sts) = Some \<lparr>inner = v, current = k, states = sts\<rparr>"
| "pipe_unpack _ = None"

definition pipe_classes :: "bool \<Rightarrow> (pipe_val, string list) classes" where
  "pipe_classes oc a = sm_class pipe_pack pipe_unpack (pipeline oc)"

section \<open>The main function\<close>

type_synonym pipe_runtime = "(pipe_val, string list) runtime"

definition rt_print :: "string \<Rightarrow> ('v, string list) runtime \<Rightarrow> ('v, string list) runtime" where
  "rt_print s rt = rt\<lparr>rt_world := (rt_world rt)\<lparr>env := env (rt_world rt) @ [s]\<rparr>\<rparr>"

text \<open>
  The sender thread's loop \<^verbatim>\<open>for i in 1..=8\<close>. A wait of the model gives the worker up to ten
  steps; an answer takes four (\<open>rt_request_reply\<close>).
\<close>

primrec pipe_rounds :: "bool \<Rightarrow> nat list \<Rightarrow> addr \<Rightarrow> pipe_runtime \<Rightarrow> pipe_runtime option" where
  "pipe_rounds oc [] adr rt = Some rt"
| "pipe_rounds oc (i # is) adr rt =
     (case rt_call id (pipe_classes oc) 10 adr
             (Document (of_nat i) (''Document-'' @ decimal i @ '' content'')) rt of
        Some (Inr (PipeText response), rt1) \<Rightarrow> pipe_rounds oc is adr (rt_print (''  -> '' @ response) rt1)
      | _ \<Rightarrow> None)"

definition pipe_main :: "bool \<Rightarrow> pipe_runtime option" where
  "pipe_main oc =
     (case (rt_with_threads 2 [], sm_new (pipeline oc) (PipelineActor 0 0)) of
        (Inr rt, Inr sm) \<Rightarrow>
          (case rt_spawn_sync id (pipe_classes oc) 10 (sm_start_prog pipe_pack (pipeline oc) sm) 0 (pipe_pack sm) rt of
             Some (Inr adr, rt1) \<Rightarrow>
               (let rt2 = rt_print (''Sending 8 documents (2 complete cycles of 4 states):'' @ newline)
                            (rt_print (''=== State Machine Pipeline Demo ==='' @ newline) rt1);
                    rt3 = rt2\<lparr>rt_world := snd (addr_clone adr (rt_world rt2))\<rparr>
                in case pipe_rounds oc [1, 2, 3, 4, 5, 6, 7, 8] adr rt3 of
                     Some rt4 \<Rightarrow>
                       map_option (rt_print (newline @ ''=== Pipeline Complete ===''))
                         (rt_drop_sync id (pipe_classes oc) 10
                            (rt4\<lparr>rt_world := addr_drop adr (addr_drop adr (rt_world rt4))\<rparr>))
                   | None \<Rightarrow> None)
           | _ \<Rightarrow> None)
      | _ \<Rightarrow> None)"

section \<open>Property\<close>

definition pipe_output :: "string list" where
  "pipe_output =
     [''[Pipeline] Started'',
      ''=== State Machine Pipeline Demo ==='' @ newline,
      ''Sending 8 documents (2 complete cycles of 4 states):'' @ newline,
      ''[Receive]  Accepted document #1: '' @ quot @ ''Document-1 content'' @ quot,
      ''  -> [Receive]  Accepted document #1: '' @ quot @ ''Document-1 content'' @ quot,
      ''[Validate] Document #2 is valid (total valid: 1)'',
      ''  -> [Validate] Document #2 is valid (total valid: 1)'',
      ''[Process]  Processing document #3 (state idx: 2)...'',
      ''  -> [Process]  Processing document #3 (state idx: 2)...'',
      ''[Archive]  Document #4 archived (total done: 1)'',
      ''  -> [Archive]  Document #4 archived (total done: 1)'',
      ''[Receive]  Accepted document #5: '' @ quot @ ''Document-5 content'' @ quot,
      ''  -> [Receive]  Accepted document #5: '' @ quot @ ''Document-5 content'' @ quot,
      ''[Validate] Document #6 is valid (total valid: 2)'',
      ''  -> [Validate] Document #6 is valid (total valid: 2)'',
      ''[Process]  Processing document #7 (state idx: 2)...'',
      ''  -> [Process]  Processing document #7 (state idx: 2)...'',
      ''[Archive]  Document #8 archived (total done: 2)'',
      ''  -> [Archive]  Document #8 archived (total done: 2)'',
      ''[Pipeline] Stopped '' @ em_dash @ '' validated: 2, fully processed: 2'',
      newline @ ''=== Pipeline Complete ==='']"

text \<open>
  The pipeline example returns with every document handled in the state its position in the
  cycle of four determines, prints exactly these lines in this order, with or without overflow
  checks, stops the pipeline once at the end and leaves both workers ended.
\<close>

theorem pipe_main_output:
  "\<exists>rt. pipe_main oc = Some rt \<and> env (rt_world rt) = pipe_output
     \<and> life (ActorId 1) (log (rt_world rt)) = Dead \<and> rt_join rt = Some (Inr ())"
proof -
  let ?out = "\<lambda>rt. (env (rt_world rt), life (ActorId 1) (log (rt_world rt)), rt_join rt)"
  have "map_option ?out (pipe_main True) = Some (pipe_output, Dead, Some (Inr ()))" by code_simp
  moreover have "map_option ?out (pipe_main False) = Some (pipe_output, Dead, Some (Inr ()))" by code_simp
  ultimately have "map_option ?out (pipe_main oc) = Some (pipe_output, Dead, Some (Inr ()))" by (cases oc) simp_all
  then show ?thesis by auto
qed

end
