(* ===== verification/Ex_Multi_Thread.thy ===== *)
theory Ex_Multi_Thread
  imports Runtime_Waits Stateful
begin

text \<open>
  The concurrent demo of \<^verbatim>\<open>examples/multi_thread.rs\<close>: four state machines on a runtime, one sender
  thread each, and a main thread that calls \<^verbatim>\<open>run\<close> meanwhile. The threads interleave: a schedule
  is a list of actions, and \<open>mt_run\<close> plays it. How long anything takes is up to the schedule.
  Which thread runs an actor, as \<^verbatim>\<open>{:?}\<close> of its \<^verbatim>\<open>ThreadId\<close> prints it, is the parameter \<open>tid\<close>
  of \<open>task_text\<close>.
\<close>

section \<open>The actor\<close>

datatype task_state = TReceive | TExecute | TReport

text \<open>
  What the program formats, with the arguments of the format string; \<open>task_text\<close> is the text.
\<close>

datatype task_line =
    Header nat nat nat
  | Started usize
  | Stopped usize
  | Received_task usize u64
  | Executing usize u64
  | Complete usize
  | Reporting usize

fun task_text :: "(usize \<Rightarrow> string) \<Rightarrow> task_line \<Rightarrow> string" where
  "task_text tid (Header threads acts msgs) =
     ''=== Multi-Threaded State Machine Demo ==='' @ [CHR 0x0A] @ ''Threads: '' @ decimal threads
     @ '', Actors: '' @ decimal acts @ '', Messages per actor: '' @ decimal msgs @ [CHR 0x0A]"
| "task_text tid (Started i) = ''Worker-'' @ decimal (unat i) @ '' started''"
| "task_text tid (Stopped i) = ''Worker-'' @ decimal (unat i) @ '' stopped''"
| "task_text tid (Received_task i d) =
     ''[W-'' @ decimal (unat i) @ ''] RECEIVED task ('' @ decimal (unat d) @ ''ms) on '' @ tid i"
| "task_text tid (Executing i d) =
     ''[W-'' @ decimal (unat i) @ ''] EXECUTING for '' @ decimal (unat d) @ ''ms on '' @ tid i"
| "task_text tid (Complete i) = ''[W-'' @ decimal (unat i) @ ''] execution complete''"
| "task_text tid (Reporting i) = ''[W-'' @ decimal (unat i) @ ''] REPORTING done on '' @ tid i"

datatype task_val =
    WorkerActor usize
  | TaskMachine task_val nat "task_state list"
  | Task u64
  | TaskText task_line
  | TaskUnit

type_synonym task_prog = "(task_val, task_line list) prog"

definition task_print :: "task_line \<Rightarrow> task_prog \<Rightarrow> task_prog" where
  "task_print l k = Shared (\<lambda>out. out @ [l]) (\<lambda>_. k)"

fun task_handle :: "task_val \<Rightarrow> nat \<Rightarrow> task_state \<Rightarrow> task_val \<Rightarrow> task_prog" where
  "task_handle (WorkerActor i) idx TReceive (Task d) = Return (TaskText (Received_task i d))"
| "task_handle (WorkerActor i) idx TExecute (Task d) =
     task_print (Executing i d) (Return (TaskText (Complete i)))"
| "task_handle (WorkerActor i) idx TReport (Task d) = Return (TaskText (Reporting i))"
| "task_handle _ _ _ _ = Panic POther"

fun task_started :: "task_val \<Rightarrow> task_prog" where
  "task_started (WorkerActor i) = task_print (Started i) (Return TaskUnit)"
| "task_started _ = Panic POther"

fun task_stopped :: "task_val \<Rightarrow> task_prog" where
  "task_stopped (WorkerActor i) = task_print (Stopped i) (Return TaskUnit)"
| "task_stopped _ = Panic POther"

definition tasker :: "(task_state, task_val, task_line list) state_handler" where
  "tasker =
     \<lparr>initial_state = TReceive, state_sequence = [TReceive, TExecute, TReport],
      handle_in_state = task_handle, inner_started = task_started, inner_stopped = task_stopped\<rparr>"

definition task_pack :: "(task_state, task_val) state_machine \<Rightarrow> task_val" where
  "task_pack sm = TaskMachine (inner sm) (current sm) (states sm)"

fun task_unpack :: "task_val \<Rightarrow> (task_state, task_val) state_machine option" where
  "task_unpack (TaskMachine v k sts) = Some \<lparr>inner = v, current = k, states = sts\<rparr>"
| "task_unpack _ = None"

definition task_classes :: "(task_val, task_line list) classes" where
  "task_classes a = sm_class task_pack task_unpack tasker"

section \<open>The threads\<close>

text \<open>
  A sender thread: about to send with so many messages to go, waiting in \<^verbatim>\<open>send\<close>, at its end, or
  gone by the panic of \<^verbatim>\<open>unwrap\<close>.
\<close>

datatype sender = Sending addr nat | Awaiting addr nat nat | Done | Unwrap_failed send_error

record mt_state =
  mt_rt :: "(task_val, task_line list) runtime"
  mt_senders :: "sender list"

definition sender_step :: "sender \<Rightarrow> (task_val, task_line list) world \<Rightarrow> sender \<times> (task_val, task_line list) world" where
  "sender_step s w =
     (case s of
        Sending adr 0 \<Rightarrow> (Done, addr_drop adr w)
      | Sending adr (Suc k) \<Rightarrow>
          (case addr_send_begin adr (Task 50) w of
             (Inl err, w') \<Rightarrow> (Unwrap_failed err, addr_drop adr w')
           | (Inr r, w') \<Rightarrow> (Awaiting adr k r, w'))
      | Awaiting adr k r \<Rightarrow>
          (case addr_send_result r w of
             None \<Rightarrow> (s, w)
           | Some (Inl err) \<Rightarrow> (Unwrap_failed err, addr_drop adr w)
           | Some (Inr _) \<Rightarrow> (Sending adr k, w))
      | _ \<Rightarrow> (s, w))"

datatype mt_action = Sender nat | Work nat | Stop

definition mt_step :: "mt_action \<Rightarrow> mt_state \<Rightarrow> mt_state" where
  "mt_step act st =
     (case act of
        Sender i \<Rightarrow>
          (if i < length (mt_senders st)
           then (case sender_step (mt_senders st ! i) (rt_world (mt_rt st)) of
                   (s, w) \<Rightarrow> st\<lparr>mt_rt := (mt_rt st)\<lparr>rt_world := w\<rparr>, mt_senders := (mt_senders st)[i := s]\<rparr>)
           else st)
      | Work n \<Rightarrow>
          (if n < length (rt_workers (mt_rt st)) then st\<lparr>mt_rt := run_worker id task_classes n (mt_rt st)\<rparr> else st)
      | Stop \<Rightarrow> st\<lparr>mt_rt := rt_run_begin (mt_rt st)\<rparr>)"

primrec mt_run :: "mt_action list \<Rightarrow> mt_state \<Rightarrow> mt_state" where
  "mt_run [] st = st"
| "mt_run (act # acts) st = mt_run acts (mt_step act st)"

text \<open>
  What the main thread has at the end: \<^verbatim>\<open>run\<close> joins the workers, then \<^verbatim>\<open>h.join().unwrap()\<close> joins
  the senders. \<open>None\<close>: still waiting.
\<close>

definition mt_result :: "mt_state \<Rightarrow> (fault + unit) option" where
  "mt_result st =
     (case rt_join (mt_rt st) of
        None \<Rightarrow> None
      | Some (Inl f) \<Rightarrow> Some (Inl f)
      | Some (Inr _) \<Rightarrow>
          (if list_all (\<lambda>s. s = Done) (mt_senders st) then Some (Inr ())
           else if list_all (\<lambda>s. case s of Done \<Rightarrow> True | Unwrap_failed _ \<Rightarrow> True | _ \<Rightarrow> False) (mt_senders st)
           then Some (Inl (Panicking POther))
           else None))"

section \<open>The main function\<close>

definition mt_actors :: nat where
  "mt_actors = 4"

definition mt_messages :: nat where
  "mt_messages = 3"

primrec mt_spawn_all :: "nat list \<Rightarrow> (task_val, task_line list) runtime \<Rightarrow>
    (addr list \<times> (task_val, task_line list) runtime) option" where
  "mt_spawn_all [] rt = Some ([], rt)"
| "mt_spawn_all (i # is) rt =
     (case sm_new tasker (WorkerActor (of_nat i)) of
        Inl f \<Rightarrow> None
      | Inr sm \<Rightarrow>
          (case rt_spawn_sync id task_classes 10 (sm_start_prog task_pack tasker sm) 0 (task_pack sm) rt of
             Some (Inr adr, rt1) \<Rightarrow> map_option (\<lambda>(adrs, rt2). (adr # adrs, rt2)) (mt_spawn_all is rt1)
           | _ \<Rightarrow> None))"

text \<open>
  The program up to the point where all its threads run, with so many workers, actors and
  messages to each.
\<close>

definition mt_start :: "nat \<Rightarrow> nat \<Rightarrow> nat \<Rightarrow> mt_state option" where
  "mt_start threads acts msgs =
     (case rt_with_threads threads [Header threads acts msgs] of
        Inl f \<Rightarrow> None
      | Inr rt \<Rightarrow>
          map_option (\<lambda>(adrs, rt1). \<lparr>mt_rt = rt1, mt_senders = map (\<lambda>adr. Sending adr msgs) adrs\<rparr>)
            (mt_spawn_all [0..<acts] rt))"

definition mt_main_start :: "mt_state option" where
  "mt_main_start = mt_start default_worker_threads mt_actors mt_messages"

section \<open>Every schedule is a run of the runtime\<close>

lemma embed_never_waits: "never_waits p \<Longrightarrow> never_waits (embed pk fin p v)"
  by (induction p arbitrary: v) auto

lemma task_waitless: "waitless task_classes"
proof -
  have h: "never_waits (task_handle v k st m)" for v k st m
    by (induction v k st m rule: task_handle.induct) (simp_all add: task_print_def)
  have s: "never_waits (task_stopped v)" for v
    by (cases v) (simp_all add: task_print_def)
  show ?thesis
    by (auto simp: waitless_def task_classes_def sm_class_def tasker_def h s embed_never_waits split: option.split)
qed

text \<open>What every schedule keeps, from the start of a runtime \<open>rt0\<close>.\<close>

definition mt_inv :: "(task_val, task_line list) runtime \<Rightarrow> mt_state \<Rightarrow> bool" where
  "mt_inv rt0 st \<longleftrightarrow> rt_steps id task_classes rt0 (mt_rt st)
   \<and> (\<forall>adr k r. Awaiting adr k r \<in> set (mt_senders st) \<longrightarrow> r < length (replies (rt_world (mt_rt st))))"

lemma sender_step_world:
  assumes "sender_step s w = (s', w')"
  obtains (Stay) "w' = w" | (Drop) adr where "w' = addr_drop adr w"
  | (Send) adr m where "w' = snd (addr_send_begin adr m w)"
  | (Fail) adr m where "w' = addr_drop adr (snd (addr_send_begin adr m w))"
proof (cases s)
  case (Sending adr k)
  obtain q w1 where q: "addr_send_begin adr (Task 50) w = (q, w1)" by fastforce
  then have w1: "w1 = snd (addr_send_begin adr (Task 50) w)" by simp
  show ?thesis
  proof (cases k)
    case 0
    then show ?thesis using assms Sending by (intro Drop) (auto simp: sender_step_def)
  next
    case (Suc k')
    show ?thesis
    proof (cases q)
      case (Inl err)
      then have "w' = addr_drop adr w1" using assms Sending Suc q by (auto simp: sender_step_def)
      with w1 show ?thesis by (intro Fail) simp
    next
      case (Inr r)
      then have "w' = w1" using assms Sending Suc q by (auto simp: sender_step_def)
      with w1 show ?thesis by (intro Send) simp
    qed
  qed
next
  case (Awaiting adr k r)
  show ?thesis
  proof (cases "addr_send_result r w")
    case None
    with assms Awaiting show ?thesis by (intro Stay) (simp add: sender_step_def)
  next
    case (Some res)
    show ?thesis
    proof (cases res)
      case (Inl err)
      with assms Awaiting Some show ?thesis by (intro Drop) (auto simp: sender_step_def)
    next
      case (Inr v)
      with assms Awaiting Some show ?thesis by (intro Stay) (simp add: sender_step_def)
    qed
  qed
qed (use assms in \<open>auto simp: sender_step_def intro: Stay\<close>)

lemma sender_step_runs:
  assumes "sender_step s (rt_world rt) = (s', w)" and "rt_steps order cls rt0 rt"
  shows "rt_steps order cls rt0 (rt\<lparr>rt_world := w\<rparr>)"
  using assms(1)
proof (cases rule: sender_step_world)
  case (Fail adr m)
  have "rt_steps order cls rt0 (rt\<lparr>rt_world := snd (addr_send_begin adr m (rt_world rt))\<rparr>)"
    by (rule rt_trans[OF assms(2) rt_send])
  from rt_trans[OF this Runtime.rt_drop[where adr = adr]] Fail show ?thesis by simp
qed (use assms(2) rt_trans[OF assms(2) rt_send] rt_trans[OF assms(2) Runtime.rt_drop] in auto)

lemma send_begin_reply: "addr_send_begin adr m w = (Inr r, w') \<Longrightarrow> r < length (replies w')"
  using addr_send_begin_simps[of adr m w] by (simp split: if_splits)

lemma sender_step_replies:
  assumes "sender_step s w = (s', w')"
  shows "length (replies w) \<le> length (replies w')"
    and "s' = Awaiting adr k r \<Longrightarrow> s = Awaiting adr k r \<or> r < length (replies w')"
proof -
  show "length (replies w) \<le> length (replies w')"
    using assms by (cases rule: sender_step_world) simp_all
  show "s' = Awaiting adr k r \<Longrightarrow> s = Awaiting adr k r \<or> r < length (replies w')"
    using assms
    by (auto simp: sender_step_def dest: send_begin_reply split: sender.splits nat.splits prod.splits sum.splits option.splits if_splits)
qed

lemma mt_step_inv:
  assumes "mt_inv rt0 st" and "rt_with_threads n e = Inr rt0"
  shows "mt_inv rt0 (mt_step act st)"
proof (cases act)
  case (Sender i)
  show ?thesis
  proof (cases "i < length (mt_senders st)")
    case True
    obtain s w where s: "sender_step (mt_senders st ! i) (rt_world (mt_rt st)) = (s, w)" by fastforce
    have st: "mt_step act st = st\<lparr>mt_rt := (mt_rt st)\<lparr>rt_world := w\<rparr>, mt_senders := (mt_senders st)[i := s]\<rparr>"
      using Sender True s by (simp add: mt_step_def)
    have old: "r < length (replies w)" if "Awaiting adr k r \<in> set (mt_senders st)" for adr k r
      using that assms(1) sender_step_replies(1)[OF s] by (fastforce simp: mt_inv_def)
    have "r < length (replies w)" if "Awaiting adr k r \<in> set ((mt_senders st)[i := s])" for adr k r
    proof (cases "s = Awaiting adr k r")
      case True
      with sender_step_replies(2)[OF s] old \<open>i < length (mt_senders st)\<close> show ?thesis by (metis nth_mem)
    next
      case False
      with that old set_update_subset_insert[of "mt_senders st" i s] show ?thesis by fastforce
    qed
    with sender_step_runs[OF s] assms(1) st show ?thesis by (auto simp: mt_inv_def)
  qed (use Sender assms in \<open>simp add: mt_step_def\<close>)
next
  case (Work n')
  show ?thesis
  proof (cases "n' < length (rt_workers (mt_rt st))")
    case True
    have r: "rt_steps id task_classes rt0 (mt_rt st)" using assms(1) by (simp add: mt_inv_def)
    have "rt_steps id task_classes rt0 (run_worker id task_classes n' (mt_rt st))"
      by (rule rt_trans[OF r rt_work_waitless[OF rt_reach_unblocked[OF assms(2) r] task_waitless True]])
    moreover have "length (replies (rt_world (mt_rt st))) \<le> length (replies (rt_world (run_worker id task_classes n' (mt_rt st))))"
      using worker_step_replies by (auto simp: run_worker_def split: prod.split)
    ultimately show ?thesis using assms(1) Work True by (fastforce simp: mt_inv_def mt_step_def)
  qed (use Work assms in \<open>simp add: mt_step_def\<close>)
next
  case Stop
  have "rt_steps id task_classes rt0 (rt_shutdown (mt_rt st))"
    using rt_trans[OF _ rt_stop] assms(1) by (auto simp: mt_inv_def)
  then show ?thesis using assms(1) Stop by (simp add: mt_inv_def mt_step_def rt_run_begin_def rt_shutdown_def)
qed

lemma mt_run_inv: "mt_inv rt0 st \<Longrightarrow> rt_with_threads n e = Inr rt0 \<Longrightarrow> mt_inv rt0 (mt_run acts st)"
  by (induction acts arbitrary: st) (auto intro: mt_step_inv)

lemma mt_spawn_all_runs:
  "mt_spawn_all is rt = Some (adrs, rt') \<Longrightarrow> rt_steps id task_classes rt0 rt \<Longrightarrow> rt_with_threads n e = Inr rt0 \<Longrightarrow>
   rt_steps id task_classes rt0 rt'"
proof (induction "is" arbitrary: adrs rt)
  case (Cons i "is")
  from Cons.prems(1) obtain sm adr rt1 adrs' where
    sp: "rt_spawn_sync id task_classes 10 (sm_start_prog task_pack tasker sm) 0 (task_pack sm) rt = Some (Inr adr, rt1)"
    and re: "mt_spawn_all is rt1 = Some (adrs', rt')"
    by (auto split: sum.splits option.splits prod.splits)
  have "rt_comm rt" by (rule rt_reach_comm[OF Cons.prems(3,2)])
  from rt_steps_trans[OF rt_spawn_sync_steps[OF sp this] Cons.prems(2)] Cons.IH[OF re _ Cons.prems(3)]
  show ?case by blast
qed simp

lemma mt_start_inv:
  assumes "mt_start threads acts msgs = Some st"
  obtains rt0 where "rt_with_threads threads [Header threads acts msgs] = Inr rt0" "mt_inv rt0 st"
proof -
  from assms obtain rt0 adrs rt1 where
    n: "rt_with_threads threads [Header threads acts msgs] = Inr rt0"
    and sp: "mt_spawn_all [0..<acts] rt0 = Some (adrs, rt1)"
    and st: "st = \<lparr>mt_rt = rt1, mt_senders = map (\<lambda>adr. Sending adr msgs) adrs\<rparr>"
    by (auto simp: mt_start_def split: sum.splits)
  from mt_spawn_all_runs[OF sp rt_refl n] st have "mt_inv rt0 st" by (auto simp: mt_inv_def)
  with n show ?thesis by (rule that)
qed

section \<open>The join of the senders\<close>

text \<open>
  The fate of a sender once all workers have ended, after one and after two of its steps.
\<close>

definition finished :: "sender \<Rightarrow> bool" where
  "finished s \<longleftrightarrow> (case s of Done \<Rightarrow> True | Unwrap_failed _ \<Rightarrow> True | _ \<Rightarrow> False)"

fun unsent :: "sender \<Rightarrow> bool" where
  "unsent (Sending adr (Suc k)) = True"
| "unsent (Unwrap_failed err) = True"
| "unsent _ = False"

lemma sender_step_fails:
  "fst (addr_send_begin adr (Task 50) w) = Inl err \<Longrightarrow> fst (sender_step (Sending adr (Suc k)) w) = Unwrap_failed err"
  by (cases "addr_send_begin adr (Task 50) w") (simp add: sender_step_def)

lemma sender_step_ended:
  assumes "rt_comm rt" and "rt_join rt \<noteq> None" and "s' = fst (sender_step s (rt_world rt))"
    and "\<And>adr k r. s = Awaiting adr k r \<Longrightarrow> r < length (replies (rt_world rt))"
  shows "(finished s' \<or> (\<exists>adr k r. s = Awaiting adr k r \<and> s' = Sending adr k))
    \<and> (unsent s \<longrightarrow> unsent s' \<and> finished s')"
proof (cases s)
  case (Sending adr k)
  have "fst (addr_send_begin adr (Task 50) (rt_world rt)) = Inl RuntimeShutdown"
    using rt_ended_settled(1)[OF assms(1,2)] by simp
  note f = sender_step_fails[OF this]
  show ?thesis
  proof (cases k)
    case 0
    with Sending assms(3) show ?thesis by (simp add: sender_step_def finished_def)
  next
    case (Suc k')
    with Sending assms(3) f show ?thesis by (simp add: finished_def)
  qed
next
  case (Awaiting adr k r)
  from rt_ended_settled(2)[OF assms(1,2) assms(4)[OF this]] Awaiting assms(3) show ?thesis
    by (auto simp: addr_send_result_def sender_step_def finished_def split: reply.splits)
qed (use assms(3) in \<open>simp_all add: sender_step_def finished_def\<close>)

definition mt_ended :: "mt_state \<Rightarrow> bool" where
  "mt_ended st \<longleftrightarrow> rt_join (mt_rt st) \<noteq> None"

text \<open>One step of sender \<open>i\<close> then.\<close>

lemma mt_step_ended:
  assumes "mt_inv rt0 st" and "rt_with_threads n e = Inr rt0" and "mt_ended st" and "i < length (mt_senders st)"
  obtains s' where "mt_senders (mt_step (Sender i) st) = (mt_senders st)[i := s']"
    and "finished s' \<or> (\<exists>adr k r. mt_senders st ! i = Awaiting adr k r \<and> s' = Sending adr k)"
    and "unsent (mt_senders st ! i) \<Longrightarrow> unsent s' \<and> finished s'"
    and "rt_join (mt_rt (mt_step (Sender i) st)) = rt_join (mt_rt st)"
proof -
  obtain s' w where s: "sender_step (mt_senders st ! i) (rt_world (mt_rt st)) = (s', w)" by fastforce
  have c: "rt_comm (mt_rt st)" using assms(1) by (auto simp: mt_inv_def intro: rt_reach_comm[OF assms(2)])
  have r: "r < length (replies (rt_world (mt_rt st)))" if "mt_senders st ! i = Awaiting adr k r" for adr k r
    using that assms(1,4) nth_mem[OF assms(4)] by (simp add: mt_inv_def)
  have st: "mt_step (Sender i) st = st\<lparr>mt_rt := (mt_rt st)\<lparr>rt_world := w\<rparr>, mt_senders := (mt_senders st)[i := s']\<rparr>"
    using assms(4) s by (simp add: mt_step_def)
  show ?thesis
  proof (rule that)
    show "mt_senders (mt_step (Sender i) st) = (mt_senders st)[i := s']" by (simp add: st)
    show "rt_join (mt_rt (mt_step (Sender i) st)) = rt_join (mt_rt st)" by (simp add: st rt_join_def)
  qed (use sender_step_ended[OF c assms(3)[unfolded mt_ended_def], of s' "mt_senders st ! i"] s r in auto)
qed

definition twice :: "nat \<Rightarrow> mt_action list" where
  "twice i = [Sender i, Sender i]"

lemma twice_ended:
  assumes "mt_inv rt0 st" and "rt_with_threads n e = Inr rt0" and "mt_ended st" and "i < length (mt_senders st)"
  obtains s' where "mt_senders (mt_run (twice i) st) = (mt_senders st)[i := s']" "finished s'"
    "unsent (mt_senders st ! i) \<Longrightarrow> unsent s'"
    "rt_join (mt_rt (mt_run (twice i) st)) = rt_join (mt_rt st)"
proof -
  from mt_step_ended[OF assms] obtain s1 where 1: "mt_senders (mt_step (Sender i) st) = (mt_senders st)[i := s1]"
    "finished s1 \<or> (\<exists>adr k r. mt_senders st ! i = Awaiting adr k r \<and> s1 = Sending adr k)"
    "unsent (mt_senders st ! i) \<Longrightarrow> unsent s1 \<and> finished s1"
    "rt_join (mt_rt (mt_step (Sender i) st)) = rt_join (mt_rt st)" by metis
  let ?st1 = "mt_step (Sender i) st"
  have "mt_inv rt0 ?st1" "mt_ended ?st1" "i < length (mt_senders ?st1)" "mt_senders ?st1 ! i = s1"
    using mt_step_inv[OF assms(1,2)] assms(3,4) 1(1,4) by (simp_all add: mt_ended_def)
  with mt_step_ended[OF _ assms(2), of ?st1 i] obtain s2 where 2: "mt_senders (mt_step (Sender i) ?st1) = (mt_senders ?st1)[i := s2]"
    "finished s2 \<or> (\<exists>adr k r. s1 = Awaiting adr k r \<and> s2 = Sending adr k)"
    "unsent s1 \<Longrightarrow> unsent s2 \<and> finished s2"
    "rt_join (mt_rt (mt_step (Sender i) ?st1)) = rt_join (mt_rt ?st1)" by metis
  have "finished s2" using 1(2) 2(2) by (auto simp: finished_def)
  with 1 2 show ?thesis by (intro that[of s2]) (auto simp: twice_def)
qed

lemma mt_run_append: "mt_run (xs @ ys) st = mt_run ys (mt_run xs st)"
  by (induction xs arbitrary: st) simp_all

definition mt_finish :: "nat \<Rightarrow> mt_action list" where
  "mt_finish n = concat (map twice [0..<n])"

lemma mt_finish_ended:
  assumes "mt_inv rt0 st" and "rt_with_threads n e = Inr rt0" and "mt_ended st" and "m \<le> length (mt_senders st)"
  shows "rt_join (mt_rt (mt_run (mt_finish m) st)) = rt_join (mt_rt st)
    \<and> length (mt_senders (mt_run (mt_finish m) st)) = length (mt_senders st)
    \<and> (\<forall>i < m. finished (mt_senders (mt_run (mt_finish m) st) ! i))
    \<and> (\<forall>i < length (mt_senders st). unsent (mt_senders st ! i) \<longrightarrow> unsent (mt_senders (mt_run (mt_finish m) st) ! i))"
  using assms(4)
proof (induction m)
  case 0
  then show ?case by (simp add: mt_finish_def)
next
  case (Suc m)
  let ?st1 = "mt_run (mt_finish m) st"
  have IH: "rt_join (mt_rt ?st1) = rt_join (mt_rt st)" "length (mt_senders ?st1) = length (mt_senders st)"
    "\<forall>i < m. finished (mt_senders ?st1 ! i)"
    "\<forall>i < length (mt_senders st). unsent (mt_senders st ! i) \<longrightarrow> unsent (mt_senders ?st1 ! i)"
    using Suc by simp_all
  have "mt_inv rt0 ?st1" "mt_ended ?st1" "m < length (mt_senders ?st1)"
    using mt_run_inv[OF assms(1,2)] assms(3) IH(1,2) Suc.prems by (simp_all add: mt_ended_def)
  from twice_ended[OF this(1) assms(2) this(2,3)] obtain s' where
    s': "mt_senders (mt_run (twice m) ?st1) = (mt_senders ?st1)[m := s']" "finished s'"
    "unsent (mt_senders ?st1 ! m) \<Longrightarrow> unsent s'" "rt_join (mt_rt (mt_run (twice m) ?st1)) = rt_join (mt_rt ?st1)"
    by metis
  have "mt_run (mt_finish (Suc m)) st = mt_run (twice m) ?st1"
    by (simp add: mt_finish_def mt_run_append)
  with s' IH Suc.prems show ?case by (auto simp: nth_list_update less_Suc_eq)
qed

section \<open>Property\<close>

text \<open>
  C30: the join of the senders never hangs, but may panic. From the start of the example with any
  numbers of workers, actors and messages, under every schedule in which all workers have come
  to their end, two more steps of each sender thread end it. If the workers returned normally
  while a sender still had a message to send, the sender's \<^verbatim>\<open>unwrap\<close> has panicked and the main
  function panics in turn.
\<close>

theorem mt_senders_end:
  assumes "mt_start threads acts msgs = Some st0" and "st = mt_run sched st0" and "rt_join (mt_rt st) \<noteq> None"
    and "st' = mt_run (mt_finish (length (mt_senders st))) st"
  shows "mt_result st' \<noteq> None
    \<and> (rt_join (mt_rt st) = Some (Inr ()) \<and> Sending adr (Suc k) \<in> set (mt_senders st) \<longrightarrow>
        mt_result st' = Some (Inl (Panicking POther)))"
proof -
  from mt_start_inv[OF assms(1)] obtain rt0 where n: "rt_with_threads threads [Header threads acts msgs] = Inr rt0"
    and i0: "mt_inv rt0 st0" by blast
  have i: "mt_inv rt0 st" using mt_run_inv[OF i0 n] assms(2) by simp
  have e: "rt_join (mt_rt st') = rt_join (mt_rt st)" "length (mt_senders st') = length (mt_senders st)"
    "\<forall>i < length (mt_senders st). finished (mt_senders st' ! i)"
    "\<forall>i < length (mt_senders st). unsent (mt_senders st ! i) \<longrightarrow> unsent (mt_senders st' ! i)"
    using mt_finish_ended[OF i n, of "length (mt_senders st)"] assms(3,4) by (simp_all add: mt_ended_def)
  have f: "list_all finished (mt_senders st')" using e(2,3) by (simp add: list_all_length)
  then have "list_all (\<lambda>s. case s of Done \<Rightarrow> True | Unwrap_failed _ \<Rightarrow> True | _ \<Rightarrow> False) (mt_senders st')"
    by (simp add: finished_def[abs_def])
  moreover have "\<not> list_all (\<lambda>s. s = Done) (mt_senders st')" if sd: "Sending adr (Suc k) \<in> set (mt_senders st)"
  proof -
    from sd obtain i where il: "i < length (mt_senders st)" and si: "mt_senders st ! i = Sending adr (Suc k)"
      by (auto simp: in_set_conv_nth)
    have "unsent (mt_senders st' ! i)" using e(4) il si by simp
    then have "mt_senders st' ! i \<noteq> Done" by auto
    with il e(2) show ?thesis by (auto simp: list_all_length)
  qed
  ultimately show ?thesis using assms(3) e(1)
    by (cases "rt_join (mt_rt st)") (auto simp: mt_result_def split: sum.splits)
qed

text \<open>The main thread's timer fires before the only sender has sent anything.\<close>

lemma mt_small_results:
  "map_option (\<lambda>st0. rt_join (mt_rt (mt_run [Stop, Work 0, Work 0] st0))) (mt_start 1 1 1) = Some (Some (Inr ()))"
  "map_option (\<lambda>st0. mt_senders (mt_run [Stop, Work 0, Work 0] st0)) (mt_start 1 1 1)
     = Some [Sending (addr_new (ActorId 1) 0 0) 1]"
  by code_simp+

theorem mt_senders_end_witness:
  "\<exists>st0. mt_start 1 1 1 = Some st0 \<and>
     mt_result (mt_run (mt_finish 1) (mt_run [Stop, Work 0, Work 0] st0)) = Some (Inl (Panicking POther))"
proof -
  from mt_small_results obtain st0 where s: "mt_start 1 1 1 = Some st0"
    "rt_join (mt_rt (mt_run [Stop, Work 0, Work 0] st0)) = Some (Inr ())"
    "mt_senders (mt_run [Stop, Work 0, Work 0] st0) = [Sending (addr_new (ActorId 1) 0 0) 1]"
    by (cases "mt_start 1 1 1") simp_all
  from mt_senders_end[OF s(1) refl _ refl, of "[Stop, Work 0, Work 0]" "addr_new (ActorId 1) 0 0" 0] s show ?thesis by simp
qed

end
