(* ===== verification/Ex_Console.thy ===== *)
theory Ex_Console
  imports Runtime_Waits Stateful Example_Text
begin

text \<open>
  The console of \<^verbatim>\<open>examples/console.rs\<close>: a meta actor that creates and destroys workers, a
  command actor that answers what the user types, workers that are state machines, and the
  thread that reads the lines. What the actors share behind locks is the shared state of the
  world; an \<^verbatim>\<open>Arc<Mutex<WorkerInfo>>\<close> is an index into \<open>infos\<close>. A panic of a handler that
  holds a lock would poison it; the only one is the overflow of a message count, after which
  the poisoned lock is not modelled.
\<close>

section \<open>The shared state\<close>

record worker_info =
  info_name :: string
  msg_count :: usize
  last_msg :: string
  current_state :: string

record managed_worker =
  mw_addr :: addr
  mw_info :: nat
  mw_name :: string

record console_env =
  event_log :: "string list"
  registry :: "(actor_id, managed_worker) hashmap"
  infos :: "worker_info list"
  cmd_addr_holder :: "addr option"
  last_response :: "string option"
  stdout :: string

datatype worker_state = Idle | Receiving | Processing

datatype meta_command = CreateWorker string | DestroyWorker actor_id

datatype cmd_response =
    Spawned actor_id string
  | Stopped_resp actor_id string usize string
  | Error_resp string

datatype console_command = Exec string | Poll | SetMeta addr | Quit

datatype console_result = Ok string | Quit_result

text \<open>
  The values of the program: \<^verbatim>\<open>MetaActor\<close> with its \<^verbatim>\<open>cmd_addr\<close>, \<^verbatim>\<open>CommandActor\<close> with its \<^verbatim>\<open>meta\<close>,
  \<^verbatim>\<open>WorkerActor\<close> with its \<^verbatim>\<open>info\<close>, the state machine around it, and the messages and results.
\<close>

datatype console_val =
    MetaActor "addr option"
  | CommandActor "addr option"
  | WorkerActor nat
  | WorkerSM console_val nat "worker_state list"
  | WorkerMessage string
  | MetaCmd meta_command
  | CmdResp cmd_response
  | ConsoleCmd console_command
  | ConsoleRes console_result
  | ConsoleUnit

type_synonym console_prog = "(console_val, console_env) prog"

definition meta_type :: type_id where
  "meta_type = 0"

definition command_type :: type_id where
  "command_type = 1"

definition worker_type :: type_id where
  "worker_type = 2"

section \<open>Access to the shared state\<close>

definition with_env :: "(console_env \<Rightarrow> console_prog) \<Rightarrow> console_prog" where
  "with_env k = Shared (\<lambda>e. e) k"

definition push_log :: "string \<Rightarrow> console_prog \<Rightarrow> console_prog" where
  "push_log s k = Shared (\<lambda>e. e\<lparr>event_log := event_log e @ [s]\<rparr>) (\<lambda>_. k)"

definition respond :: "string \<Rightarrow> console_prog \<Rightarrow> console_prog" where
  "respond s k = Shared (\<lambda>e. e\<lparr>last_response := Some s\<rparr>) (\<lambda>_. k)"

definition put_out :: "string \<Rightarrow> console_prog \<Rightarrow> console_prog" where
  "put_out s k = Shared (\<lambda>e. e\<lparr>stdout := stdout e @ s\<rparr>) (\<lambda>_. k)"

definition quoted :: "string \<Rightarrow> string" where
  "quoted s = apos @ s @ apos"

text \<open>Dropping an \<^verbatim>\<open>Option<Addr<A>>\<close>.\<close>

fun drop_opt :: "addr option \<Rightarrow> console_prog \<Rightarrow> console_prog" where
  "drop_opt None k = k"
| "drop_opt (Some a) k = DropAddr a k"

section \<open>The workers\<close>

fun debug_worker_state :: "worker_state \<Rightarrow> string" where
  "debug_worker_state Idle = ''Idle''"
| "debug_worker_state Receiving = ''Receiving''"
| "debug_worker_state Processing = ''Processing''"

fun worker_started :: "console_val \<Rightarrow> console_prog" where
  "worker_started (WorkerActor i) =
     with_env (\<lambda>e. CtxId (\<lambda>a. push_log (''['' @ display_actor_id a @ ''] Worker ''
       @ quoted (info_name (infos e ! i)) @ '' started'') (Return ConsoleUnit)))"
| "worker_started _ = Panic POther"

fun worker_stopped :: "console_val \<Rightarrow> console_prog" where
  "worker_stopped (WorkerActor i) =
     with_env (\<lambda>e. CtxId (\<lambda>a. push_log (''['' @ display_actor_id a @ ''] Worker ''
       @ quoted (info_name (infos e ! i)) @ '' stopped'') (Return ConsoleUnit)))"
| "worker_stopped _ = Panic POther"

text \<open>Values of other types are excluded by the type checker; \<open>oc\<close>: overflow checks.\<close>

fun worker_handle :: "bool \<Rightarrow> console_val \<Rightarrow> nat \<Rightarrow> worker_state \<Rightarrow> console_val \<Rightarrow> console_prog" where
  "worker_handle oc (WorkerActor i) idx st (WorkerMessage text) =
     with_env (\<lambda>e.
       case add_profile oc (msg_count (infos e ! i)) 1 of
         None \<Rightarrow> Panic (PStr ''attempt to add with overflow'')
       | Some n \<Rightarrow>
           Shared (\<lambda>e. e\<lparr>infos := (infos e)[i := (infos e ! i)
               \<lparr>msg_count := n, last_msg := text, current_state := debug_worker_state st\<rparr>]\<rparr>) (\<lambda>_.
           CtxId (\<lambda>a. push_log (''['' @ display_actor_id a @ ''] '' @ quoted (info_name (infos e ! i))
             @ '' received in '' @ debug_worker_state st @ '' (#'' @ decimal (unat n) @ ''): '' @ text)
             (Return ConsoleUnit))))"
| "worker_handle oc _ _ _ _ = Panic POther"

definition worker_handler :: "bool \<Rightarrow> (worker_state, console_val, console_env) state_handler" where
  "worker_handler oc =
     \<lparr>initial_state = Idle, state_sequence = [Idle, Receiving, Processing],
      handle_in_state = worker_handle oc, inner_started = worker_started, inner_stopped = worker_stopped\<rparr>"

definition worker_pack :: "(worker_state, console_val) state_machine \<Rightarrow> console_val" where
  "worker_pack sm = WorkerSM (inner sm) (current sm) (states sm)"

fun worker_unpack :: "console_val \<Rightarrow> (worker_state, console_val) state_machine option" where
  "worker_unpack (WorkerSM v k sts) = Some \<lparr>inner = v, current = k, states = sts\<rparr>"
| "worker_unpack _ = None"

section \<open>The meta actor\<close>

definition command_started :: console_prog where
  "command_started =
     CtxId (\<lambda>a. push_log (''[CommandActor] started ('' @ display_actor_id a @ '')'') (Return ConsoleUnit))"

definition command_stopped :: console_prog where
  "command_stopped =
     CtxId (\<lambda>a. push_log (''[CommandActor] stopped ('' @ display_actor_id a @ '')'') (Return ConsoleUnit))"

definition meta_started :: console_prog where
  "meta_started =
     push_log ''[MetaActor] started''
       (SpawnChild command_type (CommandActor None) command_started (\<lambda>cmd_addr.
          CloneAddr cmd_addr (\<lambda>c. SetSelf (MetaActor (Some c))
            (Shared (\<lambda>e. e\<lparr>cmd_addr_holder := Some cmd_addr\<rparr>) (\<lambda>_.
              put_out (''=== Actinium-Actor Console ==='' @ newline
                @ ''[MetaActor] spawned CommandActor'' @ newline
                @ ''Type '' @ quoted ''help'' @ '' for available commands.'' @ newline @ newline)
                (Return ConsoleUnit))))))"

definition meta_stopped :: console_prog where
  "meta_stopped = push_log ''[MetaActor] stopped'' (Return ConsoleUnit)"

definition notify_cmd :: "addr option \<Rightarrow> cmd_response \<Rightarrow> console_prog \<Rightarrow> console_prog" where
  "notify_cmd cmd_addr response k =
     (case cmd_addr of None \<Rightarrow> k | Some a \<Rightarrow> Notify a (CmdResp response) k)"

text \<open>\<^verbatim>\<open>HashMap::insert\<close> gives back the value it replaces, which is dropped.\<close>

fun meta_handle :: "bool \<Rightarrow> console_val \<Rightarrow> console_val \<Rightarrow> console_prog" where
  "meta_handle oc (MetaActor cmd_addr) (MetaCmd (CreateWorker name)) =
     Shared (\<lambda>e. e\<lparr>infos := infos e @
         [\<lparr>info_name = name, msg_count = 0, last_msg = [], current_state = ''Idle''\<rparr>]\<rparr>) (\<lambda>e0.
       let info = length (infos e0) in
       case sm_new (worker_handler oc) (WorkerActor info) of
         Inl (Panicking p) \<Rightarrow> Panic p
       | Inl (Blocking _) \<Rightarrow> Panic POther
       | Inr sm \<Rightarrow>
           SpawnChild worker_type (worker_pack sm) (sm_start_prog worker_pack (worker_handler oc) sm) (\<lambda>adr.
             Shared (\<lambda>e. e\<lparr>registry := hm_insert (addr_id adr)
                 \<lparr>mw_addr = adr, mw_info = info, mw_name = name\<rparr> (registry e)\<rparr>) (\<lambda>e.
               drop_opt (map_option mw_addr (hm_get (registry e) (addr_id adr)))
                 (notify_cmd cmd_addr (Spawned (addr_id adr) name) (Return ConsoleUnit)))))"
| "meta_handle oc (MetaActor cmd_addr) (MetaCmd (DestroyWorker i)) =
     Shared (\<lambda>e. e\<lparr>registry := hm_remove i (registry e)\<rparr>) (\<lambda>e.
       case hm_get (registry e) i of
         Some w \<Rightarrow>
           (let info = infos e ! mw_info w
            in notify_cmd cmd_addr (Stopped_resp i (mw_name w) (msg_count info) (current_state info))
                 (DropAddr (mw_addr w) (Return ConsoleUnit)))
       | None \<Rightarrow>
           notify_cmd cmd_addr (Error_resp (''Worker '' @ display_actor_id i @ '' not found''))
             (Return ConsoleUnit))"
| "meta_handle oc _ _ = Panic POther"

section \<open>The command actor\<close>

fun response_text :: "cmd_response \<Rightarrow> string" where
  "response_text (Spawned i name) = ''Spawned '' @ quoted name @ '' with ID '' @ display_actor_id i"
| "response_text (Stopped_resp i name n st) =
     ''Stopped '' @ quoted name @ '' ('' @ display_actor_id i @ '') '' @ em_dash @ '' '' @ decimal (unat n)
       @ '' msg(s), last state: '' @ st"
| "response_text (Error_resp s) = ''Error: '' @ s"

definition spawn_command :: "addr option \<Rightarrow> string list \<Rightarrow> console_prog \<Rightarrow> console_prog" where
  "spawn_command meta parts k =
     (if length parts \<ge> 2 \<and> parts ! 1 \<noteq> []
      then (case meta of
              Some m \<Rightarrow> Notify m (MetaCmd (CreateWorker (parts ! 1))) k
            | None \<Rightarrow> k)
      else respond ''Usage: spawn <name>'' k)"

definition stop_command :: "addr option \<Rightarrow> string list \<Rightarrow> console_prog \<Rightarrow> console_prog" where
  "stop_command meta parts k =
     (if length parts \<ge> 2
      then (case parse_u64 (parts ! 1) of
              Some raw_id \<Rightarrow>
                (case meta of
                   Some m \<Rightarrow> Notify m (MetaCmd (DestroyWorker (from_raw raw_id))) k
                 | None \<Rightarrow> k)
            | None \<Rightarrow> respond ''Invalid ID'' k)
      else respond ''Usage: stop <id>'' k)"

definition send_command :: "string list \<Rightarrow> console_prog \<Rightarrow> console_prog" where
  "send_command parts k =
     (if length parts \<ge> 3
      then (case parse_u64 (parts ! 1) of
              Some raw_id \<Rightarrow>
                (let i = from_raw raw_id in
                 with_env (\<lambda>e. case hm_get (registry e) i of
                     Some w \<Rightarrow>
                       DoSend (mw_addr w) (WorkerMessage (parts ! 2)) (\<lambda>_.
                         respond (''Message sent directly to '' @ quoted (mw_name w) @ '' ('' @ display_actor_id i @ '')'') k)
                   | None \<Rightarrow> respond (''Worker '' @ display_actor_id i @ '' not found'') k))
            | None \<Rightarrow> respond ''Invalid ID'' k)
      else respond ''Usage: send <id> <msg>'' k)"

text \<open>The entries of the registry in the order in which the map iterates.\<close>

definition entries ::
  "(actor_id list \<Rightarrow> actor_id list) \<Rightarrow> console_env \<Rightarrow> (actor_id \<times> managed_worker) list" where
  "entries order e = List.map_filter (\<lambda>i. map_option (Pair i) (hm_get (registry e) i)) (order (hm_keys (registry e)))"

definition status_line :: "console_env \<Rightarrow> actor_id \<Rightarrow> managed_worker \<Rightarrow> string" where
  "status_line e i w =
     (let info = infos e ! mw_info w
      in ''  '' @ display_actor_id i @ '' '' @ quoted (mw_name w) @ '' '' @ em_dash @ '' ''
           @ decimal (unat (msg_count info)) @ '' msg(s), state: '' @ current_state info @ '', last: ''
           @ quot @ last_msg info @ quot)"

definition status_command :: "(actor_id list \<Rightarrow> actor_id list) \<Rightarrow> console_prog \<Rightarrow> console_prog" where
  "status_command order k =
     with_env (\<lambda>e.
       if registry e = [] then respond ''No actors running.'' k
       else respond (decimal (length (registry e)) @ '' actor(s) running:'' @ newline
              @ join newline (map (\<lambda>(i, w). status_line e i w) (entries order e))) k)"

definition list_command :: "(actor_id list \<Rightarrow> actor_id list) \<Rightarrow> console_prog \<Rightarrow> console_prog" where
  "list_command order k =
     with_env (\<lambda>e.
       if registry e = [] then respond ''No actors.'' k
       else respond (''Actors: '' @ join '', ''
              (map (\<lambda>(i, w). mw_name w @ '' ('' @ display_actor_id i @ '')'') (entries order e))) k)"

definition help_text :: string where
  "help_text = ''spawn <name> | stop <id> | send <id> <msg> | status | list | help | quit''"

definition exec_command ::
  "(actor_id list \<Rightarrow> actor_id list) \<Rightarrow> addr option \<Rightarrow> string \<Rightarrow> console_prog \<Rightarrow> console_prog" where
  "exec_command order meta input k =
     (let parts = splitn 3 (CHR '' '') input;
          command = to_lowercase (parts ! 0)
      in if command = ''help'' then respond help_text k
         else if command = ''spawn'' then spawn_command meta parts k
         else if command = ''stop'' then stop_command meta parts k
         else if command = ''send'' then send_command parts k
         else if command = ''status'' then status_command order k
         else if command = ''list'' then list_command order k
         else respond (''Unknown: '' @ quoted command @ ''. Type '' @ quoted ''help'' @ ''.'') k)"

fun command_handle ::
  "(actor_id list \<Rightarrow> actor_id list) \<Rightarrow> console_val \<Rightarrow> console_val \<Rightarrow> console_prog" where
  "command_handle order (CommandActor meta) (CmdResp response) =
     respond (response_text response) (Return ConsoleUnit)"
| "command_handle order (CommandActor meta) (ConsoleCmd (Exec input)) =
     exec_command order meta input (Return (ConsoleRes (Ok ''ok'')))"
| "command_handle order (CommandActor meta) (ConsoleCmd Poll) =
     Shared (\<lambda>e. e\<lparr>last_response := None\<rparr>) (\<lambda>e.
       Return (ConsoleRes (Ok (case last_response e of Some text \<Rightarrow> text | None \<Rightarrow> []))))"
| "command_handle order (CommandActor meta) (ConsoleCmd (SetMeta meta_addr)) =
     SetSelf (CommandActor (Some meta_addr)) (drop_opt meta (Return (ConsoleRes (Ok ''meta set''))))"
| "command_handle order (CommandActor meta) (ConsoleCmd Quit) = Return (ConsoleRes Quit_result)"
| "command_handle order _ _ = Panic POther"

definition console_classes ::
  "bool \<Rightarrow> (actor_id list \<Rightarrow> actor_id list) \<Rightarrow> (console_val, console_env) classes" where
  "console_classes oc order a =
     (if a = meta_type then \<lparr>cls_handle = meta_handle oc, cls_stopped = (\<lambda>_. meta_stopped)\<rparr>
      else if a = command_type then \<lparr>cls_handle = command_handle order, cls_stopped = (\<lambda>_. command_stopped)\<rparr>
      else sm_class worker_pack worker_unpack (worker_handler oc))"

section \<open>What a command does\<close>

lemma exec_access [simp]:
  "exec (with_env k) self ctx w = exec (k (env w)) self ctx w"
  "exec (push_log s p) self ctx w = exec p self ctx (w\<lparr>env := (env w)\<lparr>event_log := event_log (env w) @ [s]\<rparr>\<rparr>)"
  "exec (respond s p) self ctx w = exec p self ctx (w\<lparr>env := (env w)\<lparr>last_response := Some s\<rparr>\<rparr>)"
  by (simp_all add: with_env_def push_log_def respond_def)

text \<open>A run of a command either leaves a response or is one message to the meta actor.\<close>

definition answered :: "addr option \<Rightarrow> (console_val, console_env) world \<Rightarrow> (console_val, console_env) world \<Rightarrow> bool" where
  "answered m w w' \<longleftrightarrow>
     (\<exists>s. last_response (env w') = Some s)
   \<or> (\<exists>c. w' = (case m of None \<Rightarrow> w | Some a \<Rightarrow> context_notify a (MetaCmd c) w))"

lemma exec_send_command:
  "\<exists>w'. exec (send_command parts (Return r)) self ctx w = (Inr r, self, ctx, w')
    \<and> (\<exists>s. last_response (env w') = Some s) \<and> actor_maps (shared w') = actor_maps (shared w)"
proof (cases "length parts \<ge> 3 \<and> (\<exists>i mw. parse_u64 (parts ! 1) = Some i \<and> hm_get (registry (env w)) (from_raw i) = Some mw)")
  case True
  then obtain i mw where "length parts \<ge> 3" "parse_u64 (parts ! 1) = Some i"
    "hm_get (registry (env w)) (from_raw i) = Some mw" by blast
  then show ?thesis by (simp add: send_command_def Let_def addr_do_send_def case_prod_beta)
next
  case False
  then show ?thesis by (auto simp: send_command_def Let_def split: option.split)
qed

lemma exec_command_runs:
  "\<exists>w'. exec (exec_command order m input (Return r)) self ctx w = (Inr r, self, ctx, w')
    \<and> answered m w w' \<and> actor_maps (shared w') = actor_maps (shared w)"
proof -
  have meta: "\<exists>w'. exec (case m of Some a \<Rightarrow> Notify a (MetaCmd c) (Return r) | None \<Rightarrow> Return r) self ctx w = (Inr r, self, ctx, w')
      \<and> answered m w w' \<and> actor_maps (shared w') = actor_maps (shared w)" for c
    by (cases m) (auto simp: answered_def context_notify_def addr_do_send_def)
  have resp: "\<exists>w'. exec (respond t (Return r)) self ctx w = (Inr r, self, ctx, w')
      \<and> answered m w w' \<and> actor_maps (shared w') = actor_maps (shared w)" for t
    by (simp add: answered_def)
  have sp: "\<exists>w'. exec (spawn_command m parts (Return r)) self ctx w = (Inr r, self, ctx, w')
      \<and> answered m w w' \<and> actor_maps (shared w') = actor_maps (shared w)" for parts
    using meta resp by (simp add: spawn_command_def)
  have st: "\<exists>w'. exec (stop_command m parts (Return r)) self ctx w = (Inr r, self, ctx, w')
      \<and> answered m w w' \<and> actor_maps (shared w') = actor_maps (shared w)" for parts
    using meta resp by (auto simp: stop_command_def split: option.split)
  have se: "\<exists>w'. exec (send_command parts (Return r)) self ctx w = (Inr r, self, ctx, w')
      \<and> answered m w w' \<and> actor_maps (shared w') = actor_maps (shared w)" for parts
    using exec_send_command[of parts r self ctx w] by (auto simp: answered_def)
  show ?thesis
    using sp st se resp by (simp add: exec_command_def Let_def status_command_def list_command_def del: exec_access(3))
qed

section \<open>Properties\<close>


text \<open>The commands as the user types them, split into their parts.\<close>

lemma decimal_no_space: "\<forall>c \<in> set (decimal n). c \<noteq> CHR '' ''"
  using decimal_digits[of n] by (auto simp: list_all_iff is_digit_def)

lemma split_send: "splitn 3 (CHR '' '') (''send '' @ decimal n @ '' '' @ text) = [''send'', decimal n, text]"
proof -
  have "dropWhile (\<lambda>x. x \<noteq> CHR '' '') (decimal n @ CHR '' '' # text) = CHR '' '' # text"
    "takeWhile (\<lambda>x. x \<noteq> CHR '' '') (decimal n @ CHR '' '' # text) = decimal n"
    using decimal_no_space[of n] by (simp_all add: dropWhile_append2 takeWhile_append2)
  then show ?thesis by (simp add: numeral_3_eq_3)
qed

lemma lower_send: "to_lowercase ''send'' = ''send''"
  by code_simp

text \<open>
  C31: a line \<^verbatim>\<open>send <id> <text>\<close> with the number of a registered worker queues exactly that text
  for it, spaces included, directly to its address, and says so: printing an id, splitting the
  line and parsing the number cancel out for each of the \<open>2 ^ 64\<close> ids.
\<close>

theorem console_send_delivers:
  assumes "hm_get (registry (env w)) (ActorId r) = Some mw" and "chan_open (chan_at w (addr_tx (mw_addr mw)))"
  shows "\<exists>w'. exec (command_handle order (CommandActor m)
        (ConsoleCmd (Exec (''send '' @ decimal (unat r) @ '' '' @ text)))) self ctx w
      = (Inr (ConsoleRes (Ok ''ok'')), self, ctx, w')
    \<and> chan_queue (chan_at w' (addr_tx (mw_addr mw))) = chan_queue (chan_at w (addr_tx (mw_addr mw)))
        @ [\<lparr>env_actor_id = addr_actor_id (mw_addr mw), env_dispatch = DoSendFn (addr_type (mw_addr mw)) (WorkerMessage text)\<rparr>]
    \<and> last_response (env w') = Some (''Message sent directly to '' @ quoted (mw_name mw)
        @ '' ('' @ display_actor_id (ActorId r) @ '')'')"
proof -
  have c: "exec_command order m (''send '' @ decimal (unat r) @ '' '' @ text) k = send_command [''send'', decimal (unat r), text] k" for k
    by (simp only: exec_command_def split_send Let_def nth_Cons_0 lower_send) simp
  have s: "send_command [''send'', decimal (unat r), text] k =
      with_env (\<lambda>e. case hm_get (registry e) (ActorId r) of
         Some w \<Rightarrow> DoSend (mw_addr w) (WorkerMessage text) (\<lambda>_.
           respond (''Message sent directly to '' @ quoted (mw_name w) @ '' ('' @ display_actor_id (ActorId r) @ '')'') k)
       | None \<Rightarrow> respond (''Worker '' @ display_actor_id (ActorId r) @ '' not found'') k)" for k
    by (simp add: send_command_def parse_decimal from_raw_def Let_def cong: option.case_cong)
  have h: "exec (command_handle order (CommandActor m) (ConsoleCmd (Exec (''send '' @ decimal (unat r) @ '' '' @ text)))) self ctx w
    = (Inr (ConsoleRes (Ok ''ok'')), self, ctx, (snd (addr_do_send (mw_addr mw) (WorkerMessage text) w))
        \<lparr>env := (env w)\<lparr>last_response := Some (''Message sent directly to '' @ quoted (mw_name mw)
           @ '' ('' @ display_actor_id (ActorId r) @ '')'')\<rparr>\<rparr>)"
    by (simp only: command_handle.simps c s) (simp add: assms(1) case_prod_beta addr_do_send_def)
  show ?thesis unfolding h using assms(2) by (simp add: addr_do_send_def)
qed

text \<open>A world with one registered worker.\<close>

definition one_worker :: "(console_val, console_env) world" where
  "one_worker =
     \<lparr>chans = [chan_new], replies = [], confirms = [],
      shared = \<lparr>control_txs = [chan_new], msg_txs = [0],
        actor_maps = [hm_insert (ActorId 3) \<lparr>actor = \<lparr>any_type = worker_type, any_val = WorkerSM (WorkerActor 0) 0 [Idle, Receiving, Processing]\<rparr>,
            on_stop = OnStopFn worker_type\<rparr> hm_new],
        next_id = 4, next_worker = 1, num_workers = 1, running = True\<rparr>,
      env = \<lparr>event_log = [], registry = hm_insert (ActorId 3) \<lparr>mw_addr = addr_new (ActorId 3) 0 worker_type, mw_info = 0, mw_name = ''bob''\<rparr> hm_new,
        infos = [\<lparr>info_name = ''bob'', msg_count = 0, last_msg = [], current_state = ''Idle''\<rparr>],
        cmd_addr_holder = None, last_response = None, stdout = []\<rparr>,
      log = [EvStarted (ActorId 3) worker_type]\<rparr>"

theorem console_send_delivers_witness:
  "\<exists>w'. exec (command_handle id (CommandActor None) (ConsoleCmd (Exec (''send '' @ decimal (unat (3 :: u64)) @ '' '' @ ''hi there''))))
        (CommandActor None) (context_with_spawner (ActorId 2) 0) one_worker
      = (Inr (ConsoleRes (Ok ''ok'')), CommandActor None, context_with_spawner (ActorId 2) 0, w')
    \<and> map env_dispatch (chan_queue (chan_at w' 0)) = [DoSendFn worker_type (WorkerMessage ''hi there'')]"
proof -
  have g: "hm_get (registry (env one_worker)) (ActorId 3)
      = Some \<lparr>mw_addr = addr_new (ActorId 3) 0 worker_type, mw_info = 0, mw_name = ''bob''\<rparr>"
    by (simp add: one_worker_def)
  have o: "chan_open (chan_at one_worker 0)" "chan_queue (chan_at one_worker 0) = []"
    by (simp_all add: one_worker_def chan_at_def chan_new_def)
  from console_send_delivers[OF g, of id None "''hi there''" "CommandActor None" "context_with_spawner (ActorId 2) 0"] o
  show ?thesis by auto
qed

text \<open>
  C32: \<^verbatim>\<open>stop <id>\<close> does not stop the worker. When the meta actor handles the destruction of a
  registered worker it removes the registry's entry and reports the worker as stopped, but the
  only message it sends is that report: the actor map is unchanged and no callback of the worker
  runs, so the worker lives until the runtime is shut down.
\<close>

theorem console_stop_keeps_worker:
  assumes "hm_get (registry (env w)) i = Some mw"
  shows "\<exists>w'. exec (meta_handle oc (MetaActor (Some cmd)) (MetaCmd (DestroyWorker i))) self ctx w
      = (Inr ConsoleUnit, self, ctx, w')
    \<and> registry (env w') = hm_remove i (registry (env w))
    \<and> actor_maps (shared w') = actor_maps (shared w) \<and> log w' = log w
    \<and> (\<forall>c. chan_queue (chan_at w' c) = chan_queue (chan_at w c) @
         (if c = addr_tx cmd \<and> chan_open (chan_at w c)
          then [\<lparr>env_actor_id = addr_actor_id cmd, env_dispatch = DoSendFn (addr_type cmd)
                  (CmdResp (Stopped_resp i (mw_name mw) (msg_count (infos (env w) ! mw_info mw))
                     (current_state (infos (env w) ! mw_info mw))))\<rparr>]
          else []))"
  using assms by (simp add: Let_def notify_cmd_def context_notify_def addr_do_send_def)

theorem console_stop_keeps_worker_witness:
  "\<exists>w'. exec (meta_handle True (MetaActor (Some (addr_new (ActorId 2) 0 command_type))) (MetaCmd (DestroyWorker (ActorId 3))))
        (MetaActor None) (context_with_spawner (ActorId 1) 0) one_worker
      = (Inr ConsoleUnit, MetaActor None, context_with_spawner (ActorId 1) 0, w')
    \<and> registry (env w') = hm_new \<and> hm_get (actor_maps (shared w') ! 0) (ActorId 3) \<noteq> None"
proof -
  have g: "hm_get (registry (env one_worker)) (ActorId 3)
      = Some \<lparr>mw_addr = addr_new (ActorId 3) 0 worker_type, mw_info = 0, mw_name = ''bob''\<rparr>"
    by (simp add: one_worker_def)
  have "hm_remove (ActorId 3) (registry (env one_worker)) = hm_new"
    and "hm_get (actor_maps (shared one_worker) ! 0) (ActorId 3) \<noteq> None"
    by (simp_all add: one_worker_def hm_remove_def hm_insert_def hm_new_def hm_get_def)
  with console_stop_keeps_worker[OF g, of True "addr_new (ActorId 2) 0 command_type" "MetaActor None" "context_with_spawner (ActorId 1) 0"]
  show ?thesis by auto
qed

end
