(* ===== verification/Ex_Console_Main.thy ===== *)
theory Ex_Console_Main
  imports Ex_Console
begin

text \<open>
  The main function of \<^verbatim>\<open>examples/console.rs\<close> and its stdin thread, on given lines of input. A
  wait gives the worker that is waited for up to twenty steps; what the workers do while a
  thread sleeps is the parameter \<open>nap\<close>, a list of workers that take a step each.
\<close>

type_synonym console_runtime = "(console_val, console_env) runtime"

text \<open>The iteration order of the maps, the overflow checks and the naps, fixed for a run.\<close>

record console_params =
  map_order :: "actor_id list \<Rightarrow> actor_id list"
  overflow_checks :: bool
  nap :: "nat list"

definition classes_of :: "console_params \<Rightarrow> (console_val, console_env) classes" where
  "classes_of ps = console_classes (overflow_checks ps) (map_order ps)"

definition console_print :: "string \<Rightarrow> console_runtime \<Rightarrow> console_runtime" where
  "console_print s rt =
     rt\<lparr>rt_world := (rt_world rt)\<lparr>env := (env (rt_world rt))\<lparr>stdout := stdout (env (rt_world rt)) @ s\<rparr>\<rparr>\<rparr>"

definition print_prompt :: "console_runtime \<Rightarrow> console_runtime" where
  "print_prompt rt = console_print (newline @ ''> '') rt"

definition console_sleep :: "console_params \<Rightarrow> console_runtime \<Rightarrow> console_runtime" where
  "console_sleep ps rt = fold (run_worker (map_order ps) (classes_of ps)) (nap ps) rt"

definition console_call ::
  "console_params \<Rightarrow> addr \<Rightarrow> console_command \<Rightarrow> console_runtime \<Rightarrow>
   ((send_error + console_val) \<times> console_runtime) option" where
  "console_call ps adr m rt = rt_call (map_order ps) (classes_of ps) 20 adr (ConsoleCmd m) rt"

text \<open>The loop that polls for the response, with so many attempts to go.\<close>

primrec console_poll :: "console_params \<Rightarrow> nat \<Rightarrow> addr \<Rightarrow> console_runtime \<Rightarrow> console_runtime option" where
  "console_poll ps 0 adr rt = Some (console_print (''  (timeout)'' @ newline) rt)"
| "console_poll ps (Suc n) adr rt =
     (case console_call ps adr Poll (console_sleep ps rt) of
        None \<Rightarrow> None
      | Some (r, rt1) \<Rightarrow>
          (case r of
             Inr (ConsoleRes (Ok text)) \<Rightarrow>
               (if text \<noteq> [] then Some (console_print (''  '' @ text @ newline) rt1)
                else console_poll ps n adr rt1)
           | _ \<Rightarrow> console_poll ps n adr rt1))"

text \<open>The loop over the lines; \<open>None\<close> is a line that cannot be read.\<close>

primrec console_lines ::
  "console_params \<Rightarrow> string option list \<Rightarrow> addr \<Rightarrow> console_runtime \<Rightarrow> console_runtime option" where
  "console_lines ps [] adr rt = Some rt"
| "console_lines ps (line # rest) adr rt =
     (case line of
        None \<Rightarrow> Some rt
      | Some l \<Rightarrow>
          (let trimmed = trim l in
           if trimmed = [] then console_lines ps rest adr (print_prompt rt)
           else if trimmed = ''quit'' \<or> trimmed = ''exit''
           then Some (console_print (''  Shutting down...'' @ newline)
                  (rt\<lparr>rt_world := snd (addr_do_send adr (ConsoleCmd Quit) (rt_world rt))\<rparr>))
           else (case console_call ps adr (Exec trimmed) rt of
                   None \<Rightarrow> None
                 | Some (_, rt1) \<Rightarrow>
                     (case console_poll ps 41 adr rt1 of
                        None \<Rightarrow> None
                      | Some rt2 \<Rightarrow> console_lines ps rest adr (print_prompt rt2)))))"

definition console_env0 :: console_env where
  "console_env0 =
     \<lparr>event_log = [], registry = hm_new, infos = [], cmd_addr_holder = None, last_response = None, stdout = []\<rparr>"

text \<open>Up to the start of the stdin thread: the meta actor's address, the command actor's, the runtime.\<close>

definition console_boot :: "console_params \<Rightarrow> (addr \<times> addr \<times> console_runtime) option" where
  "console_boot ps =
     (case rt_with_threads 2 console_env0 of
        Inl f \<Rightarrow> None
      | Inr rt \<Rightarrow>
          (case rt_spawn_sync (map_order ps) (classes_of ps) 20 meta_started meta_type (MetaActor None) rt of
             Some (Inr meta_addr, rt1) \<Rightarrow>
               (case cmd_addr_holder (env (rt_world rt1)) of
                  None \<Rightarrow> None
                | Some cmd_addr \<Rightarrow>
                    (let w = (rt_world rt1)\<lparr>env := (env (rt_world rt1))\<lparr>cmd_addr_holder := None\<rparr>\<rparr>;
                         rt2 = rt1\<lparr>rt_world := snd (addr_clone meta_addr w)\<rparr>
                     in case console_call ps cmd_addr (SetMeta meta_addr) rt2 of
                          None \<Rightarrow> None
                        | Some (_, rt3) \<Rightarrow>
                            Some (meta_addr, cmd_addr, rt3\<lparr>rt_world := snd (addr_clone cmd_addr (rt_world rt3))\<rparr>)))
           | _ \<Rightarrow> None))"

definition print_event_log :: "console_runtime \<Rightarrow> console_runtime" where
  "print_event_log rt =
     console_print (''Goodbye.'' @ newline)
       (console_print (concat (map (\<lambda>entry. ''  '' @ entry @ newline) (event_log (env (rt_world rt)))))
         (console_print (newline @ ''--- Event Log ---'' @ newline) rt))"

definition console_main :: "console_params \<Rightarrow> string option list \<Rightarrow> console_runtime option" where
  "console_main ps lines =
     (case console_boot ps of
        None \<Rightarrow> None
      | Some (meta_addr, cmd_addr, rt) \<Rightarrow>
          (case console_lines ps lines cmd_addr (print_prompt rt) of
             None \<Rightarrow> None
           | Some rt1 \<Rightarrow>
               map_option print_event_log
                 (rt_drop_sync (map_order ps) (classes_of ps) 20
                    (rt1\<lparr>rt_world := addr_drop meta_addr (addr_drop cmd_addr (addr_drop cmd_addr (rt_world rt1)))\<rparr>))))"

end
