(* ===== verification/Unit_Tests.thy ===== *)
theory Unit_Tests
  imports Scheduler Stateful Example_Text
begin

text \<open>
  The unit tests of \<^verbatim>\<open>src/actor.rs\<close>, \<^verbatim>\<open>src/scheduler.rs\<close> and \<^verbatim>\<open>src/stateful.rs\<close>, each as a
  definition that says whether its assertions hold. The lemmas show that they do in the model; where
  a test tries one instance of a law, the law is proved and the test follows from it.
\<close>

section \<open>Tests of the scheduler\<close>

text \<open>The closure of a test envelope does nothing.\<close>

definition make_envelope :: "u64 \<Rightarrow> unit envelope" where
  "make_envelope i = \<lparr>env_actor_id = ActorId i, env_dispatch = ()\<rparr>"

definition enqueue_and_dequeue :: bool where
  "enqueue_and_dequeue =
     (let s = enqueue (make_envelope 1) (enqueue (make_envelope 1) sched_new);
          (r1, s) = next_ready s;
          (e1, s) = dequeue (ActorId 1) s;
          s = requeue_if_ready (ActorId 1) s;
          (r2, s) = next_ready s;
          (e2, s) = dequeue (ActorId 1) s;
          s = requeue_if_ready (ActorId 1) s;
          (r3, s) = next_ready s
      in r1 = Some (ActorId 1) \<and> e1 \<noteq> None \<and> r2 = Some (ActorId 1) \<and> e2 \<noteq> None \<and> r3 = None)"

text \<open>One turn of the tests below: the actor whose turn it is, its message dropped.\<close>

definition round_robin_between_actors :: bool where
  "round_robin_between_actors =
     (let s = fold enqueue (map make_envelope [1, 1, 1, 2]) sched_new;
          (r1, s) = next_ready s;
          s = requeue_if_ready (ActorId 1) (snd (dequeue (ActorId 1) s));
          (r2, s) = next_ready s;
          s = requeue_if_ready (ActorId 2) (snd (dequeue (ActorId 2) s));
          (r3, s) = next_ready s;
          s = requeue_if_ready (ActorId 1) (snd (dequeue (ActorId 1) s));
          (r4, s) = next_ready s;
          s = requeue_if_ready (ActorId 1) (snd (dequeue (ActorId 1) s));
          (r5, s) = next_ready s
      in r1 = Some (ActorId 1) \<and> r2 = Some (ActorId 2) \<and> r3 = Some (ActorId 1)
         \<and> r4 = Some (ActorId 1) \<and> r5 = None)"

text \<open>The loop \<^verbatim>\<open>while let Some(id) = s.next_ready()\<close>, which collects the ids.\<close>

partial_function (option) drain_order :: "'d scheduler \<Rightarrow> u64 list \<Rightarrow> (u64 list \<times> 'd scheduler) option" where
  "drain_order s order =
     (case next_ready s of
        (None, s1) \<Rightarrow> Some (order, s1)
      | (Some i, s1) \<Rightarrow> drain_order (requeue_if_ready i (snd (dequeue i s1))) (order @ [raw i]))"

declare drain_order.simps [code]

primrec enqueue_rounds :: "nat \<Rightarrow> u64 list \<Rightarrow> unit scheduler \<Rightarrow> unit scheduler" where
  "enqueue_rounds 0 ids s = s"
| "enqueue_rounds (Suc k) ids s = enqueue_rounds k ids (fold enqueue (map make_envelope ids) s)"

definition round_robin_fairness_order :: bool where
  "round_robin_fairness_order =
     (map_option fst (drain_order (enqueue_rounds 2 [1, 2, 3] sched_new) []) = Some [1, 2, 3, 1, 2, 3])"

definition remove_actor_cleans_up :: bool where
  "remove_actor_cleans_up =
     (let s = enqueue (make_envelope 2) (enqueue (make_envelope 1) sched_new);
          s = sched_remove_actor (ActorId 1) s;
          (r1, s) = next_ready s;
          s = requeue_if_ready (ActorId 2) (snd (dequeue (ActorId 2) s));
          (r2, s) = next_ready s
      in r1 = Some (ActorId 2) \<and> r2 = None)"

text \<open>\<^verbatim>\<open>unwrap\<close> of \<^verbatim>\<open>None\<close> would fail the test.\<close>

definition duplicate_enqueue_only_adds_once :: bool where
  "duplicate_enqueue_only_adds_once =
     (let s = enqueue (make_envelope 1) (enqueue (make_envelope 1) sched_new) in
      case next_ready s of
        (None, _) \<Rightarrow> False
      | (Some i, s) \<Rightarrow>
          i = ActorId 1 \<and> fst (next_ready (requeue_if_ready i (snd (dequeue i s)))) = Some (ActorId 1))"

lemma scheduler_tests_pass:
  "enqueue_and_dequeue" "round_robin_between_actors" "remove_actor_cleans_up" "duplicate_enqueue_only_adds_once"
  by code_simp+

section \<open>The order in which the scheduler serves\<close>

text \<open>
  What \<open>round_robin_fairness_order\<close> tries once: in round \<open>r\<close> (from 0) every actor of the queue that
  had more than \<open>r\<close> messages is served once, in the order of the queue.
\<close>

definition round_robin :: "nat \<Rightarrow> actor_id list \<Rightarrow> (actor_id \<Rightarrow> nat) \<Rightarrow> actor_id list" where
  "round_robin rounds q c = concat (map (\<lambda>r. filter (\<lambda>i. r < c i) q) [0..<rounds])"

lemma round_robin_first:
  assumes "\<forall>i \<in> set q. 0 < c i \<and> c i \<le> n"
  shows "round_robin n q c = q @ round_robin n q (\<lambda>i. c i - 1)"
proof (cases n)
  case 0
  with assms show ?thesis by (cases q) (auto simp: round_robin_def)
next
  case (Suc m)
  have up: "[0..<Suc m] = 0 # map Suc [0..<m]" by (simp add: map_Suc_upt upt_conv_Cons)
  have "filter (\<lambda>i. 0 < c i) q = q" using assms by (simp add: filter_id_conv)
  moreover have "filter (\<lambda>i. Suc r < c i) q = filter (\<lambda>i. r < c i - 1) q" for r
    by (rule filter_cong) auto
  moreover have "filter (\<lambda>i. m < c i - 1) q = []" using assms Suc by (auto simp: filter_empty_conv)
  moreover have "round_robin (Suc m) q (\<lambda>i. c i - 1) =
      round_robin m q (\<lambda>i. c i - 1) @ filter (\<lambda>i. m < c i - 1) q"
    by (simp add: round_robin_def)
  moreover have "round_robin (Suc m) q c =
      filter (\<lambda>i. 0 < c i) q @ concat (map (\<lambda>r. filter (\<lambda>i. Suc r < c i) q) [0..<m])"
    unfolding round_robin_def up by (simp add: comp_def)
  ultimately show ?thesis using Suc by (simp add: round_robin_def)
qed

lemma round_robin_cong:
  "(\<And>i. i \<in> set q \<Longrightarrow> c i = c' i) \<Longrightarrow> round_robin n q c = round_robin n q c'"
  unfolding round_robin_def by (intro arg_cong[where f = concat] map_cong filter_cong) auto

lemma round_robin_absent: "c i = 0 \<Longrightarrow> round_robin n (ys @ i # xs) c = round_robin n (ys @ xs) c"
  by (simp add: round_robin_def)

lemma drain_order_Cons:
  assumes "sched_inv None s" and "ready_queue s = i # r"
  obtains s' where "drain_order s order = drain_order s' (order @ [raw i])" "sched_turn s = (fst (sched_turn s), s')"
    "mailbox s' = (mailbox s)(i := tl (mailbox s i))" "mailbox s i \<noteq> []" "sched_inv None s'"
    "ready_queue s' = r @ (if tl (mailbox s i) = [] then [] else [i])"
proof -
  obtain e q s' where t: "mailbox s i = e # q" "sched_turn s = (Some e, s')" "env_actor_id e = i"
    "mailbox s' = (mailbox s)(i := q)" "ready_queue s' = r @ (if q = [] then [] else [i])"
    using sched_turn_Cons[OF assms] by metis
  have "s' = requeue_if_ready i (snd (dequeue i (s\<lparr>ready_queue := r\<rparr>)))"
    using t(2) by (auto simp: sched_turn_def next_ready_Cons[OF assms] split: prod.splits option.splits)
  then have "drain_order s order = drain_order s' (order @ [raw i])"
    by (subst drain_order.simps) (simp add: next_ready_Cons[OF assms])
  moreover have "sched_inv None s'" using sched_inv_turn[OF assms(1)] t(2) by simp
  ultimately show ?thesis using t by (intro that[of s']) simp_all
qed

lemma drain_order_rounds:
  assumes "sched_inv None s" and "ready_queue s = xs @ ys" and "pending_count s = p"
    and "\<forall>i \<in> set (xs @ ys). length (mailbox s i) \<le> n"
  shows "\<exists>s'. drain_order s order = Some (order @ map raw (xs @ round_robin n (ys @ xs)
      (\<lambda>i. length (mailbox s i) - (if i \<in> set xs then 1 else 0))), s') \<and> ready_queue s' = []"
  using assms
proof (induction p arbitrary: s xs ys order rule: less_induct)
  case (less p)
  let ?c = "\<lambda>i. length (mailbox s i)"
  have main: "\<exists>s'. drain_order s order = Some (order @ map raw (us @ round_robin n (vs @ us)
      (\<lambda>i. ?c i - (if i \<in> set us then 1 else 0))), s') \<and> ready_queue s' = []"
    if q: "ready_queue s = us @ vs" and le: "\<forall>i \<in> set (us @ vs). ?c i \<le> n" and ne: "us \<noteq> []" for us vs
  proof -
    obtain x us' where us: "us = x # us'" using ne by (cases us) auto
    obtain s1 where s1: "drain_order s order = drain_order s1 (order @ [raw x])"
      "sched_turn s = (fst (sched_turn s), s1)"
      "mailbox s1 = (mailbox s)(x := tl (mailbox s x))" "mailbox s x \<noteq> []" "sched_inv None s1"
      "ready_queue s1 = (us' @ vs) @ (if tl (mailbox s x) = [] then [] else [x])"
      using drain_order_Cons[OF less.prems(1), of x "us' @ vs"] q us by auto
    have d: "distinct (ready_queue s)" "\<forall>i \<in> set (ready_queue s). mailbox s i \<noteq> []"
      using less.prems(1) by (auto simp: sched_inv_def)
    have nx: "x \<notin> set us'" "x \<notin> set vs" using d(1) q us by auto
    have pc: "pending_count s1 < p"
    proof -
      have "pending_count s1 = p - 1" using pending_count_turn(1)[OF less.prems(1)] s1(2) less.prems(3) by (metis snd_conv)
      moreover have "0 < p" using less.prems(3) q us s1(4) by (cases "mailbox s x") (auto simp: pending_count_def)
      ultimately show ?thesis by simp
    qed
    let ?vs = "vs @ (if tl (mailbox s x) = [] then [] else [x])"
    have "\<forall>i \<in> set (us' @ ?vs). length (mailbox s1 i) \<le> n" using le us s1(3) by auto
    from less.IH[OF pc s1(5) _ refl this, of "order @ [raw x]"] s1(6) obtain s2 where
      s2: "drain_order s1 (order @ [raw x]) = Some ((order @ [raw x]) @ map raw (us' @ round_robin n (?vs @ us')
        (\<lambda>i. length (mailbox s1 i) - (if i \<in> set us' then 1 else 0))), s2)" "ready_queue s2 = []" by auto
    let ?d = "\<lambda>i. ?c i - (if i \<in> set us then 1 else 0)"
    have "round_robin n (?vs @ us') (\<lambda>i. length (mailbox s1 i) - (if i \<in> set us' then 1 else 0))
        = round_robin n (?vs @ us') ?d"
      by (rule round_robin_cong) (use nx in \<open>auto simp: s1(3) us\<close>)
    moreover have "round_robin n (?vs @ us') ?d = round_robin n (vs @ us) ?d"
    proof (cases "tl (mailbox s x) = []")
      case True
      then have "?d x = 0" using s1(4) by (cases "mailbox s x") (simp_all add: us)
      from round_robin_absent[where c = ?d, OF this] True show ?thesis by (simp add: us)
    qed (simp add: us)
    ultimately show ?thesis using s1(1) s2 by (simp add: us)
  qed
  have pos: "\<forall>i \<in> set (ready_queue s). 0 < ?c i" using less.prems(1) by (auto simp: sched_inv_def)
  show ?case
  proof (cases "xs = []")
    case False
    with main less.prems(2,4) show ?thesis by blast
  next
    case True
    show ?thesis
    proof (cases "ys = []")
      case True
      with \<open>xs = []\<close> less.prems(2) show ?thesis
        by (subst drain_order.simps) (simp add: next_ready_Nil round_robin_def)
    next
      case False
      have "round_robin n ys ?c = ys @ round_robin n ys (\<lambda>i. ?c i - 1)"
        by (rule round_robin_first) (use less.prems(2,4) pos in auto)
      moreover have "round_robin n ys (\<lambda>i. ?c i - (if i \<in> set ys then 1 else 0)) = round_robin n ys (\<lambda>i. ?c i - 1)"
        by (rule round_robin_cong) simp
      ultimately show ?thesis
        using main[of ys "[]"] less.prems(2,4) False \<open>xs = []\<close> by simp
    qed
  qed
qed

lemma enqueue_all:
  assumes "distinct ids" and "ready_queue s = [] \<or> ready_queue s = map ActorId ids"
  shows "mailbox (fold enqueue (map make_envelope ids) s) (ActorId i) =
      mailbox s (ActorId i) @ (if i \<in> set ids then [make_envelope i] else [])"
    and "ready_queue (fold enqueue (map make_envelope ids) s) = map ActorId ids"
proof -
  have mb: "mailbox (fold enqueue (map make_envelope js) s) (ActorId i) =
      mailbox s (ActorId i) @ (if i \<in> set js then [make_envelope i] else [])" if "distinct js" for js i s
    using that by (induction js arbitrary: s) (auto simp: make_envelope_def)
  have fresh: "ready_queue (fold enqueue (map make_envelope js) s) = ready_queue s @ map ActorId js"
    if "distinct js" "set js \<inter> raw ` set (ready_queue s) = {}" for js s
    using that
  proof (induction js arbitrary: s)
    case (Cons j js)
    have "ActorId j \<notin> set (ready_queue s)" using Cons.prems(2) by force
    then have r: "ready_queue (enqueue (make_envelope j) s) = ready_queue s @ [ActorId j]"
      by (simp add: ready_queue_enqueue make_envelope_def)
    have "set js \<inter> raw ` set (ready_queue (enqueue (make_envelope j) s)) = {}"
      using Cons.prems by (auto simp: r)
    with Cons r show ?case by simp
  qed simp
  have old: "ready_queue (fold enqueue (map make_envelope js) s) = ready_queue s"
    if "ActorId ` set js \<subseteq> set (ready_queue s)" for js s
    using that
  proof (induction js arbitrary: s)
    case (Cons j js)
    have "ready_queue (enqueue (make_envelope j) s) = ready_queue s"
      using Cons.prems by (simp add: ready_queue_enqueue make_envelope_def)
    with Cons show ?case by simp
  qed simp
  show "mailbox (fold enqueue (map make_envelope ids) s) (ActorId i) =
      mailbox s (ActorId i) @ (if i \<in> set ids then [make_envelope i] else [])"
    by (rule mb[OF assms(1)])
  show "ready_queue (fold enqueue (map make_envelope ids) s) = map ActorId ids"
    using assms(2)
  proof
    assume "ready_queue s = []"
    with fresh[OF assms(1), of s] show ?thesis by simp
  next
    assume r: "ready_queue s = map ActorId ids"
    with old[of ids s] show ?thesis by simp
  qed
qed

lemma ready_queue_new: "ready_queue sched_new = []"
  by (simp add: sched_new_def)

lemma sched_inv_enqueues [inv_intros]: "sched_inv None s \<Longrightarrow> sched_inv None (fold enqueue es s)"
  by (induction es arbitrary: s) (auto intro: sched_inv_enqueue)

lemma enqueue_rounds_state:
  assumes "distinct ids" and "sched_inv None s" and "ready_queue s = (if j = 0 then [] else map ActorId ids)"
    and "\<And>i. i \<in> set ids \<Longrightarrow> length (mailbox s (ActorId i)) = j"
  shows "sched_inv None (enqueue_rounds k ids s)
    \<and> ready_queue (enqueue_rounds k ids s) = (if j + k = 0 then [] else map ActorId ids)
    \<and> (\<forall>i \<in> set ids. length (mailbox (enqueue_rounds k ids s) (ActorId i)) = j + k)"
  using assms
proof (induction k arbitrary: j s)
  case (Suc k)
  let ?s = "fold enqueue (map make_envelope ids) s"
  have rq: "ready_queue s = [] \<or> ready_queue s = map ActorId ids" using Suc.prems(3) by simp
  note e = enqueue_all[OF Suc.prems(1) rq]
  have "sched_inv None ?s" by (rule sched_inv_enqueues[OF Suc.prems(2)])
  moreover have "length (mailbox ?s (ActorId i)) = Suc j" if "i \<in> set ids" for i
    using that e(1) Suc.prems(4) by simp
  ultimately show ?case using Suc.IH[of ?s "Suc j"] Suc.prems(1) e(2) by simp
qed simp

lemma round_robin_equal: "(\<And>i. i \<in> set q \<Longrightarrow> c i = k) \<Longrightarrow> round_robin k q c = concat (replicate k q)"
proof -
  assume a: "\<And>i. i \<in> set q \<Longrightarrow> c i = k"
  have "map (\<lambda>r. filter (\<lambda>i. r < c i) q) [0..<k] = map (\<lambda>_. q) [0..<k]"
    by (rule map_cong) (auto simp: a filter_id_conv)
  then show ?thesis by (simp add: round_robin_def map_replicate_const)
qed

section \<open>Property of the scheduler\<close>

text \<open>
  C20: the loop that takes turns until none is ready returns from every state of the scheduler, and
  the order in which it serves is round robin: in round \<open>r\<close> it serves, in the order of the ready
  queue, exactly the actors that had more than \<open>r\<close> messages.
\<close>

theorem sched_drain_order:
  assumes "sched_inv None s" and "\<forall>i \<in> set (ready_queue s). length (mailbox s i) \<le> n"
  shows "\<exists>s'. drain_order s [] =
      Some (map raw (round_robin n (ready_queue s) (\<lambda>i. length (mailbox s i))), s')
    \<and> next_ready s' = (None, s')"
  using drain_order_rounds[OF assms(1) _ refl, of "[]" "ready_queue s" n "[]"] assms(2)
  by (auto simp: next_ready_Nil)

theorem sched_drain_order_witness:
  "map_option fst (drain_order (fold enqueue (map make_envelope [1, 1, 1, 2]) sched_new) []) = Some [1, 2, 1, 1]"
proof -
  define s where "s = fold enqueue (map make_envelope [1, 1, 1, 2]) sched_new"
  have q: "ready_queue s = [ActorId 1, ActorId 2]"
    and m: "length (mailbox s (ActorId 1)) = 3" "length (mailbox s (ActorId 2)) = 1"
    unfolding s_def by code_simp+
  have "map raw (round_robin 3 (ready_queue s) (\<lambda>i. length (mailbox s i))) = [1, 2, 1, 1]"
    unfolding q round_robin_def by (simp add: m upt_rec del: length_greater_0_conv)
  moreover have "sched_inv None s" unfolding s_def by (intro sched_inv_enqueues sched_inv_new)
  ultimately have "map_option fst (drain_order s []) = Some [1, 2, 1, 1]"
    using sched_drain_order[of s 3] by (auto simp: q m)
  then show ?thesis by (simp only: s_def)
qed

text \<open>With as many messages for each, the rounds repeat the same order.\<close>

lemma enqueue_rounds_order:
  assumes "distinct ids"
  shows "map_option fst (drain_order (enqueue_rounds k ids sched_new) []) = Some (concat (replicate k ids))"
proof -
  let ?s = "enqueue_rounds k ids sched_new"
  have st: "sched_inv None ?s" "ready_queue ?s = (if k = 0 then [] else map ActorId ids)"
    "\<And>i. i \<in> set ids \<Longrightarrow> length (mailbox ?s (ActorId i)) = k"
    using enqueue_rounds_state[OF assms sched_inv_new, of 0 k] by (simp_all add: ready_queue_new)
  then have "round_robin k (ready_queue ?s) (\<lambda>i. length (mailbox ?s i)) = concat (replicate k (ready_queue ?s))"
    by (intro round_robin_equal) (auto split: if_splits)
  moreover have "map raw (concat (replicate k (ready_queue ?s))) = concat (replicate k ids)"
    using st(2) by (simp add: map_concat comp_def)
  moreover have le: "\<forall>i \<in> set (ready_queue ?s). length (mailbox ?s i) \<le> k"
    using st(2,3) by (auto split: if_splits)
  ultimately show ?thesis
    using drain_order_rounds[OF st(1) _ refl, of "[]" "ready_queue ?s" k "[]"] le by auto
qed

lemma round_robin_fairness_order_passes: round_robin_fairness_order
  using enqueue_rounds_order[of "[1, 2, 3]" 2] by (simp add: round_robin_fairness_order_def numeral_2_eq_2)

section \<open>Tests of ids and handlers\<close>

text \<open>
  \<^verbatim>\<open>sort_by_key\<close> and \<^verbatim>\<open>dedup\<close>: what is left has one entry for each id. The counter \<open>c\<close> is wherever
  the static counter happens to be.
\<close>

definition actor_id_uniqueness :: "u64 \<Rightarrow> bool" where
  "actor_id_uniqueness c =
     (let ids = fst (static_ids.alloc_many 100 c);
          dedup = remdups_adj (sort_key raw ids)
      in length ids = length dedup)"

definition actor_id_display :: bool where
  "actor_id_display = (let i = ActorId 42 in display_actor_id i = ''actor-42'')"

definition actor_id_eq :: bool where
  "actor_id_eq = (ActorId 1 = ActorId 1 \<and> ActorId 1 \<noteq> ActorId 2)"

definition context_dummy :: actor_context where
  "context_dummy =
     \<lparr>ctx_actor_id = ActorId 0, ctx_running = True, ctx_spawn_shared = None, ctx_worker_idx = 0\<rparr>"

datatype hello_val = HelloActor | HelloMessage string | HelloText string

fun hello_handle :: "hello_val \<Rightarrow> hello_val \<Rightarrow> (hello_val, unit) prog" where
  "hello_handle HelloActor (HelloMessage s) = Return (HelloText s)"
| "hello_handle _ _ = Panic POther"

definition blank_world :: "'e \<Rightarrow> ('v, 'e) world" where
  "blank_world e = \<lparr>chans = [], replies = [], confirms = [], shared =
     \<lparr>control_txs = [], msg_txs = [], actor_maps = [], next_id = 0, next_worker = 0, num_workers = 0, running = False\<rparr>,
     env = e, log = []\<rparr>"

definition handler_sends_result :: bool where
  "handler_sends_result =
     (case exec (hello_handle HelloActor (HelloMessage ''hello'')) HelloActor context_dummy (blank_world ()) of
        (result, _) \<Rightarrow> result = Inr (HelloText ''hello''))"

lemma distinct_sort_dedup: "distinct xs \<Longrightarrow> length (remdups_adj (sort_key f xs)) = length xs"
  by (simp add: remdups_adj_distinct)

lemma actor_tests_pass:
  "actor_id_uniqueness c" "actor_id_display" "actor_id_eq" "handler_sends_result"
proof -
  show "actor_id_uniqueness c"
    using distinct_sort_dedup[OF static_ids.alloc_many_distinct[of 100 c], of raw]
    by (simp add: actor_id_uniqueness_def Let_def)
qed code_simp+

section \<open>Tests of state machines\<close>

datatype test_state = Init | Process | Validate

fun debug_test_state :: "test_state \<Rightarrow> string" where
  "debug_test_state Init = ''Init''"
| "debug_test_state Process = ''Process''"
| "debug_test_state Validate = ''Validate''"

text \<open>The values of these tests: the logging actor, its message and its result.\<close>

datatype log_val = LogActor "string list" | TestMsg string | LogText string | LogUnit

fun log_handle_in_state :: "log_val \<Rightarrow> nat \<Rightarrow> test_state \<Rightarrow> log_val \<Rightarrow> (log_val, unit) prog" where
  "log_handle_in_state (LogActor l) idx st (TestMsg text) =
     (let entry = debug_test_state st @ ''('' @ decimal idx @ ''): '' @ text
      in SetSelf (LogActor (l @ [entry])) (Return (LogText entry)))"
| "log_handle_in_state _ idx st _ = Panic POther"

definition log_handler :: "(test_state, log_val, unit) state_handler" where
  "log_handler =
     \<lparr>initial_state = Init, state_sequence = [Init, Process, Validate], handle_in_state = log_handle_in_state,
      inner_started = (\<lambda>_. Return LogUnit), inner_stopped = (\<lambda>_. Return LogUnit)\<rparr>"

type_synonym log_machine = "(test_state, log_val) state_machine"

definition starts_at_initial_state :: bool where
  "starts_at_initial_state =
     (case sm_new log_handler (LogActor []) of
        Inl _ \<Rightarrow> False
      | Inr sm \<Rightarrow> sm_current_index sm = 0 \<and> sm_current_state sm = Inr Init)"

text \<open>\<^verbatim>\<open>sm.handle(TestMsg { text }, &mut Context::dummy())\<close>\<close>

definition log_handle :: "string \<Rightarrow> log_machine \<Rightarrow> (fault + log_val) \<times> log_machine" where
  "log_handle text sm =
     (case sm_handle log_handler (TestMsg text) sm context_dummy (blank_world ()) of (r, sm', _) \<Rightarrow> (r, sm'))"

definition cycles_through_states :: bool where
  "cycles_through_states =
     (case sm_new log_handler (LogActor []) of
        Inl _ \<Rightarrow> False
      | Inr sm0 \<Rightarrow>
          (case log_handle ''first'' sm0 of (r1, sm1) \<Rightarrow>
           case log_handle ''second'' sm1 of (r2, sm2) \<Rightarrow>
           case log_handle ''third'' sm2 of (r3, sm3) \<Rightarrow>
             sm_current_state sm0 = Inr Init \<and> r1 = Inr (LogText ''Init(0): first'')
             \<and> sm_current_state sm1 = Inr Process \<and> r2 = Inr (LogText ''Process(1): second'')
             \<and> sm_current_state sm2 = Inr Validate \<and> r3 = Inr (LogText ''Validate(2): third'')
             \<and> sm_current_state sm3 = Inr Init))"

definition cycles_multiple_times :: bool where
  "cycles_multiple_times =
     (case sm_new log_handler (LogActor []) of
        Inl _ \<Rightarrow> False
      | Inr sm0 \<Rightarrow>
          (let sm = fold (\<lambda>i sm. snd (log_handle (''msg'' @ decimal i) sm)) [0..<6] sm0
           in sm_current_index sm = 0 \<and> sm_current_state sm = Inr Init))"

definition log_records_all_transitions :: bool where
  "log_records_all_transitions =
     (case sm_new log_handler (LogActor []) of
        Inl _ \<Rightarrow> False
      | Inr sm0 \<Rightarrow>
          (let sm = fold (\<lambda>text sm. snd (log_handle text sm)) [''a'', ''b'', ''c''] sm0
           in case sm_inner sm of
                LogActor l \<Rightarrow>
                  length l = 3 \<and> l ! 0 = ''Init(0): a'' \<and> l ! 1 = ''Process(1): b'' \<and> l ! 2 = ''Validate(2): c''
              | _ \<Rightarrow> False))"

text \<open>
  The two flags behind \<^verbatim>\<open>Arc<Mutex<bool>>\<close> are the shared state; the machine has a single state.
\<close>

datatype flag_val = LifecycleActor | FlagUnit

definition lifecycle_handler :: "(unit, flag_val, bool \<times> bool) state_handler" where
  "lifecycle_handler =
     \<lparr>initial_state = (), state_sequence = [()], handle_in_state = (\<lambda>_ _ _ _. Return FlagUnit),
      inner_started = (\<lambda>_. Shared (\<lambda>(_, y). (True, y)) (\<lambda>_. Return FlagUnit)),
      inner_stopped = (\<lambda>_. Shared (\<lambda>(x, _). (x, True)) (\<lambda>_. Return FlagUnit))\<rparr>"

definition lifecycle_hooks_delegated :: bool where
  "lifecycle_hooks_delegated =
     (case sm_new lifecycle_handler LifecycleActor of
        Inl _ \<Rightarrow> False
      | Inr sm \<Rightarrow>
          (case sm_started lifecycle_handler sm context_dummy (blank_world (False, False)) of
             (_, sm1, _, w1) \<Rightarrow>
               (case sm_stopped lifecycle_handler sm1 context_dummy w1 of
                  (_, _, _, w2) \<Rightarrow> fst (env w1) \<and> snd (env w2))))"

definition empty_handler :: "(unit, flag_val, unit) state_handler" where
  "empty_handler =
     \<lparr>initial_state = (), state_sequence = [], handle_in_state = (\<lambda>_ _ _ _. Return FlagUnit),
      inner_started = (\<lambda>_. Return FlagUnit), inner_stopped = (\<lambda>_. Return FlagUnit)\<rparr>"

text \<open>\<^verbatim>\<open>#[should_panic(expected = ..)]\<close>\<close>

definition empty_state_sequence_panics :: bool where
  "empty_state_sequence_panics =
     (case sm_new empty_handler LifecycleActor of
        Inl (Panicking (PStr s)) \<Rightarrow> str_contains ''state sequence must not be empty'' s
      | _ \<Rightarrow> False)"

definition into_inner_returns_actor :: bool where
  "into_inner_returns_actor =
     (case sm_new log_handler (LogActor []) of
        Inl _ \<Rightarrow> False
      | Inr sm \<Rightarrow> (case sm_into_inner sm of LogActor l \<Rightarrow> l = [] | _ \<Rightarrow> False))"

lemma stateful_tests_pass:
  "starts_at_initial_state" "cycles_through_states" "cycles_multiple_times" "log_records_all_transitions"
  "lifecycle_hooks_delegated" "empty_state_sequence_panics" "into_inner_returns_actor"
  by code_simp+

end
