(* ===== verification/Test_System.thy ===== *)
theory Test_System
  imports System_Loops "HOL-Library.Monad_Syntax"
begin

text \<open>
  The unit tests of \<^verbatim>\<open>src/system.rs\<close>, each as an executable definition: \<open>Some ()\<close> if it passes,
  \<open>None\<close> if an assertion or an \<^verbatim>\<open>unwrap\<close> fails or a call never returns. The tests run the system on a
  thread of its own and send from the main thread. A send that waits lets the event loop run
  until it waits for the next message.
\<close>

section \<open>What tests are made of\<close>

definition assert_that :: "bool \<Rightarrow> unit option" where
  "assert_that b = (if b then Some () else None)"

definition unwrap :: "'f + 'a \<Rightarrow> 'a option" where
  "unwrap r = (case r of Inl _ \<Rightarrow> None | Inr v \<Rightarrow> Some v)"

text \<open>\<^verbatim>\<open>addr.send(msg)\<close> while another thread is in \<^verbatim>\<open>system.run()\<close>.\<close>

definition sys_call ::
  "('v, 'e) classes \<Rightarrow> addr \<Rightarrow> 'v \<Rightarrow> ('v, 'e) actor_system \<Rightarrow> ((send_error + 'v) \<times> ('v, 'e) actor_system) option" where
  "sys_call cls adr m s =
     (case addr_send_begin adr m (sys_world s) of
        (Inl err, w) \<Rightarrow> Some (Inl err, s\<lparr>sys_world := w\<rparr>)
      | (Inr r, w) \<Rightarrow>
          (case sys_resume id cls (s\<lparr>sys_world := w\<rparr>) of
             Some (Waiting, s') \<Rightarrow> map_option (\<lambda>res. (res, s')) (addr_send_result r (sys_world s'))
           | _ \<Rightarrow> None))"

definition sys_drop_addr :: "addr \<Rightarrow> ('v, 'e) actor_system \<Rightarrow> ('v, 'e) actor_system" where
  "sys_drop_addr adr s = s\<lparr>sys_world := addr_drop adr (sys_world s)\<rparr>"

text \<open>The thread of \<^verbatim>\<open>run_in_thread\<close> up to the point where it waits, and \<^verbatim>\<open>handle.join().unwrap()\<close>.\<close>

definition run_in_thread :: "('v, 'e) classes \<Rightarrow> ('v, 'e) actor_system \<Rightarrow> ('v, 'e) actor_system option" where
  "run_in_thread cls s = (case sys_run id cls s of Some (Waiting, s') \<Rightarrow> Some s' | _ \<Rightarrow> None)"

definition join_thread :: "('v, 'e) classes \<Rightarrow> ('v, 'e) actor_system \<Rightarrow> ('v, 'e) actor_system option" where
  "join_thread cls s = (case sys_resume id cls s of Some (Finished _, s') \<Rightarrow> Some s' | _ \<Rightarrow> None)"

section \<open>The actors of the tests\<close>

datatype unit_val =
    UCounter usize | UEcho | UStop | UCollector | UStart | UShutdown
  | UIncrement | UGetCount | UEchoMsg string | UDie | UCollect string | UPing
  | UUsize usize | UString string | UUnit

text \<open>The vector and the flag that tests share with their actors behind \<^verbatim>\<open>Arc<Mutex<_>>\<close>.\<close>

record unit_env =
  collected :: "string list"
  flag :: bool

definition unit_env0 :: unit_env where
  "unit_env0 = \<lparr>collected = [], flag = False\<rparr>"

type_synonym unit_prog = "(unit_val, unit_env) prog"

type_synonym unit_system = "(unit_val, unit_env) actor_system"

fun ucounter_handle :: "bool \<Rightarrow> unit_val \<Rightarrow> unit_val \<Rightarrow> unit_prog" where
  "ucounter_handle oc (UCounter n) UIncrement =
     (case add_profile oc n 1 of
        None \<Rightarrow> Panic (PStr ''attempt to add with overflow'')
      | Some m \<Rightarrow> SetSelf (UCounter m) (Return (UUsize m)))"
| "ucounter_handle oc (UCounter n) UGetCount = Return (UUsize n)"
| "ucounter_handle oc _ _ = Panic POther"

fun uecho_handle :: "unit_val \<Rightarrow> unit_val \<Rightarrow> unit_prog" where
  "uecho_handle UEcho (UEchoMsg s) = Return (UString s)"
| "uecho_handle _ _ = Panic POther"

fun ustop_handle :: "unit_val \<Rightarrow> unit_val \<Rightarrow> unit_prog" where
  "ustop_handle UStop UDie = CtxStop (Return UUnit)"
| "ustop_handle _ _ = Panic POther"

fun ucollector_handle :: "unit_val \<Rightarrow> unit_val \<Rightarrow> unit_prog" where
  "ucollector_handle UCollector (UCollect s) =
     Shared (\<lambda>e. e\<lparr>collected := collected e @ [s]\<rparr>) (\<lambda>_. Return UUnit)"
| "ucollector_handle _ _ = Panic POther"

definition set_flag :: unit_prog where
  "set_flag = Shared (\<lambda>e. e\<lparr>flag := True\<rparr>) (\<lambda>_. Return UUnit)"

fun ustart_handle :: "unit_val \<Rightarrow> unit_val \<Rightarrow> unit_prog" where
  "ustart_handle UStart UPing = Return UUnit"
| "ustart_handle _ _ = Panic POther"

fun ushutdown_handle :: "unit_val \<Rightarrow> unit_val \<Rightarrow> unit_prog" where
  "ushutdown_handle UShutdown UPing = Return UUnit"
| "ushutdown_handle _ _ = Panic POther"

text \<open>The types by number, in the order of the constructors; all but the last keep the empty \<^verbatim>\<open>stopped\<close>.\<close>

definition unit_classes :: "bool \<Rightarrow> (unit_val, unit_env) classes" where
  "unit_classes oc a =
     \<lparr>cls_handle =
        (if a = 0 then ucounter_handle oc else if a = 1 then uecho_handle else if a = 2 then ustop_handle
         else if a = 3 then ucollector_handle else if a = 4 then ustart_handle else ushutdown_handle),
      cls_stopped = (\<lambda>_. if a = 5 then set_flag else Return UUnit)\<rparr>"

section \<open>The tests\<close>

definition spawn_and_send_message :: "bool \<Rightarrow> unit option" where
  "spawn_and_send_message oc = do {
     let cls = unit_classes oc;
     let (r, s) = sys_spawn oc (Return UUnit) 0 (UCounter 0) (system_new unit_env0);
     adr \<leftarrow> unwrap r;
     s \<leftarrow> run_in_thread cls s;
     (r, s) \<leftarrow> sys_call cls adr UIncrement s;
     v \<leftarrow> unwrap r;
     assert_that (v = UUsize 1);
     (r, s) \<leftarrow> sys_call cls adr UIncrement s;
     v \<leftarrow> unwrap r;
     assert_that (v = UUsize 2);
     (r, s) \<leftarrow> sys_call cls adr UGetCount s;
     v \<leftarrow> unwrap r;
     assert_that (v = UUsize 2);
     s \<leftarrow> join_thread cls (sys_drop_addr adr s);
     Some () }"

definition actor_stop_from_context :: "bool \<Rightarrow> unit option" where
  "actor_stop_from_context oc = do {
     let cls = unit_classes oc;
     let (r, s) = sys_spawn oc (Return UUnit) 2 UStop (system_new unit_env0);
     adr \<leftarrow> unwrap r;
     s \<leftarrow> run_in_thread cls s;
     (r, s) \<leftarrow> sys_call cls adr UDie s;
     assert_that (\<not> isl r);
     (r, s) \<leftarrow> sys_call cls adr UDie s;
     assert_that (isl r);
     s \<leftarrow> join_thread cls (sys_drop_addr adr s);
     Some () }"

definition multiple_actors_communicate_via_notify :: "bool \<Rightarrow> unit option" where
  "multiple_actors_communicate_via_notify oc = do {
     let cls = unit_classes oc;
     let (r, s) = sys_spawn oc (Return UUnit) 3 UCollector (system_new unit_env0);
     collector \<leftarrow> unwrap r;
     let (r, s) = sys_spawn oc (Return UUnit) 1 UEcho s;
     echo \<leftarrow> unwrap r;
     s \<leftarrow> run_in_thread cls s;
     (r, s) \<leftarrow> sys_call cls echo (UEchoMsg ''ping'') s;
     v \<leftarrow> unwrap r;
     assert_that (v = UString ''ping'');
     (r, s) \<leftarrow> sys_call cls collector (UCollect ''done'') s;
     v \<leftarrow> unwrap r;
     assert_that (length (collected (env (sys_world s))) = 1);
     s \<leftarrow> join_thread cls (sys_drop_addr echo (sys_drop_addr collector s));
     Some () }"

definition actor_started_called :: "bool \<Rightarrow> unit option" where
  "actor_started_called oc = do {
     let cls = unit_classes oc;
     let (r, s) = sys_spawn oc set_flag 4 UStart (system_new unit_env0);
     adr \<leftarrow> unwrap r;
     s \<leftarrow> run_in_thread cls s;
     assert_that (flag (env (sys_world s)));
     s \<leftarrow> join_thread cls (sys_drop_addr adr s);
     Some () }"

definition actor_stopped_called_on_drop :: "bool \<Rightarrow> unit option" where
  "actor_stopped_called_on_drop oc = do {
     let cls = unit_classes oc;
     let (r, s) = sys_spawn oc (Return UUnit) 5 UShutdown (system_new unit_env0);
     adr \<leftarrow> unwrap r;
     s \<leftarrow> run_in_thread cls s;
     s \<leftarrow> join_thread cls (sys_drop_addr adr s);
     assert_that (flag (env (sys_world s))) }"

definition send_to_nonexistent_actor :: "bool \<Rightarrow> unit option" where
  "send_to_nonexistent_actor oc = do {
     let cls = unit_classes oc;
     let (r, s) = sys_spawn oc (Return UUnit) 1 UEcho (system_new unit_env0);
     adr \<leftarrow> unwrap r;
     let (addr2, w) = addr_clone adr (sys_world s);
     s \<leftarrow> run_in_thread cls (s\<lparr>sys_world := w\<rparr>);
     s \<leftarrow> join_thread cls (sys_drop_addr addr2 (sys_drop_addr adr s));
     Some () }"

text \<open>The loop \<^verbatim>\<open>for i in 0..100\<close>, from \<open>i\<close> on with so many rounds to go.\<close>

fun increments :: "bool \<Rightarrow> nat \<Rightarrow> nat \<Rightarrow> addr \<Rightarrow> unit_system \<Rightarrow> unit_system option" where
  "increments oc 0 i adr s = Some s"
| "increments oc (Suc k) i adr s = do {
     (r, s) \<leftarrow> sys_call (unit_classes oc) adr UIncrement s;
     v \<leftarrow> unwrap r;
     assert_that (v = UUsize (of_nat (i + 1)));
     increments oc k (i + 1) adr s }"

definition many_messages_to_actor :: "bool \<Rightarrow> nat \<Rightarrow> unit option" where
  "many_messages_to_actor oc n = do {
     let cls = unit_classes oc;
     let (r, s) = sys_spawn oc (Return UUnit) 0 (UCounter 0) (system_new unit_env0);
     adr \<leftarrow> unwrap r;
     s \<leftarrow> run_in_thread cls s;
     s \<leftarrow> increments oc n 0 adr s;
     (r, s) \<leftarrow> sys_call cls adr UGetCount s;
     v \<leftarrow> unwrap r;
     assert_that (v = UUsize (of_nat n));
     s \<leftarrow> join_thread cls (sys_drop_addr adr s);
     Some () }"

lemma system_tests_pass:
  "spawn_and_send_message oc = Some ()" "actor_stop_from_context oc = Some ()"
  "multiple_actors_communicate_via_notify oc = Some ()" "actor_started_called oc = Some ()"
  "actor_stopped_called_on_drop oc = Some ()" "send_to_nonexistent_actor oc = Some ()"
  by (cases oc; simp only:; code_simp)+

section \<open>Any number of requests\<close>

text \<open>
  The system of \<open>many_messages_to_actor\<close> while its event loop waits: one counter that stands at
  \<open>n\<close>, and nothing queued.
\<close>

definition counter_at :: "nat \<Rightarrow> unit_system \<Rightarrow> bool" where
  "counter_at n s \<longleftrightarrow>
     sys_running s \<and> sys_rx s = 0
   \<and> chans (sys_world s) = [\<lparr>chan_queue = [], chan_senders = 1, chan_open = True\<rparr>]
   \<and> actors s = [(ActorId 1, \<lparr>actor = \<lparr>any_type = 0, any_val = UCounter (of_nat n)\<rparr>, on_stop = OnStopFn 0\<rparr>)]"

lemma sys_resume_one:
  assumes "sys_running s" and "sys_recv s = (Received e, s1)" and "sys_dispatch cls e s1 = (Inr (), s2)"
    and "sys_running s2" and "sys_recv s2 = (Empty, s3)"
  shows "sys_resume order cls s = Some (Waiting, s3)"
  using assms
  by (simp add: sys_resume_def) (subst sys_run_loop.simps, simp, subst sys_run_loop.simps, simp)

text \<open>A request to the counter: the message is taken, handled, and the loop waits again.\<close>

lemma counter_call:
  assumes at: "counter_at n s" and adr: "addr_tx adr = 0" "addr_actor_id adr = ActorId 1" "addr_type adr = 0"
    and h: "\<And>ctx w. exec (ucounter_handle oc (UCounter (of_nat n)) m) (UCounter (of_nat n)) ctx w =
      (Inr (UUsize v), UCounter (of_nat k), ctx, w)"
  shows "\<exists>s'. sys_call (unit_classes oc) adr m s = Some (Inr (UUsize v), s') \<and> counter_at k s'"
proof -
  have st: "sys_running s" "sys_rx s = 0"
    "chans (sys_world s) = [\<lparr>chan_queue = [], chan_senders = 1, chan_open = True\<rparr>]"
    "actors s = [(ActorId 1, \<lparr>actor = \<lparr>any_type = 0, any_val = UCounter (of_nat n)\<rparr>, on_stop = OnStopFn 0\<rparr>)]"
    using at by (auto simp: counter_at_def)
  let ?w = "sys_world s" and ?r = "length (replies (sys_world s))"
  define e where "e = \<lparr>env_actor_id = ActorId 1, env_dispatch = SendFn 0 m ?r\<rparr>"
  define w1 where "w1 = ?w\<lparr>replies := replies ?w @ [Pending],
    chans := [\<lparr>chan_queue = [e], chan_senders = 1, chan_open = True\<rparr>]\<rparr>"
  have b: "addr_send_begin adr m ?w = (Inr ?r, w1)"
    by (simp add: addr_send_begin_def tx_send_def upd_chan_def chan_at_def chan_send_def st adr w1_def e_def Let_def)
  define w2 where "w2 = w1\<lparr>chans := chans ?w\<rparr>"
  have rc: "sys_recv (s\<lparr>sys_world := w1\<rparr>) = (Received e, s\<lparr>sys_world := w2\<rparr>)"
    by (simp add: sys_recv_def chan_try_recv_def upd_chan_def chan_at_def st w1_def w2_def)
  define act where "act = \<lparr>any_type = 0, any_val = UCounter (of_nat k)\<rparr>"
  define s2 where "s2 = s\<lparr>actors := [(ActorId 1, \<lparr>actor = act, on_stop = OnStopFn 0\<rparr>)],
    sys_world := reply_send ?r (UUsize v) (log_event (EvHandled (ActorId 1) m) w2)\<rparr>"
  have d: "sys_dispatch (unit_classes oc) e (s\<lparr>sys_world := w2\<rparr>) = (Inr (), s2)"
    using h by (auto simp: sys_dispatch_def call_dispatch_def call_handle_def unit_classes_def e_def st hm_defs s2_def act_def Let_def)
  have rc2: "sys_recv s2 = (Empty, s2)"
    by (simp add: sys_recv_def chan_try_recv_def s2_def st w2_def chan_at_def w1_def upd_chan_def)
  have "sys_resume id (unit_classes oc) (s\<lparr>sys_world := w1\<rparr>) = Some (Waiting, s2)"
    by (rule sys_resume_one[OF _ rc d _ rc2]) (simp_all add: st s2_def)
  moreover have "addr_send_result ?r (sys_world s2) = Some (Inr (UUsize v))"
    by (simp add: addr_send_result_def s2_def reply_send_def w2_def w1_def)
  moreover have "counter_at k s2"
    by (simp add: counter_at_def s2_def st w2_def act_def)
  ultimately show ?thesis by (auto simp: sys_call_def b)
qed

lemma counter_increment:
  assumes "counter_at n s" "addr_tx adr = 0" "addr_actor_id adr = ActorId 1" "addr_type adr = 0" "Suc n < 2 ^ 64"
  shows "\<exists>s'. sys_call (unit_classes oc) adr UIncrement s = Some (Inr (UUsize (of_nat (Suc n))), s') \<and> counter_at (Suc n) s'"
proof (rule counter_call[OF assms(1-4)])
  fix ctx w
  have "unat (of_nat n :: usize) = n" using assms(5) by (simp add: unsigned_of_nat take_bit_nat_eq_self)
  then have "add_profile oc (of_nat n :: usize) 1 = Some (of_nat n + 1)"
    using assms(5) by (intro add_profile_small) simp
  then show "exec (ucounter_handle oc (UCounter (of_nat n)) UIncrement) (UCounter (of_nat n)) ctx w =
      (Inr (UUsize (of_nat (Suc n))), UCounter (of_nat (Suc n)), ctx, w)" by (simp add: add.commute)
qed

lemma counter_get:
  assumes "counter_at n s" "addr_tx adr = 0" "addr_actor_id adr = ActorId 1" "addr_type adr = 0"
  shows "\<exists>s'. sys_call (unit_classes oc) adr UGetCount s = Some (Inr (UUsize (of_nat n)), s') \<and> counter_at n s'"
  by (rule counter_call[OF assms]) simp_all

lemma increments_run:
  assumes "counter_at i s" "addr_tx adr = 0" "addr_actor_id adr = ActorId 1" "addr_type adr = 0" "i + k < 2 ^ 64"
  shows "\<exists>s'. increments oc k i adr s = Some s' \<and> counter_at (i + k) s'"
  using assms
proof (induction k arbitrary: i s)
  case (Suc k)
  from counter_increment[OF Suc.prems(1-4), of oc] Suc.prems(5) obtain s1 where
    s1: "sys_call (unit_classes oc) adr UIncrement s = Some (Inr (UUsize (of_nat (Suc i))), s1)" "counter_at (Suc i) s1"
    by auto
  from Suc.IH[OF s1(2) Suc.prems(2-4)] Suc.prems(5) show ?case
    by (simp add: s1(1) unwrap_def assert_that_def)
qed simp

lemma counter_start:
  "\<exists>s adr. sys_spawn oc (Return UUnit) 0 (UCounter 0) (system_new unit_env0) = (Inr adr, s)
     \<and> addr_tx adr = 0 \<and> addr_actor_id adr = ActorId 1 \<and> addr_type adr = 0
     \<and> (\<exists>s'. run_in_thread (unit_classes oc) s = Some s' \<and> counter_at 0 s')"
proof -
  have "add_profile oc (1 :: u64) 1 = Some 2"
    by (subst add_profile_small) simp_all
  then obtain s where s: "sys_spawn oc (Return UUnit) 0 (UCounter 0) (system_new unit_env0) = (Inr (addr_new (ActorId 1) 0 0), s)"
    "sys_rx s = 0" "sys_tx s = Some 0"
    "chans (sys_world s) = [\<lparr>chan_queue = [], chan_senders = 2, chan_open = True\<rparr>]"
    "actors s = [(ActorId 1, \<lparr>actor = \<lparr>any_type = 0, any_val = UCounter 0\<rparr>, on_stop = OnStopFn 0\<rparr>)]"
    by (simp add: sys_spawn_def system_new_def upd_chan_def chan_at_def chan_new_def chan_clone_tx_def hm_defs Let_def log_event_def)
  let ?s = "sys_begin_run s"
  have b: "sys_running ?s" "sys_rx ?s = 0" "actors ?s = actors s"
    "chans (sys_world ?s) = [\<lparr>chan_queue = [], chan_senders = 1, chan_open = True\<rparr>]"
    by (simp_all add: sys_begin_run_def s Let_def upd_chan_def chan_at_def chan_drop_tx_def)
  have rc: "sys_recv ?s = (Empty, ?s)"
    by (simp add: sys_recv_def chan_try_recv_def b chan_at_def upd_chan_def)
  have "run_in_thread (unit_classes oc) s = Some ?s"
    by (simp add: run_in_thread_def sys_run_def sys_resume_def) (subst sys_run_loop.simps, simp add: rc b)
  then show ?thesis using s b by (auto simp: counter_at_def)
qed

lemma counter_join:
  assumes "counter_at n s" and "addr_tx adr = 0"
  shows "join_thread (unit_classes oc) (sys_drop_addr adr s) \<noteq> None"
proof -
  let ?s = "sys_drop_addr adr s"
  have st: "sys_running ?s" "sys_rx ?s = 0" "actors ?s = actors s"
    "chans (sys_world ?s) = [\<lparr>chan_queue = [], chan_senders = 0, chan_open = True\<rparr>]"
    using assms by (simp_all add: counter_at_def sys_drop_addr_def addr_drop_def upd_chan_def chan_at_def chan_drop_tx_def)
  have rc: "sys_recv ?s = (Disconnected, ?s)"
    by (simp add: sys_recv_def chan_try_recv_def st chan_at_def upd_chan_def)
  have l: "sys_run_loop (unit_classes oc) ?s = Some (Finished (), ?s\<lparr>sys_running := False\<rparr>)"
    by (subst sys_run_loop.simps, simp add: st rc, subst sys_run_loop.simps, simp)
  have "fst (sys_stop_all_actors id (unit_classes oc) (?s\<lparr>sys_running := False\<rparr>)) = Inr ()"
    using assms(1) by (simp add: counter_at_def sys_stop_all_actors_def st hm_defs sys_remove_actor_def
        call_dispatch_def unit_classes_def Let_def)
  then show ?thesis
    by (cases "sys_stop_all_actors id (unit_classes oc) (?s\<lparr>sys_running := False\<rparr>)")
      (simp add: join_thread_def sys_resume_def l)
qed

section \<open>Property\<close>

text \<open>
  For any number \<open>n\<close> of requests below the range of \<^verbatim>\<open>usize\<close>, the test
  \<^verbatim>\<open>many_messages_to_actor\<close> passes with \<open>n\<close> for its 100: request number \<open>i\<close> of one client is answered
  \<open>i\<close>, the count is \<open>n\<close> at the end, and dropping the address lets the system's thread be joined.
\<close>

theorem many_messages_pass:
  assumes "n < 2 ^ 64"
  shows "many_messages_to_actor oc n = Some ()"
proof -
  obtain s adr s1 where s: "sys_spawn oc (Return UUnit) 0 (UCounter 0) (system_new unit_env0) = (Inr adr, s)"
    and adr: "addr_tx adr = 0" "addr_actor_id adr = ActorId 1" "addr_type adr = 0"
    and s1: "run_in_thread (unit_classes oc) s = Some s1" "counter_at 0 s1"
    using counter_start[of oc] by blast
  obtain s2 where s2: "increments oc n 0 adr s1 = Some s2" "counter_at n s2"
    using increments_run[OF s1(2) adr, of n] assms by auto
  obtain s3 where s3: "sys_call (unit_classes oc) adr UGetCount s2 = Some (Inr (UUsize (of_nat n)), s3)" "counter_at n s3"
    using counter_get[OF s2(2) adr] by blast
  show ?thesis
    using counter_join[OF s3(2) adr(1), of oc]
    by (auto simp: many_messages_to_actor_def Let_def s unwrap_def s1(1) s2(1) s3(1) assert_that_def)
qed

theorem many_messages_pass_witness: "many_messages_to_actor True 100 = Some ()"
  by (rule many_messages_pass) simp

end
