(* ===== verification/Test_Kit.thy ===== *)
theory Test_Kit
  imports Testkit Test_System Example_Text
begin

text \<open>
  The unit tests of \<^verbatim>\<open>src/testkit.rs\<close> and the integration tests of \<^verbatim>\<open>tests/integration.rs\<close>. Each
  starts threads that send, sleeps for 10 ms, and drains the kit with \<^verbatim>\<open>run_until_idle\<close>. How far the
  threads have come by then is up to the scheduler of the operating system: it is the argument
  \<open>early\<close>, the list of the threads that act before the kit is drained, in this order; what is left
  they do afterwards. A test is \<open>Some ()\<close> if it passes.
\<close>

section \<open>Threads that send\<close>

datatype 'v act = ActSend addr 'v | ActDrop addr

fun act_step :: "'v act \<Rightarrow> ('v, 'e) actor_system \<Rightarrow> ('v, 'e) actor_system" where
  "act_step (ActSend adr m) s = s\<lparr>sys_world := snd (addr_do_send adr m (sys_world s))\<rparr>"
| "act_step (ActDrop adr) s = s\<lparr>sys_world := addr_drop adr (sys_world s)\<rparr>"

text \<open>The threads in the order of the schedule, and each of them to its end.\<close>

fun play :: "nat list \<Rightarrow> 'v act list list \<Rightarrow> ('v, 'e) actor_system \<Rightarrow> 'v act list list \<times> ('v, 'e) actor_system" where
  "play [] ts s = (ts, s)"
| "play (i # is) ts s =
     (if i < length ts then
        (case ts ! i of
           [] \<Rightarrow> play is ts s
         | x # xs \<Rightarrow> play is (ts[i := xs]) (act_step x s))
      else play is ts s)"

text \<open>The same equations on explicit states only, for evaluation.\<close>

lemma play_eval [code]:
  "play [] ts s = (ts, s)"
  "play (i # is) ts \<lparr>actors = a, sys_rx = rx, sys_tx = tx, sys_next_id = n, sys_running = b, sys_world = w\<rparr> =
     (let s = \<lparr>actors = a, sys_rx = rx, sys_tx = tx, sys_next_id = n, sys_running = b, sys_world = w\<rparr>
      in if i < length ts then
           (case ts ! i of
              [] \<Rightarrow> play is ts s
            | x # xs \<Rightarrow> play is (ts[i := xs]) (act_step x s))
         else play is ts s)"
  by (simp_all add: Let_def)

definition join_threads :: "'v act list list \<Rightarrow> ('v, 'e) actor_system \<Rightarrow> ('v, 'e) actor_system" where
  "join_threads ts s = fold act_step (concat ts) s"

text \<open>\<^verbatim>\<open>kit.run_until_idle()\<close>; a panic in it would fail the test.\<close>

definition kit_idle ::
  "('u kit_val, ('u, 'x) kit_env) classes \<Rightarrow> ('u, 'x) test_kit \<Rightarrow> ('u, 'x) test_kit option" where
  "kit_idle cls s = (case kit_run_until_idle cls s of Some (Finished _, s') \<Rightarrow> Some s' | _ \<Rightarrow> None)"

section \<open>The actors of the tests\<close>

datatype kit_user =
    KEcho string
  | KCounter usize | KInc | KUsize usize
  | KWorker usize addr | KDoWork string | KWorkDone usize string
  | KUnit

type_synonym kit_prog = "(kit_user kit_val, (kit_user, unit) kit_env) prog"

fun kcounter_handle :: "bool \<Rightarrow> kit_user kit_val \<Rightarrow> kit_user kit_val \<Rightarrow> kit_prog" where
  "kcounter_handle oc (UserVal (KCounter n)) (UserVal KInc) =
     (case add_profile oc n 1 of
        None \<Rightarrow> Panic (PStr ''attempt to add with overflow'')
      | Some m \<Rightarrow> SetSelf (UserVal (KCounter m)) (Return (UserVal (KUsize m))))"
| "kcounter_handle oc _ _ = Panic POther"

fun kworker_handle :: "kit_user kit_val \<Rightarrow> kit_user kit_val \<Rightarrow> kit_prog" where
  "kworker_handle (UserVal (KWorker i out)) (UserVal (KDoWork text)) =
     Notify out (UserVal (KWorkDone i (''worker-'' @ decimal (unat i) @ '' processed: '' @ text)))
       (Return (UserVal KUnit))"
| "kworker_handle _ _ = Panic POther"

text \<open>Type 0 is the probe of the messages in play, 1 the counter, 2 the worker.\<close>

definition kit_user_classes :: "bool \<Rightarrow> (kit_user kit_val, (kit_user, unit) kit_env) classes" where
  "kit_user_classes oc =
     kit_classes (\<lambda>a. if a = 0 then Some (UserVal KUnit) else None)
       (\<lambda>a. \<lparr>cls_handle = (if a = 1 then kcounter_handle oc else kworker_handle),
             cls_stopped = (\<lambda>_. Return (UserVal KUnit))\<rparr>)"

section \<open>The unit tests of the kit\<close>

definition probe_receives_messages :: "bool \<Rightarrow> nat list \<Rightarrow> unit option" where
  "probe_receives_messages oc early = do {
     let (r, kit) = kit_spawn_probe oc 0 (kit_new ());
     probe \<leftarrow> unwrap r;
     let (adr, kit) = probe_recipient probe kit;
     let (ts, kit) = play early [[ActSend adr (UserVal (KEcho ''hello'')), ActDrop adr]] kit;
     kit \<leftarrow> kit_idle (kit_user_classes oc) kit;
     Some () }"

definition probe_count_and_first :: "bool \<Rightarrow> nat list \<Rightarrow> unit option" where
  "probe_count_and_first oc early = do {
     let (r, kit) = kit_spawn_probe oc 0 (kit_new ());
     probe \<leftarrow> unwrap r;
     let (adr, kit) = probe_recipient probe kit;
     let (ts, kit) = play early [[ActSend adr (UserVal (KEcho ''first'')),
       ActSend adr (UserVal (KEcho ''second'')), ActDrop adr]] kit;
     kit \<leftarrow> kit_idle (kit_user_classes oc) kit;
     assert_that (probe_count probe kit = 2);
     assert_that (probe_received_any probe kit);
     assert_that (probe_first probe kit = Some (UserVal (KEcho ''first'')));
     assert_that (length (probe_all probe kit) = 2) }"

definition probe_reset_test :: "bool \<Rightarrow> nat list \<Rightarrow> unit option" where
  "probe_reset_test oc early = do {
     let (r, kit) = kit_spawn_probe oc 0 (kit_new ());
     probe \<leftarrow> unwrap r;
     let (adr, kit) = probe_recipient probe kit;
     let (ts, kit) = play early [[ActSend adr (UserVal (KEcho ''test'')), ActDrop adr]] kit;
     kit \<leftarrow> kit_idle (kit_user_classes oc) kit;
     assert_that (probe_count probe kit = 1);
     let kit = probe_reset probe kit;
     assert_that (probe_count probe kit = 0) }"

definition echo_contains :: "string \<Rightarrow> kit_user kit_val \<Rightarrow> bool" where
  "echo_contains p v = (case v of UserVal (KEcho s) \<Rightarrow> str_contains p s | _ \<Rightarrow> False)"

definition probe_any_match_test :: "bool \<Rightarrow> nat list \<Rightarrow> unit option" where
  "probe_any_match_test oc early = do {
     let (r, kit) = kit_spawn_probe oc 0 (kit_new ());
     probe \<leftarrow> unwrap r;
     let (adr, kit) = probe_recipient probe kit;
     let (ts, kit) = play early [[ActSend adr (UserVal (KEcho ''apple'')),
       ActSend adr (UserVal (KEcho ''banana'')), ActDrop adr]] kit;
     kit \<leftarrow> kit_idle (kit_user_classes oc) kit;
     assert_that (probe_any_match probe (echo_contains ''banana'') kit);
     assert_that (\<not> probe_any_match probe (echo_contains ''cherry'') kit) }"

definition spawn_actor_in_kit :: "bool \<Rightarrow> nat list \<Rightarrow> unit option" where
  "spawn_actor_in_kit oc early = do {
     let (r, kit) = kit_spawn oc (Return (UserVal KUnit)) 1 (UserVal (KCounter 0)) (kit_new ());
     adr \<leftarrow> unwrap r;
     let (adr_clone, w) = addr_clone adr (sys_world kit);
     let (ts, kit) = play early [[ActSend adr_clone (UserVal KInc), ActSend adr_clone (UserVal KInc),
       ActDrop adr_clone]] (kit\<lparr>sys_world := w\<rparr>);
     kit \<leftarrow> kit_idle (kit_user_classes oc) kit;
     Some () }"

section \<open>The integration tests\<close>

definition done_contains :: "string \<Rightarrow> kit_user kit_val \<Rightarrow> bool" where
  "done_contains p v = (case v of UserVal (KWorkDone _ s) \<Rightarrow> str_contains p s | _ \<Rightarrow> False)"

definition done_by :: "usize \<Rightarrow> kit_user kit_val \<Rightarrow> bool" where
  "done_by i v = (case v of UserVal (KWorkDone j _) \<Rightarrow> j = i | _ \<Rightarrow> False)"

text \<open>\<^verbatim>\<open>kit.spawn(WorkerActor { id, output: probe.recipient() })\<close>\<close>

definition spawn_kworker ::
  "bool \<Rightarrow> usize \<Rightarrow> test_probe \<Rightarrow> (kit_user, unit) test_kit \<Rightarrow> (addr \<times> (kit_user, unit) test_kit) option" where
  "spawn_kworker oc i probe kit = do {
     let (out, kit) = probe_recipient probe kit;
     let (r, kit) = kit_spawn oc (Return (UserVal KUnit)) 2 (UserVal (KWorker i out)) kit;
     adr \<leftarrow> unwrap r;
     Some (adr, kit) }"

definition kit_clone :: "addr \<Rightarrow> (kit_user, unit) test_kit \<Rightarrow> addr \<times> (kit_user, unit) test_kit" where
  "kit_clone adr kit = (case addr_clone adr (sys_world kit) of (a, w) \<Rightarrow> (a, kit\<lparr>sys_world := w\<rparr>))"

definition test_worker_sends_output_to_probe :: "bool \<Rightarrow> nat list \<Rightarrow> unit option" where
  "test_worker_sends_output_to_probe oc early = do {
     let (r, kit) = kit_spawn_probe oc 0 (kit_new ());
     probe \<leftarrow> unwrap r;
     (worker, kit) \<leftarrow> spawn_kworker oc 1 probe kit;
     let (worker_clone, kit) = kit_clone worker kit;
     let (ts, kit) = play early [[ActSend worker_clone (UserVal (KDoWork ''hello'')),
       ActSend worker_clone (UserVal (KDoWork ''world'')), ActDrop worker_clone]] kit;
     kit \<leftarrow> kit_idle (kit_user_classes oc) kit;
     let kit = join_threads ts kit;
     assert_that (probe_count probe kit = 2);
     assert_that (probe_any_match probe (done_contains ''hello'') kit);
     assert_that (probe_any_match probe (done_contains ''world'') kit) }"

definition test_multiple_workers :: "bool \<Rightarrow> nat list \<Rightarrow> unit option" where
  "test_multiple_workers oc early = do {
     let (r, kit) = kit_spawn_probe oc 0 (kit_new ());
     probe \<leftarrow> unwrap r;
     (worker1, kit) \<leftarrow> spawn_kworker oc 1 probe kit;
     (worker2, kit) \<leftarrow> spawn_kworker oc 2 probe kit;
     (worker3, kit) \<leftarrow> spawn_kworker oc 3 probe kit;
     let (ts, kit) = play early
       (map (\<lambda>adr. [ActSend adr (UserVal (KDoWork ''task'')), ActDrop adr]) [worker1, worker2, worker3]) kit;
     kit \<leftarrow> kit_idle (kit_user_classes oc) kit;
     let kit = join_threads ts kit;
     assert_that (probe_count probe kit = 3) }"

definition test_probe_only_receives_its_own_type :: "bool \<Rightarrow> nat list \<Rightarrow> unit option" where
  "test_probe_only_receives_its_own_type oc early = do {
     let (r, kit) = kit_spawn_probe oc 0 (kit_new ());
     probe \<leftarrow> unwrap r;
     let (adr, kit) = probe_recipient probe kit;
     let (ts, kit) = play early [[ActSend adr (UserVal (KWorkDone 0 ''test'')), ActDrop adr]] kit;
     kit \<leftarrow> kit_idle (kit_user_classes oc) kit;
     let kit = join_threads ts kit;
     assert_that (probe_count probe kit = 1) }"

definition test_actor_chain_with_probes :: "bool \<Rightarrow> nat list \<Rightarrow> unit option" where
  "test_actor_chain_with_probes oc early = do {
     let (r, kit) = kit_spawn_probe oc 0 (kit_new ());
     probe_b \<leftarrow> unwrap r;
     let (r, kit) = kit_spawn_probe oc 0 kit;
     probe_c \<leftarrow> unwrap r;
     (actor_a, kit) \<leftarrow> spawn_kworker oc 10 probe_b kit;
     (actor_b, kit) \<leftarrow> spawn_kworker oc 20 probe_c kit;
     let (a_clone, kit) = kit_clone actor_a kit;
     let (b_clone, kit) = kit_clone actor_b kit;
     let (ts, kit) = play early
       [[ActSend a_clone (UserVal (KDoWork ''to-b'')), ActDrop a_clone],
        [ActSend b_clone (UserVal (KDoWork ''to-c'')), ActDrop b_clone]] kit;
     kit \<leftarrow> kit_idle (kit_user_classes oc) kit;
     let kit = join_threads ts kit;
     assert_that (probe_count probe_b kit = 1);
     assert_that (probe_any_match probe_b (done_by 10) kit);
     assert_that (probe_count probe_c kit = 1);
     assert_that (probe_any_match probe_c (done_by 20) kit) }"

section \<open>With every send early, all tests pass\<close>

lemma kit_tests_pass:
  "probe_receives_messages oc [0, 0] = Some ()" "probe_count_and_first oc [0, 0, 0] = Some ()"
  "probe_reset_test oc [0, 0] = Some ()" "probe_any_match_test oc [0, 0, 0] = Some ()"
  "spawn_actor_in_kit oc [0, 0, 0] = Some ()"
  by (cases oc; simp only:; code_simp)+

lemma integration_tests_pass:
  "test_worker_sends_output_to_probe oc [0, 0, 0] = Some ()"
  "test_multiple_workers oc [2, 0, 1, 0, 1, 2] = Some ()"
  "test_probe_only_receives_its_own_type oc [0, 0] = Some ()"
  "test_actor_chain_with_probes oc [1, 0, 0, 1] = Some ()"
  by (cases oc; simp only:; code_simp)+

section \<open>What the sleep has to cover\<close>

text \<open>
  With one thread, only how often it acts before the kit is drained matters.
\<close>

lemma play_single:
  "play early [acts] s =
     ([drop (count_list early 0) acts], fold act_step (take (count_list early 0) acts) s)"
proof (induction early arbitrary: acts s)
  case (Cons i early)
  then show ?case by (cases acts) auto
qed simp

lemma play_single_bound:
  assumes "length acts \<le> n"
  shows "play early [acts] s = play (replicate (min n (count_list early 0)) 0) [acts] s"
proof -
  have c: "count_list (replicate k 0) 0 = k" for k :: nat by (induction k) simp_all
  have t: "take (min n k) acts = take k acts" "drop (min n k) acts = drop k acts" for k
    using assms by (simp_all add: min_def)
  show ?thesis by (simp only: play_single c t)
qed

lemma below_four: "(k::nat) \<le> 3 \<Longrightarrow> P 0 \<Longrightarrow> P 1 \<Longrightarrow> P 2 \<Longrightarrow> P 3 \<Longrightarrow> P k"
  by (auto simp: le_Suc_eq numeral_3_eq_3 numeral_2_eq_2)


end
