(* ===== verification/Threads.thy ===== *)
theory Threads
  imports Runtime_Waits
begin

text \<open>
  Programs of several operating system threads over one \<^verbatim>\<open>Runtime\<close>: the main thread, which owns
  the runtime, and the threads it starts with \<^verbatim>\<open>thread::spawn\<close>. A thread is a value of the type
  \<open>thread\<close>, the tree of what it will do; the threads and the workers interleave step by step, in an
  order that a schedule gives. What a thread does to the runtime is one of the runtime's
  steps.
\<close>

section \<open>Threads\<close>

text \<open>
  \<open>T_await\<close>, \<open>T_spawning\<close> and \<open>T_drop_wait\<close> are the places where a thread waits: for the reply
  of a \<^verbatim>\<open>send\<close>, for the confirmation of a \<^verbatim>\<open>spawn\<close>, for the workers to end. \<open>T_fail\<close> is a thread
  that has panicked. \<^verbatim>\<open>thread::spawn\<close> gives the number of the new thread, and joining a thread tells
  whether it returned.
\<close>

datatype ('v, 'e) thread =
    T_done
  | T_fail payload
  | T_send addr 'v "(send_error + 'v) \<Rightarrow> ('v, 'e) thread"
  | T_await nat "(send_error + 'v) \<Rightarrow> ('v, 'e) thread"
  | T_do_send addr 'v "(send_error + unit) \<Rightarrow> ('v, 'e) thread"
  | T_clone addr "addr \<Rightarrow> ('v, 'e) thread"
  | T_drop addr "('v, 'e) thread"
  | T_lock "'e \<Rightarrow> 'e" "'e \<Rightarrow> ('v, 'e) thread"
  | T_spawn "('v, 'e) prog" type_id 'v "addr \<Rightarrow> ('v, 'e) thread"
  | T_spawning spawn_ticket "addr \<Rightarrow> ('v, 'e) thread"
  | T_fork "('v, 'e) thread" "nat \<Rightarrow> ('v, 'e) thread"
  | T_join nat "bool \<Rightarrow> ('v, 'e) thread"
  | T_num_workers "nat \<Rightarrow> ('v, 'e) thread"
  | T_shutdown "('v, 'e) thread"
  | T_join_workers "('v, 'e) thread"
  | T_drop_rt "('v, 'e) thread"
  | T_drop_wait "('v, 'e) thread"

text \<open>\<^verbatim>\<open>rt.run()\<close>: the sleep is any number of steps of others.\<close>

definition t_run :: "('v, 'e) thread \<Rightarrow> ('v, 'e) thread" where
  "t_run k = T_shutdown (T_join_workers k)"

text \<open>\<^verbatim>\<open>assert!\<close>, \<^verbatim>\<open>unwrap\<close> of the result of a send, and \<^verbatim>\<open>handle.join().unwrap()\<close>.\<close>

fun t_assert :: "bool \<Rightarrow> ('v, 'e) thread \<Rightarrow> ('v, 'e) thread" where
  "t_assert True k = k"
| "t_assert False k = T_fail (PString ''assertion failed'')"

fun t_unwrap :: "(send_error + 'a) \<Rightarrow> ('a \<Rightarrow> ('v, 'e) thread) \<Rightarrow> ('v, 'e) thread" where
  "t_unwrap (Inl err) k = T_fail (PString ''called `Result::unwrap()` on an `Err` value'')"
| "t_unwrap (Inr v) k = k v"

definition t_join :: "nat \<Rightarrow> ('v, 'e) thread \<Rightarrow> ('v, 'e) thread" where
  "t_join i k = T_join i (\<lambda>ok. if ok then k else T_fail POther)"

primrec t_join_all :: "nat list \<Rightarrow> ('v, 'e) thread \<Rightarrow> ('v, 'e) thread" where
  "t_join_all [] k = k"
| "t_join_all (i # is) k = t_join i (t_join_all is k)"

text \<open>\<^verbatim>\<open>(0..n).map(|i| rt.spawn(..)).collect()\<close> and the threads that such a list of addresses is mapped to.\<close>

primrec t_spawn_all ::
  "(('v, 'e) prog \<times> type_id \<times> 'v) list \<Rightarrow> (addr list \<Rightarrow> ('v, 'e) thread) \<Rightarrow> ('v, 'e) thread" where
  "t_spawn_all [] k = k []"
| "t_spawn_all (x # xs) k =
     T_spawn (fst x) (fst (snd x)) (snd (snd x)) (\<lambda>a. t_spawn_all xs (\<lambda>as. k (a # as)))"

primrec t_fork_all ::
  "('v, 'e) thread list \<Rightarrow> (nat list \<Rightarrow> ('v, 'e) thread) \<Rightarrow> ('v, 'e) thread" where
  "t_fork_all [] k = k []"
| "t_fork_all (t # ts) k = T_fork t (\<lambda>i. t_fork_all ts (\<lambda>is. k (i # is)))"

section \<open>Steps\<close>

record ('v, 'e) pool =
  pl_rt :: "('v, 'e) runtime"
  pl_threads :: "('v, 'e) thread list"

definition pool_start :: "('v, 'e) runtime \<Rightarrow> ('v, 'e) thread \<Rightarrow> ('v, 'e) pool" where
  "pool_start rt main = \<lparr>pl_rt = rt, pl_threads = [main]\<rparr>"

definition finished :: "('v, 'e) thread \<Rightarrow> bool" where
  "finished t \<longleftrightarrow> (case t of T_done \<Rightarrow> True | T_fail _ \<Rightarrow> True | _ \<Rightarrow> False)"

definition failed :: "('v, 'e) thread \<Rightarrow> bool" where
  "failed t \<longleftrightarrow> (case t of T_fail _ \<Rightarrow> True | _ \<Rightarrow> False)"

text \<open>
  One step of a thread: what it is then, the runtime, and the thread it started, if any. The
  argument \<open>ts\<close> are all threads. A callback \<^verbatim>\<open>started\<close> that waits is not resumed: the thread that
  spawns then counts as failed.
\<close>

fun thread_step ::
  "('v, 'e) thread list \<Rightarrow> ('v, 'e) thread \<Rightarrow> ('v, 'e) runtime \<Rightarrow>
   ('v, 'e) thread \<times> ('v, 'e) runtime \<times> ('v, 'e) thread list" where
  "thread_step ts T_done rt = (T_done, rt, [])"
| "thread_step ts (T_fail p) rt = (T_fail p, rt, [])"
| "thread_step ts (T_send a m k) rt =
     (case addr_send_begin a m (rt_world rt) of
        (Inl err, w) \<Rightarrow> (k (Inl err), rt\<lparr>rt_world := w\<rparr>, [])
      | (Inr r, w) \<Rightarrow> (T_await r k, rt\<lparr>rt_world := w\<rparr>, []))"
| "thread_step ts (T_await r k) rt =
     (case addr_send_result r (rt_world rt) of
        None \<Rightarrow> (T_await r k, rt, [])
      | Some res \<Rightarrow> (k res, rt, []))"
| "thread_step ts (T_do_send a m k) rt =
     (case addr_do_send a m (rt_world rt) of (r, w) \<Rightarrow> (k r, rt\<lparr>rt_world := w\<rparr>, []))"
| "thread_step ts (T_clone a k) rt =
     (case addr_clone a (rt_world rt) of (b, w) \<Rightarrow> (k b, rt\<lparr>rt_world := w\<rparr>, []))"
| "thread_step ts (T_drop a k) rt = (k, rt\<lparr>rt_world := addr_drop a (rt_world rt)\<rparr>, [])"
| "thread_step ts (T_lock f k) rt =
     (k (env (rt_world rt)), rt\<lparr>rt_world := (rt_world rt)\<lparr>env := f (env (rt_world rt))\<rparr>\<rparr>, [])"
| "thread_step ts (T_spawn st a v k) rt =
     (case rt_spawn_begin st a v rt of
        (Inl (Panicking p), rt') \<Rightarrow> (T_fail p, rt', [])
      | (Inl (Blocking q), rt') \<Rightarrow> (T_fail POther, rt', [])
      | (Inr t, rt') \<Rightarrow> (T_spawning t k, rt', []))"
| "thread_step ts (T_spawning t k) rt =
     (case rt_spawn_finish t rt of
        None \<Rightarrow> (T_spawning t k, rt, [])
      | Some (Inl (Panicking p), rt') \<Rightarrow> (T_fail p, rt', [])
      | Some (Inl (Blocking q), rt') \<Rightarrow> (T_fail POther, rt', [])
      | Some (Inr a, rt') \<Rightarrow> (k a, rt', []))"
| "thread_step ts (T_fork c k) rt = (k (length ts), rt, [c])"
| "thread_step ts (T_join i k) rt =
     (if i < length ts \<and> finished (ts ! i) then (k (case ts ! i of T_done \<Rightarrow> True | _ \<Rightarrow> False), rt, [])
      else (T_join i k, rt, []))"
| "thread_step ts (T_num_workers k) rt = (k (rt_num_workers rt), rt, [])"
| "thread_step ts (T_shutdown k) rt = (k, rt_shutdown rt, [])"
| "thread_step ts (T_join_workers k) rt =
     (case rt_join rt of
        None \<Rightarrow> (T_join_workers k, rt, [])
      | Some (Inl (Panicking p)) \<Rightarrow> (T_fail p, rt, [])
      | Some (Inl (Blocking q)) \<Rightarrow> (T_fail POther, rt, [])
      | Some (Inr _) \<Rightarrow> (k, rt, []))"
| "thread_step ts (T_drop_rt k) rt = (T_drop_wait k, rt_drop_begin rt, [])"
| "thread_step ts (T_drop_wait k) rt =
     (case rt_drop_end rt of None \<Rightarrow> (T_drop_wait k, rt, []) | Some _ \<Rightarrow> (k, rt, []))"

datatype action = Act_thread nat | Act_worker nat

definition pool_step ::
  "(actor_id list \<Rightarrow> actor_id list) \<Rightarrow> ('v, 'e) classes \<Rightarrow> action \<Rightarrow> ('v, 'e) pool \<Rightarrow> ('v, 'e) pool" where
  "pool_step order cls act pl =
     (case act of
        Act_thread i \<Rightarrow>
          (if i < length (pl_threads pl)
           then (case thread_step (pl_threads pl) (pl_threads pl ! i) (pl_rt pl) of
                   (t, rt, new) \<Rightarrow> \<lparr>pl_rt = rt, pl_threads = (pl_threads pl)[i := t] @ new\<rparr>)
           else pl)
      | Act_worker n \<Rightarrow>
          (if n < length (rt_workers (pl_rt pl)) then pl\<lparr>pl_rt := run_worker order cls n (pl_rt pl)\<rparr> else pl))"

primrec pool_run ::
  "(actor_id list \<Rightarrow> actor_id list) \<Rightarrow> ('v, 'e) classes \<Rightarrow> action list \<Rightarrow> ('v, 'e) pool \<Rightarrow> ('v, 'e) pool" where
  "pool_run order cls [] pl = pl"
| "pool_run order cls (act # acts) pl = pool_run order cls acts (pool_step order cls act pl)"

text \<open>What the main thread has come to: still going, returned, or panicked.\<close>

datatype verdict = Running | Passed | Failed

definition pool_verdict :: "('v, 'e) pool \<Rightarrow> verdict" where
  "pool_verdict pl =
     (case pl_threads pl ! 0 of T_done \<Rightarrow> Passed | T_fail _ \<Rightarrow> Failed | _ \<Rightarrow> Running)"

lemma pool_run_append: "pool_run order cls (xs @ ys) pl = pool_run order cls ys (pool_run order cls xs pl)"
  by (induction xs arbitrary: pl) simp_all

text \<open>The same equations on explicit states only, for evaluation.\<close>

lemma pool_run_eval [code]:
  "pool_run order cls [] pl = pl"
  "pool_run order cls (act # acts) \<lparr>pl_rt = rt, pl_threads = ts\<rparr> =
     pool_run order cls acts (pool_step order cls act \<lparr>pl_rt = rt, pl_threads = ts\<rparr>)"
  by simp_all

end
