(* ===== verification/Runtime_Calm.thy ===== *)
theory Runtime_Calm
  imports Runtime_Waits
begin

text \<open>
  A runtime that nobody shuts down stays up: as long as callbacks give back only the addresses they
  made (\<open>frugal\<close>) and \<^verbatim>\<open>stopped\<close> does not panic, no worker leaves its loop, no channel
  closes and every spawn is confirmed. And whatever happens, no worker thread unwinds.
\<close>

section \<open>Callbacks that do not panic\<close>

primrec never_panics :: "('v, 'e) prog \<Rightarrow> bool" where
  "never_panics (Return r) \<longleftrightarrow> True"
| "never_panics (Panic p) \<longleftrightarrow> False"
| "never_panics (SetSelf v k) \<longleftrightarrow> never_panics k"
| "never_panics (CtxId k) \<longleftrightarrow> (\<forall>i. never_panics (k i))"
| "never_panics (CtxStop k) \<longleftrightarrow> never_panics k"
| "never_panics (DoSend a m k) \<longleftrightarrow> (\<forall>r. never_panics (k r))"
| "never_panics (Notify a m k) \<longleftrightarrow> never_panics k"
| "never_panics (SendWait a m k) \<longleftrightarrow> (\<forall>r. never_panics (k r))"
| "never_panics (CloneAddr a k) \<longleftrightarrow> (\<forall>b. never_panics (k b))"
| "never_panics (DropAddr a k) \<longleftrightarrow> never_panics k"
| "never_panics (SpawnChild a v started k) \<longleftrightarrow> never_panics started \<and> (\<forall>b. never_panics (k b))"
| "never_panics (Shared f k) \<longleftrightarrow> (\<forall>e. never_panics (k e))"

lemma exec_returns:
  "never_waits p \<Longrightarrow> never_panics p \<Longrightarrow> ctx_spawn_shared ctx = Some sr \<Longrightarrow>
   exec p self ctx w = (res, self', ctx', w') \<Longrightarrow> \<exists>r. res = Inr r"
proof (induction p arbitrary: self ctx w res self' ctx' w' sr)
  case (SpawnChild a v started k)
  have st: "\<exists>r. res1 = Inr r" if "exec started v (context_with_spawner i n) w1 = (res1, v1, c1, w2)"
    for i n w1 res1 v1 c1 w2
    using SpawnChild.IH(1)[OF _ _ _ that] SpawnChild.prems(1,2) by simp
  obtain r1 w1 where s: "context_spawn (exec started) a v ctx w = (r1, w1)" by fastforce
  then have "\<exists>adr. r1 = Inr adr"
    using SpawnChild.prems(3)
    by (auto simp: context_spawn_def Let_def dest!: st split: prod.splits sum.splits)
  then obtain adr where "r1 = Inr adr" by blast
  with s SpawnChild.prems SpawnChild.IH(2)[OF rangeI, of adr ctx sr self w1 res self' ctx' w'] show ?case by simp
next
  case (CtxStop k)
  then show ?case using CtxStop.IH[of "context_stop ctx" sr] by simp
qed (auto split: prod.splits, (metis rangeI)+)

section \<open>Addresses given back\<close>

text \<open>\<open>own Q c\<close>: how many of the addresses \<open>Q\<close> hold a sender of channel \<open>c\<close>.\<close>

definition own :: "addr multiset \<Rightarrow> nat \<Rightarrow> nat" where
  "own Q c = size (filter_mset (\<lambda>a. addr_tx a = c) Q)"

lemma own_simps [simp]:
  "own {#} c = 0" "own (add_mset a Q) c = (if addr_tx a = c then Suc (own Q c) else own Q c)"
  "own (Q + P) c = own Q c + own P c"
  by (simp_all add: own_def)

lemma own_remove: "a \<in># Q \<Longrightarrow> own Q c = own (Q - {#a#}) c + (if addr_tx a = c then 1 else 0)"
  using own_simps(2)[of a "Q - {#a#}" c] by (auto simp del: own_simps)

abbreviation senders :: "('v, 'e) world \<Rightarrow> nat \<Rightarrow> nat" where
  "senders w c \<equiv> chan_senders (chan_at w c)"

text \<open>A callback that drops only addresses it cloned or got from a spawn, each at most once.\<close>

primrec frugal :: "('v, 'e) prog \<Rightarrow> addr multiset \<Rightarrow> bool" where
  "frugal (Return r) = (\<lambda>Q. True)"
| "frugal (Panic p) = (\<lambda>Q. True)"
| "frugal (SetSelf v k) = frugal k"
| "frugal (CtxId k) = (\<lambda>Q. \<forall>i. frugal (k i) Q)"
| "frugal (CtxStop k) = frugal k"
| "frugal (DoSend a m k) = (\<lambda>Q. \<forall>r. frugal (k r) Q)"
| "frugal (Notify a m k) = frugal k"
| "frugal (SendWait a m k) = (\<lambda>Q. \<forall>r. frugal (k r) Q)"
| "frugal (CloneAddr a k) = (\<lambda>Q. \<forall>b. frugal (k b) (add_mset b Q))"
| "frugal (DropAddr a k) = (\<lambda>Q. a \<in># Q \<and> frugal k (Q - {#a#}))"
| "frugal (SpawnChild a v started k) =
     (\<lambda>Q. frugal started {#} \<and> (\<forall>b. frugal (k b) (add_mset b Q)))"
| "frugal (Shared f k) = (\<lambda>Q. \<forall>e. frugal (k e) Q)"

lemma senders_tx_send: "senders (snd (tx_send c e w)) d = senders w d"
  by (simp add: tx_send_def)

lemma senders_ops [simp]:
  "senders (snd (addr_do_send a m w)) d = senders w d"
  "senders (snd (addr_send_begin a m w)) d = senders w d"
  "senders (snd (addr_clone a w)) d = senders w d + (if d = addr_tx a \<and> d < length (chans w) then 1 else 0)"
  "senders (addr_drop a w) d = senders w d - (if d = addr_tx a then 1 else 0)"
  "senders (snd (spawn_actor_direct i n act stop w)) d =
     senders w d + (if d = msg_txs (shared w) ! n \<and> d < length (chans w) then 1 else 0)"
proof -
  show "senders (snd (addr_do_send a m w)) d = senders w d"
    by (simp add: addr_do_send_def senders_tx_send)
  let ?e = "\<lparr>env_actor_id = addr_actor_id a, env_dispatch = SendFn (addr_type a) m (length (replies w))\<rparr>"
  let ?w = "w\<lparr>replies := replies w @ [Pending]\<rparr>"
  have "snd (addr_send_begin a m w) = snd (tx_send (addr_tx a) ?e ?w)"
    by (cases "tx_send (addr_tx a) ?e ?w") (simp add: addr_send_begin_def Let_def split: sum.split)
  then show "senders (snd (addr_send_begin a m w)) d = senders w d"
    by (simp add: senders_tx_send)
qed (auto simp: addr_clone_def addr_drop_def chan_clone_tx_def chan_drop_tx_def spawn_actor_direct_def Let_def chan_at_def
    upd_shared_def upd_chan_def chan_closed_def)

lemma senders_out: "\<not> d < length (chans w) \<Longrightarrow> senders w d = 0"
  by (simp add: chan_at_def chan_closed_def)

lemma exec_frugal:
  "frugal p Q \<Longrightarrow> exec p self ctx w = (res, self', ctx', w') \<Longrightarrow> senders w c \<le> senders w' c + own Q c"
proof (induction p arbitrary: Q self ctx w res self' ctx' w')
  case (DoSend a m k)
  obtain r w1 where d: "addr_do_send a m w = (r, w1)" by fastforce
  with DoSend.prems have "senders w1 c \<le> senders w' c + own Q c" by (intro DoSend.IH[OF rangeI]) auto
  with d show ?case using senders_ops(1)[of a m w c] by simp
next
  case (Notify a m k)
  from Notify.prems have "senders (context_notify a m w) c \<le> senders w' c + own Q c" by (intro Notify.IH) auto
  then show ?case by (simp add: context_notify_def)
next
  case (SendWait a m k)
  obtain r w1 where d: "addr_send_begin a m w = (r, w1)" by fastforce
  then have w1: "senders w1 c = senders w c" using senders_ops(2)[of a m w c] by simp
  show ?case
  proof (cases r)
    case (Inl err)
    with SendWait.prems d have "senders w1 c \<le> senders w' c + own Q c"
      by (intro SendWait.IH[OF rangeI, of "Inl err"]) (auto simp: context_send_begin_def)
    with w1 show ?thesis by simp
  next
    case (Inr q)
    with SendWait.prems d w1 show ?thesis by (auto simp: context_send_begin_def)
  qed
next
  case (CloneAddr a k)
  have e: "exec (k a) self ctx (snd (addr_clone a w)) = (res, self', ctx', w')"
    using CloneAddr.prems(2) addr_clone_simps(1)[of a w] by (simp add: case_prod_beta)
  have "senders (snd (addr_clone a w)) c \<le> senders w' c + own (add_mset a Q) c"
    by (rule CloneAddr.IH[OF rangeI _ e]) (use CloneAddr.prems(1) in simp)
  then show ?case using senders_out[of c w] by (cases "c < length (chans w)") (auto split: if_splits)
next
  case (DropAddr a k)
  from DropAddr.prems have "senders (addr_drop a w) c \<le> senders w' c + own (Q - {#a#}) c"
    by (intro DropAddr.IH) simp_all
  moreover have "own Q c = own (Q - {#a#}) c + (if addr_tx a = c then 1 else 0)"
    using DropAddr.prems(1) by (intro own_remove) simp
  ultimately show ?case by (auto split: if_splits)
next
  case (SpawnChild a v started k)
  obtain r1 w1 where s: "context_spawn (exec started) a v ctx w = (r1, w1)" by fastforce
  have st: "senders w0 c \<le> senders w2 c"
    if "exec started v ctx0 w0 = (res1, v1, c1, w2)" for ctx0 w0 res1 v1 c1 w2
    using SpawnChild.IH(1)[OF _ that, of "{#}"] SpawnChild.prems(1) by simp
  have al: "senders (log_event ev (snd (allocate_id w))) c = senders w c" for ev by simp
  show ?case
  proof (cases r1)
    case (Inl f)
    then have "senders w c \<le> senders w1 c"
      using s by (auto simp: context_spawn_def Let_def case_prod_beta al[symmetric] dest!: st split: option.splits sum.splits)
        (metis al prod.collapse st)
    with SpawnChild.prems(2) s Inl show ?thesis by simp
  next
    case (Inr adr)
    obtain i v1 w2 where c: "senders w c \<le> senders w2 c" "adr = addr_new i (msg_txs (shared w2) ! ctx_worker_idx ctx) a"
      "w1 = snd (spawn_actor_direct i (ctx_worker_idx ctx) \<lparr>any_type = a, any_val = v1\<rparr> (OnStopFn a) w2)"
      using s Inr
      by (auto simp: context_spawn_def Let_def case_prod_beta split: option.splits sum.splits)
        (metis al prod.collapse st)
    have "senders w1 c \<le> senders w' c + own (add_mset adr Q) c"
      by (rule SpawnChild.IH(2)[OF rangeI]) (use SpawnChild.prems s Inr in simp_all)
    with c show ?thesis using senders_out[of c w2] by (cases "c < length (chans w2)") (auto split: if_splits)
  qed
next
  case (CtxId k)
  then show ?case by (intro CtxId.IH[OF rangeI]) auto
next
  case (Shared f k)
  from Shared.prems have "senders (w\<lparr>env := f (env w)\<rparr>) c \<le> senders w' c + own Q c"
    by (intro Shared.IH[OF rangeI]) auto
  then show ?case by simp
qed auto

section \<open>Classes of actors\<close>

text \<open>What a program must promise about its callbacks so that its workers stay up.\<close>

definition steady :: "('v, 'e) classes \<Rightarrow> bool" where
  "steady cls \<longleftrightarrow> waitless cls
   \<and> (\<forall>a v. never_panics (cls_stopped (cls a) v) \<and> frugal (cls_stopped (cls a) v) {#})
   \<and> (\<forall>a v m. frugal (cls_handle (cls a) v m) {#})"

lemma steady_waitless: "steady cls \<Longrightarrow> waitless cls"
  by (simp add: steady_def)

text \<open>What a callback leaves as it is, and that it takes no sender away.\<close>

definition kept :: "('v, 'e) world \<Rightarrow> ('v, 'e) world \<Rightarrow> bool" where
  "kept w w' \<longleftrightarrow>
     control_txs (shared w') = control_txs (shared w) \<and> confirms w' = confirms w
   \<and> msg_txs (shared w') = msg_txs (shared w) \<and> length (chans w') = length (chans w)
   \<and> (\<forall>c. chan_open (chan_at w' c) = chan_open (chan_at w c) \<and> senders w c \<le> senders w' c)"

lemma kept_refl [simp]: "kept w w"
  by (simp add: kept_def)

lemma kept_trans: "kept w w' \<Longrightarrow> kept w' w'' \<Longrightarrow> kept w w''"
  by (fastforce simp: kept_def intro: order.trans)

lemma kept_frame:
  assumes "chans w' = chans w" and "confirms w' = confirms w"
    and "control_txs (shared w') = control_txs (shared w)" and "msg_txs (shared w') = msg_txs (shared w)"
  shows "kept w w'"
  using assms chan_at_cong[OF assms(1)] by (simp add: kept_def)

lemma exec_kept:
  assumes "frugal p {#}" and "exec p self ctx w = (res, self', ctx', w')"
  shows "kept w w'"
  using exec_frugal[OF assms] exec_infra[OF assms(2)] exec_comm[OF assms(2)]
  by (simp add: kept_def infra_def comm_ext_def)

lemma call_dispatch_kept:
  assumes "call_dispatch cls f act ctx w = (res, act', ctx', w')" and "steady cls"
  shows "kept w w'"
proof -
  have h: "kept w w1" if "call_handle cls a msg act ctx w = (res1, act1, ctx1, w1)" for a msg res1 act1 ctx1 w1
    using that
  proof (cases rule: call_handle_E)
    case (Handled v')
    have "kept (log_event (EvHandled (context_id ctx) msg) w) w1"
      using assms(2) Handled(3) by (intro exec_kept) (auto simp: steady_def)
    from kept_trans[OF kept_frame this] show ?thesis by simp
  qed simp
  have f: "kept w1 (reply_send r v w1)" "kept w1 (reply_drop r w1)" for r v and w1 :: "('a, 'b) world"
    by (rule kept_frame; simp)+
  show ?thesis
  proof (cases f)
    case (OnStopFn a)
    have "kept w w1" if "exec (cls_stopped (cls a) v) v ctx (log_event ev w) = (res1, v1, ctx1, w1)" for v ev res1 v1 ctx1 w1
    proof -
      have "kept (log_event ev w) w1" using assms(2) that by (intro exec_kept) (auto simp: steady_def)
      from kept_trans[OF kept_frame this] show ?thesis by simp
    qed
    with OnStopFn assms(1) show ?thesis
      by (auto simp: call_dispatch_def split: if_splits prod.splits sum.splits)
  qed (use assms(1) in \<open>auto simp: call_dispatch_def dest!: h intro: kept_trans[OF _ f(1)] kept_trans[OF _ f(2)]
      split: prod.splits sum.splits fault.splits\<close>)
qed

text \<open>\<^verbatim>\<open>stopped\<close> returns.\<close>

lemma call_stop_returns:
  assumes "call_dispatch cls (OnStopFn a) act (context_with_spawner i n) w = (res, act', ctx', w')" and "steady cls"
  shows "res = Inr ()"
proof -
  have s: False
    if "exec (cls_stopped (cls b) v) v (context_with_spawner i n) w1 = (Inl f, v1, c1, w2)" for b v w1 f v1 c1 w2
    using exec_returns[OF _ _ _ that] assms(2) by (simp add: steady_def waitless_def)
  from assms(1) show ?thesis
    by (auto simp: call_dispatch_def dest!: s split: if_splits prod.splits sum.splits)
qed

lemma stop_cell_steady:
  assumes "stop_cell cls i cell wk w = (r, wk', w')" and "steady cls" and "cell_ok cell"
  shows "r = Inr () \<and> kept w w' \<and> wk_place wk' = wk_place wk \<and> worker_idx wk' = worker_idx wk"
proof -
  obtain res act' ctx' w1 where d: "call_dispatch cls (on_stop cell) (actor cell)
      (context_with_spawner i (worker_idx wk)) w = (res, act', ctx', w1)" by (metis prod_cases4)
  have "res = Inr ()" using call_stop_returns[OF _ assms(2)] d assms(3) by (simp add: cell_ok_def)
  with assms(1) d have "r = Inr ()" "(wk', w') = forget_actor i wk w1" by (simp_all add: stop_cell_def)
  moreover have "kept w1 (drop_envelopes es w1)" for es by (rule kept_frame) simp_all
  ultimately show ?thesis
    using kept_trans[OF call_dispatch_kept[OF d assms(2)]] by (simp add: forget_actor_def)
qed

lemma shared_remove_steady:
  assumes "shared_remove_actor i n w = (co, w1)"
  shows "kept w w1"
  using assms shared_remove_simps[of i n w] by (intro kept_frame) auto

lemma worker_dispatch_steady:
  assumes r: "worker_dispatch cls e wk w = (r, wk', w')" and st: "steady cls"
    and core: "wk_core cur (queue_replies [e] + held) wk w"
  shows "r = Inr () \<and> kept w w' \<and> wk_place wk' = wk_place wk \<and> worker_idx wk' = worker_idx wk"
proof -
  have nb: "\<forall>q. r \<noteq> Inl (Blocking q)"
    using worker_dispatch_waitless[OF _ steady_waitless[OF st]] r by (cases r) force+
  have ok: "cell_ok (cell\<lparr>actor := act'\<rparr>)"
    if "shared_remove_actor (env_actor_id e) (worker_idx wk) w = (Some cell, w1)"
      "call_dispatch cls (env_dispatch e) (actor cell) ctx w1 = (res, act', ctx', w2)" for cell w1 ctx res act' ctx' w2
    using wk_core_map_removeD[OF core that(1)] call_dispatch_type[OF that(2)] by (intro cell_ok_actor) auto
  have l: "kept w1 (log_event ev w1)" for ev and w1 :: "('a, 'b) world" by (rule kept_frame) simp_all
  from r show ?thesis
  proof (cases rule: worker_dispatch_E)
    case (Absent w1)
    have "kept w1 (drop_envelope e w1)" by (rule kept_frame) simp_all
    with Absent shared_remove_steady[OF Absent(1)] show ?thesis by (auto intro: kept_trans)
  next
    case (Kept cell w1 act' ctx' w2)
    have "kept w2 (map_insert wk (env_actor_id e) (cell\<lparr>actor := act'\<rparr>) w2)" by (rule kept_frame) simp_all
    with Kept shared_remove_steady[OF Kept(1)] call_dispatch_kept[OF Kept(2) st] show ?thesis
      by (auto intro: kept_trans)
  next
    case (Stopped cell w1 act' ctx' w2)
    with stop_cell_steady[OF Stopped(4) st ok[OF Stopped(1,2)]] shared_remove_steady[OF Stopped(1)]
      call_dispatch_kept[OF Stopped(2) st] show ?thesis by (blast intro: kept_trans)
  next
    case (Panicked cell w1 p act' ctx' w2)
    with stop_cell_steady[OF Panicked(3) st ok[OF Panicked(1,2)]] shared_remove_steady[OF Panicked(1)]
      call_dispatch_kept[OF Panicked(2) st] show ?thesis by (blast intro: kept_trans l)
  next
    case (Blocked q)
    with nb show ?thesis by blast
  qed
qed

section \<open>A worker's step\<close>

definition working :: "'v worker \<Rightarrow> bool" where
  "working wk \<longleftrightarrow> wk_place wk \<in> {At_control, At_drain, At_schedule, At_recv}"

text \<open>What a worker that works on changes: its control queue gets shorter, a spawn is confirmed.\<close>

definition calm_step :: "'v worker \<Rightarrow> ('v, 'e) world \<Rightarrow> ('v, 'e) world \<Rightarrow> bool" where
  "calm_step wk w w' \<longleftrightarrow>
     msg_txs (shared w') = msg_txs (shared w) \<and> length (chans w') = length (chans w)
   \<and> (\<forall>c. chan_open (chan_at w' c) = chan_open (chan_at w c) \<and> senders w c \<le> senders w' c)
   \<and> (\<exists>q. control_txs (shared w') = (control_txs (shared w))[worker_idx wk := (wk_control wk w)\<lparr>chan_queue := q\<rparr>]
          \<and> set q \<subseteq> set (chan_queue (wk_control wk w)))
   \<and> (confirms w' = confirms w \<or> (\<exists>k. confirms w' = (confirms w)[k := Replied ()]))"

lemma calm_step_kept:
  assumes "kept w w'"
  shows "calm_step wk w w'"
proof -
  have "control_txs (shared w') = (control_txs (shared w))[worker_idx wk :=
      (wk_control wk w)\<lparr>chan_queue := chan_queue (wk_control wk w)\<rparr>]"
    using assms by (simp add: kept_def wk_control_def)
  with assms show ?thesis unfolding calm_step_def kept_def by blast
qed

lemma calm_step_own:
  assumes "shared w' = shared w" and "confirms w' = confirms w" and "length (chans w') = length (chans w)"
    and "\<And>c. chan_open (chan_at w' c) = chan_open (chan_at w c) \<and> senders w' c = senders w c"
  shows "calm_step wk w w'"
  using assms by (intro calm_step_kept) (simp add: kept_def)

lemma calm_step_control:
  assumes "shared w' = (shared w)\<lparr>control_txs := (control_txs (shared w))[worker_idx wk := (wk_control wk w)\<lparr>chan_queue := q\<rparr>],
      actor_maps := ms\<rparr>"
    and "set q \<subseteq> set (chan_queue (wk_control wk w))" and "chans w' = chans w"
    and "confirms w' = confirms w \<or> (\<exists>k. confirms w' = (confirms w)[k := Replied ()])"
  shows "calm_step wk w w'"
  using assms chan_at_cong[OF assms(3)] by (auto simp: calm_step_def)

lemma step_control_calm:
  assumes r: "step_control wk w = (wk', w')" and pl: "wk_place wk = At_control"
    and nt: "Shutdown \<notin> set (chan_queue (wk_control wk w))"
  shows "working wk' \<and> worker_idx wk' = worker_idx wk \<and> calm_step wk w w'"
proof (cases "chan_queue (wk_control wk w)")
  case Nil
  then have "wk' = wk\<lparr>wk_place := At_drain\<rparr>" "w' = w"
    using r control_same[of wk w] by (auto simp: step_control_def chan_try_recv_simps split: if_splits)
  then show ?thesis by (simp add: working_def calm_step_kept)
next
  case (Cons m q)
  with nt obtain i act stop k where m: "m = SpawnActor i act stop k" by (cases m) auto
  let ?c = "(wk_control wk w)\<lparr>chan_queue := q\<rparr>"
  have w': "wk' = wk" "w' = confirm_send k (map_insert wk i \<lparr>actor = act, on_stop = stop\<rparr> (set_control wk ?c w))"
    using r[symmetric] by (simp_all add: step_control_def chan_try_recv_simps(1)[OF Cons] m)
  have "calm_step wk w w'"
    unfolding w' by (rule calm_step_control[where q = q and ms = "(actor_maps (shared w))[worker_idx wk :=
        hm_insert i \<lparr>actor = act, on_stop = stop\<rparr> (actor_maps (shared w) ! worker_idx wk)]"])
      (auto simp: Cons confirm_send_def)
  with w' pl show ?thesis by (simp add: working_def)
qed

lemma chan_take_calm:
  assumes "chan_try_recv (chan_at w d) = (r, c)"
  shows "calm_step wk w (upd_chan d (\<lambda>_. c) w)"
proof -
  have "chan_open c = chan_open (chan_at w d) \<and> chan_senders c = chan_senders (chan_at w d)"
    using assms by (auto simp: chan_try_recv_def split: list.splits)
  then show ?thesis by (intro calm_step_own) auto
qed

lemma step_drain_calm:
  assumes "step_drain wk w = (wk', w')" and "wk_place wk = At_drain"
  shows "working wk' \<and> worker_idx wk' = worker_idx wk \<and> calm_step wk w w'"
proof -
  obtain r c where t: "chan_try_recv (chan_at w (wk_chan wk w)) = (r, c)" by fastforce
  with assms chan_take_calm[OF t, of wk] show ?thesis
    by (cases r) (auto simp: step_drain_def working_def)
qed

lemma step_recv_calm:
  assumes "step_recv wk w = (wk', w')" and "wk_place wk = At_recv" and "senders w (wk_chan wk w) > 0"
  shows "working wk' \<and> worker_idx wk' = worker_idx wk \<and> calm_step wk w w'"
proof -
  obtain r c where t: "chan_try_recv (chan_at w (wk_chan wk w)) = (r, c)" by fastforce
  then have "r \<noteq> Disconnected" using assms(3) by (auto simp: chan_try_recv_def split: list.splits)
  with t assms chan_take_calm[OF t, of wk] show ?thesis
    by (cases r) (auto simp: step_recv_def working_def)
qed

lemma step_schedule_calm:
  assumes r: "step_schedule cls wk w = (wk', w')" and st: "steady cls" and pl: "wk_place wk = At_schedule"
    and core: "wk_core None held wk w"
  shows "working wk' \<and> worker_idx wk' = worker_idx wk \<and> calm_step wk w w'"
proof (cases "ready_queue (wk_scheduler wk)")
  case Nil
  with r show ?thesis by (auto simp: step_schedule_def next_ready_Nil working_def calm_step_kept)
next
  case (Cons i q)
  obtain e s1 s2 where n: "next_ready (wk_scheduler wk) = (Some i, s1)" and d: "dequeue i s1 = (Some e, s2)"
    and c2: "wk_core (Some i) (queue_replies [e] + held) (wk\<lparr>wk_scheduler := s2\<rparr>) w"
    by (rule wk_core_take[OF core Cons]) (rule that; assumption)
  obtain res wk1 w1 where ds: "worker_dispatch cls e (wk\<lparr>wk_scheduler := s2\<rparr>) w = (res, wk1, w1)" by (metis prod_cases3)
  note s = worker_dispatch_steady[OF ds st c2]
  with r n d ds have "wk' = wk1\<lparr>wk_scheduler := requeue_if_ready i (wk_scheduler wk1), wk_place := At_control\<rparr>" "w' = w1"
    by (auto simp: step_schedule_def end_step_def)
  with s show ?thesis by (simp add: working_def calm_step_kept)
qed

lemma worker_step_calm:
  assumes r: "worker_step order cls wk w = (wk', w')" and st: "steady cls" and core: "wk_core None held wk w"
    and wk: "working wk" and nt: "Shutdown \<notin> set (chan_queue (wk_control wk w))"
    and se: "senders w (wk_chan wk w) > 0"
  shows "working wk' \<and> worker_idx wk' = worker_idx wk \<and> calm_step wk w w'"
proof (cases "wk_place wk")
  case At_control
  with step_control_calm[of wk w wk' w'] r nt show ?thesis by (simp add: worker_step_def)
next
  case At_drain
  with step_drain_calm[of wk w wk' w'] r show ?thesis by (simp add: worker_step_def)
next
  case At_schedule
  with step_schedule_calm[of cls wk w wk' w'] r st core show ?thesis by (simp add: worker_step_def)
next
  case At_recv
  with step_recv_calm[of wk w wk' w'] r se show ?thesis by (simp add: worker_step_def)
qed (use wk in \<open>auto simp: working_def\<close>)

section \<open>No worker thread unwinds\<close>

definition unwound :: "'v worker \<Rightarrow> bool" where
  "unwound wk \<longleftrightarrow> (case wk_place wk of Unwound_by _ \<Rightarrow> True | _ \<Rightarrow> False)"

lemma worker_remove_steady:
  assumes "worker_remove_actor cls i wk w = (r, wk', w')" and "steady cls" and "wk_core cur held wk w"
  shows "r = Inr () \<and> wk_core cur held wk' w'"
proof -
  obtain co w1 where s: "shared_remove_actor i (worker_idx wk) w = (co, w1)" by fastforce
  note c = wk_core_map_removeD[OF assms(3) s]
  have "r = Inr ()"
  proof (cases co)
    case None
    with assms(1) s show ?thesis by (simp add: worker_remove_actor_def)
  next
    case (Some cell)
    with assms(1) s have "stop_cell cls i cell wk w1 = (r, wk', w')" by (simp add: worker_remove_actor_def)
    with stop_cell_steady[OF _ assms(2)] c Some show ?thesis by blast
  qed
  with wk_core_remove_actor[OF assms(3,1)] show ?thesis by simp
qed

lemma worker_remove_all_steady:
  "worker_remove_all cls is wk w = (r, wk', w') \<Longrightarrow> steady cls \<Longrightarrow> wk_core cur held wk w \<Longrightarrow> r = Inr ()"
proof (induction "is" arbitrary: wk w)
  case (Cons i "is")
  obtain r1 wk1 w1 where d: "worker_remove_actor cls i wk w = (r1, wk1, w1)" by (metis prod_cases3)
  with worker_remove_steady[OF d Cons.prems(2,3)] Cons.prems Cons.IH[of wk1 w1] show ?case by simp
qed simp

lemma worker_step_not_unwound:
  assumes r: "worker_step order cls wk w = (wk', w')" and st: "steady cls" and core: "wk_core None held wk w"
    and nu: "\<not> unwound wk"
  shows "\<not> unwound wk'"
proof (cases "wk_place wk")
  case Stopping
  obtain res wk1 w1 where d: "worker_stop_all order cls wk w = (res, wk1, w1)" by (metis prod_cases3)
  have "res = Inr ()" by (rule worker_remove_all_steady[OF d[unfolded worker_stop_all_def] st core])
  with r d Stopping have "worker_end Exited wk1 w1 = (wk', w')" by (simp add: worker_step_def step_stop_def)
  from worker_end_frame(3)[OF this] show ?thesis by (simp add: unwound_def)
next
  case At_schedule
  with step_schedule_calm[OF _ st At_schedule core, of wk' w'] r show ?thesis
    by (auto simp: worker_step_def unwound_def working_def)
qed (use r nu in \<open>auto simp: worker_step_def step_control_def step_drain_def step_recv_def unwound_def
    split: recv.splits prod.splits control_msg.splits\<close>)

end
