(* ===== verification/Threads_Safe.thy ===== *)
theory Threads_Safe
  imports Threads Runtime_Calm
begin

text \<open>
  Programs of threads that cannot fail. \<open>tame\<close> is a check on the text of a thread: it spawns only
  while the runtime is up, gives back only addresses it holds, never panics itself, and only the
  main thread stops the runtime. Under every schedule no thread of such a program panics, and no
  worker does (\<open>pool_never_fails\<close>).
\<close>

section \<open>The check\<close>

text \<open>
  The main thread before and after it has begun to stop the runtime, and every other thread. The
  multiset holds the addresses the thread may drop; a thread that it starts takes some of them.
\<close>

datatype mode = Up | Down | Helper

primrec tame :: "('v, 'e) thread \<Rightarrow> mode \<Rightarrow> addr multiset \<Rightarrow> bool" where
  "tame T_done = (\<lambda>md Q. True)"
| "tame (T_fail p) = (\<lambda>md Q. False)"
| "tame (T_send a m k) = (\<lambda>md Q. \<forall>r. tame (k r) md Q)"
| "tame (T_await q k) = (\<lambda>md Q. \<forall>r. tame (k r) md Q)"
| "tame (T_do_send a m k) = (\<lambda>md Q. \<forall>r. tame (k r) md Q)"
| "tame (T_clone a k) = (\<lambda>md Q. \<forall>b. tame (k b) md (add_mset b Q))"
| "tame (T_drop a k) = (\<lambda>md Q. a \<in># Q \<and> tame k md (Q - {#a#}))"
| "tame (T_lock f k) = (\<lambda>md Q. \<forall>e. tame (k e) md Q)"
| "tame (T_spawn st a v k) = (\<lambda>md Q. md = Up \<and> never_waits st \<and> never_panics st \<and> frugal st {#}
     \<and> (\<forall>b. tame (k b) md (add_mset b Q)))"
| "tame (T_spawning t k) = (\<lambda>md Q. False)"
| "tame (T_fork c k) = (\<lambda>md Q. \<exists>P. P \<subseteq># Q \<and> tame c Helper P \<and> (\<forall>i. tame (k i) md (Q - P)))"
| "tame (T_join i k) = (\<lambda>md Q. tame (k True) md Q)"
| "tame (T_num_workers k) = (\<lambda>md Q. \<forall>n. tame (k n) md Q)"
| "tame (T_shutdown k) = (\<lambda>md Q. md \<noteq> Helper \<and> tame k Down Q)"
| "tame (T_join_workers k) = (\<lambda>md Q. md \<noteq> Helper \<and> tame k Down Q)"
| "tame (T_drop_rt k) = (\<lambda>md Q. md \<noteq> Helper \<and> tame k Down Q)"
| "tame (T_drop_wait k) = (\<lambda>md Q. md \<noteq> Helper \<and> tame k Down Q)"

lemma tame_not_fail: "tame t md Q \<Longrightarrow> t \<noteq> T_fail p"
  by auto

section \<open>A runtime that is up\<close>

definition calm :: "('v, 'e) runtime \<Rightarrow> addr multiset \<Rightarrow> bool" where
  "calm rt Q \<longleftrightarrow> (let w = rt_world rt in
     (\<forall>n < length (rt_workers rt). working (rt_workers rt ! n)
        \<and> Shutdown \<notin> set (chan_queue (control_txs (shared w) ! n)) \<and> chan_open (control_txs (shared w) ! n)
        \<and> chan_open (chan_at w n) \<and> Suc (own Q n) \<le> senders w n)
   \<and> (\<forall>c \<in> set (confirms w). c \<noteq> Dropped))"

lemma calm_more:
  assumes "calm rt Q" and "control_txs (shared w') = control_txs (shared (rt_world rt))"
    and "confirms w' = confirms (rt_world rt)"
    and "\<And>n. chan_open (chan_at w' n) = chan_open (chan_at (rt_world rt) n)"
    and "\<And>n. n < length (rt_workers rt) \<Longrightarrow> senders (rt_world rt) n + own P n \<le> senders w' n + own Q n"
  shows "calm (rt\<lparr>rt_world := w'\<rparr>) P"
  using assms(1,2,3,4) assms(5) by (fastforce simp: calm_def Let_def)

lemma calm_new:
  assumes "rt_with_threads n e = Inr rt"
  shows "calm rt {#}"
  using assms by (auto simp: rt_with_threads_def calm_def Let_def working_def worker_new_def chan_new_def chan_at_def
      split: if_splits)

lemma calm_work:
  assumes calm: "calm rt Q" and st: "steady cls" and inv: "rt_comm rt" and n: "n < length (rt_workers rt)"
  shows "calm (run_worker order cls n rt) Q"
    and "length (confirms (rt_world (run_worker order cls n rt))) = length (confirms (rt_world rt))"
proof -
  let ?wk = "rt_workers rt ! n" and ?w = "rt_world rt"
  obtain wk w where s: "worker_step order cls ?wk ?w = (wk, w)" by fastforce
  obtain rest where "held_by (rt_workers rt) = mailbox_replies (wk_scheduler ?wk) + rest"
    using held_by_member[OF n] by metis
  then have core: "wk_core None rest ?wk ?w"
    using rt_comm_worker[OF inv n] by (simp add: wk_inv_def)
  have sh: "worker_idx ?wk = n" "wk_chan ?wk ?w = n" "wk_control ?wk ?w = control_txs (shared ?w) ! n"
    "length (control_txs (shared ?w)) = length (rt_workers rt)" "length (chans ?w) = length (rt_workers rt)"
    using inv n by (simp_all add: rt_comm_def rt_shape_def Let_def wk_chan_def wk_control_def)
  have c: "working ?wk" "Shutdown \<notin> set (chan_queue (wk_control ?wk ?w))" "senders ?w (wk_chan ?wk ?w) > 0"
    using calm n sh by (auto simp: calm_def Let_def)
  from worker_step_calm[OF s st core c] have w: "working wk" "calm_step ?wk ?w w" by simp_all
  then obtain q where q: "control_txs (shared w) = (control_txs (shared ?w))[n := (control_txs (shared ?w) ! n)\<lparr>chan_queue := q\<rparr>]"
    "set q \<subseteq> set (chan_queue (control_txs (shared ?w) ! n))"
    using sh by (auto simp: calm_step_def)
  have conf: "\<forall>x \<in> set (confirms w). x \<noteq> Dropped"
    using w(2) calm set_update_subset_insert[of "confirms ?w"]
    by (fastforce simp: calm_step_def calm_def Let_def)
  have "working ((rt_workers rt)[n := wk] ! m)
      \<and> Shutdown \<notin> set (chan_queue (control_txs (shared w) ! m)) \<and> chan_open (control_txs (shared w) ! m)
      \<and> chan_open (chan_at w m) \<and> Suc (own Q m) \<le> senders w m" if m: "m < length (rt_workers rt)" for m
  proof -
    have old: "working (rt_workers rt ! m)" "Shutdown \<notin> set (chan_queue (control_txs (shared ?w) ! m))"
      "chan_open (control_txs (shared ?w) ! m)" "chan_open (chan_at ?w m)" "Suc (own Q m) \<le> senders ?w m"
      using calm m by (simp_all add: calm_def Let_def)
    have "senders ?w m \<le> senders w m" "chan_open (chan_at w m) = chan_open (chan_at ?w m)"
      using w(2) by (simp_all add: calm_step_def)
    with old q w(1) m sh(4) show ?thesis by (cases "m = n") auto
  qed
  with conf show "calm (run_worker order cls n rt) Q" by (simp add: run_worker_eq[OF s] calm_def Let_def)
  show "length (confirms (rt_world (run_worker order cls n rt))) = length (confirms (rt_world rt))"
    using w(2) by (auto simp: run_worker_eq[OF s] calm_step_def)
qed

lemma calm_spawn_begin:
  assumes calm: "calm rt Q" and inv: "rt_comm rt" and r: "rt_spawn_begin st a v rt = (r, rt')"
    and st: "never_waits st" "never_panics st" "frugal st {#}"
  shows "\<exists>t. r = Inr t \<and> calm rt' Q \<and> tk_confirm t < length (confirms (rt_world rt')) \<and> rt_workers rt' = rt_workers rt"
proof -
  let ?w = "rt_world rt"
  obtain i w1 where al: "allocate_id ?w = (i, w1)" by fastforce
  obtain idx w2 where pk: "pick_worker w1 = (idx, w2)" by fastforce
  obtain res v' ctx' w3 where x: "exec st v (context_with_spawner i idx) (log_event (EvStarted i a) w2) = (res, v', ctx', w3)"
    by (metis prod_cases4)
  obtain u where res: "res = Inr u" using exec_returns[OF st(1,2) _ x] by auto
  have f1: "chans w1 = chans ?w" "confirms w1 = confirms ?w" "control_txs (shared w1) = control_txs (shared ?w)"
    "msg_txs (shared w1) = msg_txs (shared ?w)" "num_workers (shared w1) = num_workers (shared ?w)"
    using allocate_id_simps[of ?w] al by simp_all
  have f2: "chans w2 = chans w1" "confirms w2 = confirms w1" "control_txs (shared w2) = control_txs (shared w1)"
    "msg_txs (shared w2) = msg_txs (shared w1)"
    and idx: "idx = unat (next_worker (shared w1)) mod num_workers (shared w1)"
    using pick_worker_simps[of w1] pk by simp_all
  have "kept ?w (log_event (EvStarted i a) w2)" by (rule kept_frame) (simp_all add: f1 f2)
  from kept_trans[OF this exec_kept[OF st(3) x]] have k: "kept ?w w3" .
  have n: "num_workers (shared ?w) = length (rt_workers rt)" "length (rt_workers rt) > 0"
    "length (control_txs (shared ?w)) = length (rt_workers rt)"
    using inv by (simp_all add: rt_comm_def rt_shape_def Let_def)
  have il: "idx < length (rt_workers rt)" using idx n f1(5) by simp
  have op: "chan_open (control_txs (shared w3) ! idx)" using k calm il by (simp add: kept_def calm_def Let_def)
  let ?k = "length (confirms w3)"
  let ?act = "\<lparr>any_type = a, any_val = v'\<rparr>"
  define w4 where "w4 = upd_shared (\<lambda>s. s\<lparr>control_txs := (control_txs s)[idx := snd (chan_send
      (SpawnActor i ?act (OnStopFn a) ?k) (control_txs (shared w3) ! idx))]\<rparr>) (w3\<lparr>confirms := confirms w3 @ [Pending]\<rparr>)"
  have "spawn_remote_begin i idx ?act (OnStopFn a) w3 = (Inr ?k, w4)"
    using op by (simp add: spawn_remote_begin_def Let_def w4_def)
  then have r': "r = Inr \<lparr>tk_id = i, tk_worker = idx, tk_type = a, tk_confirm = ?k\<rparr>" "rt' = rt\<lparr>rt_world := w4\<rparr>"
    using r by (simp_all add: rt_spawn_begin_def al pk x res)
  have "calm (rt\<lparr>rt_world := w4\<rparr>) Q"
    unfolding calm_def Let_def
  proof (intro conjI allI impI)
    fix m
    assume m: "m < length (rt_workers (rt\<lparr>rt_world := w4\<rparr>))"
    have old: "working (rt_workers rt ! m)" "Shutdown \<notin> set (chan_queue (control_txs (shared ?w) ! m))"
      "chan_open (control_txs (shared ?w) ! m)" "chan_open (chan_at ?w m)" "Suc (own Q m) \<le> senders ?w m"
      using calm m by (simp_all add: calm_def Let_def)
    have k': "control_txs (shared w3) = control_txs (shared ?w)" "chan_open (chan_at w3 m) = chan_open (chan_at ?w m)"
      "senders ?w m \<le> senders w3 m" using k by (simp_all add: kept_def)
    show "working (rt_workers (rt\<lparr>rt_world := w4\<rparr>) ! m)" using old by simp
    show "Shutdown \<notin> set (chan_queue (control_txs (shared (rt_world (rt\<lparr>rt_world := w4\<rparr>))) ! m))"
      and "chan_open (control_txs (shared (rt_world (rt\<lparr>rt_world := w4\<rparr>))) ! m)"
      using old m k' n(3) by (auto simp: w4_def nth_list_update_lt)
    show "chan_open (chan_at (rt_world (rt\<lparr>rt_world := w4\<rparr>)) m)" using old k' by (simp add: w4_def)
    show "Suc (own Q m) \<le> senders (rt_world (rt\<lparr>rt_world := w4\<rparr>)) m" using old k' by (simp add: w4_def)
  next
    show "\<forall>c \<in> set (confirms (rt_world (rt\<lparr>rt_world := w4\<rparr>))). c \<noteq> Dropped"
      using calm k by (auto simp: w4_def calm_def kept_def Let_def)
  qed
  with r' show ?thesis by (auto simp: w4_def)
qed

lemma calm_spawn_finish:
  assumes calm: "calm rt Q" and inv: "rt_comm rt" and r: "rt_spawn_finish t rt = Some (r, rt')"
    and k: "tk_confirm t < length (confirms (rt_world rt))"
  shows "\<exists>a. r = Inr a \<and> calm rt' (add_mset a Q) \<and> rt_workers rt' = rt_workers rt"
proof -
  let ?w = "rt_world rt" and ?c = "msg_txs (shared (rt_world rt)) ! tk_worker t"
  have "confirms ?w ! tk_confirm t \<noteq> Dropped" using calm k by (simp add: calm_def Let_def)
  then have r': "r = Inr (addr_new (tk_id t) ?c (tk_type t))" "rt' = rt\<lparr>rt_world := upd_chan ?c chan_clone_tx ?w\<rparr>"
    using r by (auto simp: rt_spawn_finish_def spawn_remote_result_def Let_def split: reply.splits)
  have l: "length (chans ?w) = length (rt_workers rt)" using inv by (simp add: rt_comm_def rt_shape_def Let_def)
  have "calm rt' (add_mset (addr_new (tk_id t) ?c (tk_type t)) Q)"
    unfolding r'(2) by (rule calm_more[OF calm]) (auto simp: chan_clone_tx_def l)
  with r' show ?thesis by simp
qed

section \<open>One step of one thread\<close>

text \<open>A thread on its way: as in its text, or waiting for the confirmation of a spawn.\<close>

definition going :: "('v, 'e) runtime \<Rightarrow> ('v, 'e) thread \<Rightarrow> mode \<Rightarrow> addr multiset \<Rightarrow> bool" where
  "going rt t md Q \<longleftrightarrow>
     (case t of
        T_spawning tk k \<Rightarrow> md = Up \<and> tk_confirm tk < length (confirms (rt_world rt))
          \<and> (\<forall>b. tame (k b) md (add_mset b Q))
      | _ \<Rightarrow> tame t md Q)"

lemma tame_going: "tame t md Q \<Longrightarrow> going rt t md Q"
  by (cases t) (auto simp: going_def)

lemma going_mono:
  "going rt t md Q \<Longrightarrow> length (confirms (rt_world rt)) \<le> length (confirms (rt_world rt')) \<Longrightarrow> going rt' t md Q"
  by (cases t) (auto simp: going_def)

lemma going_down: "md \<noteq> Up \<Longrightarrow> going rt t md Q \<longleftrightarrow> going rt' t md Q"
  by (cases t) (auto simp: going_def)

lemma going_not_fail: "going rt t md Q \<Longrightarrow> t \<noteq> T_fail p"
  by (auto simp: going_def)

definition healthy :: "('v, 'e) runtime \<Rightarrow> bool" where
  "healthy rt \<longleftrightarrow> rt_comm rt \<and> (\<forall>wk \<in> set (rt_workers rt). \<not> blocked wk \<and> \<not> unwound wk)"

text \<open>
  What a thread leaves behind: itself, the threads it started, and the mode it is in then. While the
  runtime is up it is calm, whoever holds the addresses \<open>R\<close> besides the thread's own.
\<close>

definition left_well ::
  "mode \<Rightarrow> mode \<Rightarrow> bool \<Rightarrow> addr multiset \<Rightarrow> ('v, 'e) thread \<Rightarrow> ('v, 'e) runtime \<Rightarrow> ('v, 'e) thread list \<Rightarrow> bool" where
  "left_well md md' up R t rt new \<longleftrightarrow>
     (\<exists>Q Ps. going rt t md' Q \<and> list_all2 (\<lambda>c P. tame c Helper P) new Ps
        \<and> ((if md = Helper then up else md' = Up) \<longrightarrow> calm rt (Q + sum_list Ps + R)))"

lemma left_wellI:
  assumes "going rt t md Q" and "(if md = Helper then up else md = Up) \<Longrightarrow> calm rt (Q + R)" and "new = []"
  shows "left_well md md up R t rt new"
  unfolding left_well_def using assms by (intro exI[of _ Q] exI[of _ "[]"]) simp

lemma left_well_down:
  assumes "tame t Down Q" and "md \<noteq> Helper" and "new = []"
  shows "left_well md Down up R t rt new"
  unfolding left_well_def using assms tame_going by (intro exI[of _ Q] exI[of _ "[]"]) auto

text \<open>The mode after the next step of a thread: the steps that stop the runtime leave \<open>Up\<close>.\<close>

primrec next_mode :: "('v, 'e) thread \<Rightarrow> mode \<Rightarrow> mode" where
  "next_mode T_done md = md"
| "next_mode (T_fail p) md = md"
| "next_mode (T_send a m k) md = md"
| "next_mode (T_await q k) md = md"
| "next_mode (T_do_send a m k) md = md"
| "next_mode (T_clone a k) md = md"
| "next_mode (T_drop a k) md = md"
| "next_mode (T_lock f k) md = md"
| "next_mode (T_spawn st a v k) md = md"
| "next_mode (T_spawning t k) md = md"
| "next_mode (T_fork c k) md = md"
| "next_mode (T_join i k) md = md"
| "next_mode (T_num_workers k) md = md"
| "next_mode (T_shutdown k) md = Down"
| "next_mode (T_join_workers k) md = Down"
| "next_mode (T_drop_rt k) md = Down"
| "next_mode (T_drop_wait k) md = Down"

lemma next_mode_helper: "going rt t Helper Q \<Longrightarrow> next_mode t Helper = Helper"
  by (cases t) (auto simp: going_def)

lemma next_mode_main: "md \<noteq> Helper \<Longrightarrow> next_mode t md \<noteq> Helper" "next_mode t Down = Down"
  by (cases t; simp)+

lemma healthy_world:
  "healthy rt \<Longrightarrow> rt_step order cls rt rt' \<Longrightarrow> rt_workers rt' = rt_workers rt \<Longrightarrow> healthy rt'"
  by (auto simp: healthy_def intro: rt_step_comm)

lemma calm_send:
  "calm rt Q \<Longrightarrow> addr_send_begin a m (rt_world rt) = (r, w) \<Longrightarrow> calm (rt\<lparr>rt_world := w\<rparr>) Q"
  using addr_send_begin_simps[of a m "rt_world rt"] senders_ops(2)[of a m "rt_world rt"]
  by (intro calm_more[of rt Q]) auto

lemma calm_do_send:
  "calm rt Q \<Longrightarrow> addr_do_send a m (rt_world rt) = (r, w) \<Longrightarrow> calm (rt\<lparr>rt_world := w\<rparr>) Q"
  using addr_do_send_simps[of a m "rt_world rt"] senders_ops(1)[of a m "rt_world rt"]
  by (intro calm_more[of rt Q]) auto

lemma calm_clone:
  assumes "calm rt Q" and "rt_comm rt" and "addr_clone a (rt_world rt) = (b, w)"
  shows "calm (rt\<lparr>rt_world := w\<rparr>) (add_mset b Q)"
proof -
  have b: "b = a" "w = snd (addr_clone a (rt_world rt))" using assms(3) addr_clone_simps(1)[of a "rt_world rt"] by simp_all
  have l: "length (chans (rt_world rt)) = length (rt_workers rt)" using assms(2) by (simp add: rt_comm_def rt_shape_def Let_def)
  show ?thesis unfolding b by (rule calm_more[OF assms(1)]) (simp_all add: l)
qed

lemma calm_drop:
  assumes "calm rt Q" and "a \<in># Q"
  shows "calm (rt\<lparr>rt_world := addr_drop a (rt_world rt)\<rparr>) (Q - {#a#})"
proof (rule calm_more[OF assms(1)])
  fix n
  assume "n < length (rt_workers rt)"
  then have "Suc (own Q n) \<le> senders (rt_world rt) n" using assms(1) by (simp add: calm_def Let_def)
  then show "senders (rt_world rt) n + own (Q - {#a#}) n \<le> senders (addr_drop a (rt_world rt)) n + own Q n"
    using own_remove[OF assms(2), of n] by auto
qed simp_all

text \<open>A step of a thread is no step or one step of the runtime.\<close>

lemma thread_step_world:
  assumes s: "thread_step ts t rt = (t', rt', new)"
  obtains (Same) "rt' = rt"
  | (Send) a m where "rt' = rt\<lparr>rt_world := snd (addr_send_begin a m (rt_world rt))\<rparr>"
  | (Do_send) a m where "rt' = rt\<lparr>rt_world := snd (addr_do_send a m (rt_world rt))\<rparr>"
  | (Clone) a where "rt' = rt\<lparr>rt_world := snd (addr_clone a (rt_world rt))\<rparr>"
  | (Give) a where "rt' = rt\<lparr>rt_world := addr_drop a (rt_world rt)\<rparr>"
  | (Lock) e where "rt' = rt\<lparr>rt_world := (rt_world rt)\<lparr>env := e\<rparr>\<rparr>"
  | (Spawn) st a v r where "rt_spawn_begin st a v rt = (r, rt')"
  | (Spawned) tk r where "rt_spawn_finish tk rt = Some (r, rt')"
  | (Stop) "rt' = rt_shutdown rt"
proof (cases t)
  case (T_send a m k)
  obtain r w where d: "addr_send_begin a m (rt_world rt) = (r, w)" by fastforce
  with s T_send show ?thesis by (intro Send[of a m]) (cases r; simp)
next
  case (T_await r k)
  with s show ?thesis by (intro Same) (auto split: option.splits)
next
  case (T_do_send a m k)
  with s show ?thesis by (intro Do_send[of a m]) (auto split: prod.splits)
next
  case (T_clone a k)
  with s show ?thesis by (intro Clone[of a]) (auto split: prod.splits)
next
  case (T_spawn st a v k)
  obtain r rt1 where d: "rt_spawn_begin st a v rt = (r, rt1)" by fastforce
  with s T_spawn have "rt1 = rt'" by (auto split: sum.splits fault.splits)
  with d show ?thesis by (auto intro: Spawn)
next
  case (T_spawning tk k)
  show ?thesis
  proof (cases "rt_spawn_finish tk rt")
    case None
    with s T_spawning show ?thesis by (intro Same) simp
  next
    case (Some x)
    obtain r rt1 where x: "x = (r, rt1)" by fastforce
    with s T_spawning Some have "rt1 = rt'" by (auto split: sum.splits fault.splits)
    with Some x show ?thesis by (auto intro: Spawned)
  qed
next
  case (T_join i k)
  with s show ?thesis by (intro Same) (auto split: if_splits)
next
  case (T_join_workers k)
  with s show ?thesis by (intro Same) (auto split: option.splits sum.splits fault.splits)
next
  case (T_drop_rt k)
  with s show ?thesis by (cases "running (shared (rt_world rt))") (auto simp: rt_drop_begin_def intro: Same Stop)
next
  case (T_drop_wait k)
  with s show ?thesis by (intro Same) (auto split: option.splits)
qed (use s in \<open>auto intro: Same Give Lock Stop\<close>)

lemma spawn_begin_frame:
  assumes "rt_spawn_begin st a v rt = (r, rt')"
  shows "rt_workers rt' = rt_workers rt" and "length (confirms (rt_world rt)) \<le> length (confirms (rt_world rt'))"
proof -
  obtain i w1 where al: "allocate_id (rt_world rt) = (i, w1)" by fastforce
  obtain idx w2 where pk: "pick_worker w1 = (idx, w2)" by fastforce
  obtain res v' ctx' w3 where x: "exec st v (context_with_spawner i idx) (log_event (EvStarted i a) w2) = (res, v', ctx', w3)"
    by (metis prod_cases4)
  have "confirms w1 = confirms (rt_world rt)" "confirms w2 = confirms w1"
    using allocate_id_simps[of "rt_world rt"] pick_worker_simps[of w1] al pk by simp_all
  with exec_comm[OF x] have "confirms w3 = confirms (rt_world rt)" by (simp add: comm_ext_def)
  with assms show "rt_workers rt' = rt_workers rt" and "length (confirms (rt_world rt)) \<le> length (confirms (rt_world rt'))"
    by (auto simp: rt_spawn_begin_def al pk x spawn_remote_begin_def Let_def split: sum.splits if_splits)
qed

lemma spawn_finish_frame:
  assumes "rt_spawn_finish t rt = Some (r, rt')"
  shows "rt_workers rt' = rt_workers rt" and "confirms (rt_world rt') = confirms (rt_world rt)"
  using assms by (auto simp: rt_spawn_finish_def spawn_remote_result_def Let_def split: reply.splits)

lemma thread_step_runs:
  assumes "thread_step ts t rt = (t', rt', new)"
  shows "rt' = rt \<or> rt_step order cls rt rt'" and "rt_workers rt' = rt_workers rt"
    and "length (confirms (rt_world rt)) \<le> length (confirms (rt_world rt'))"
proof -
  show "rt' = rt \<or> rt_step order cls rt rt'"
    using assms by (cases rule: thread_step_world) (auto intro: rt_step.intros)
  show "rt_workers rt' = rt_workers rt" and "length (confirms (rt_world rt)) \<le> length (confirms (rt_world rt'))"
    using assms by (cases rule: thread_step_world;
      auto simp: rt_shutdown_def dest: spawn_begin_frame spawn_finish_frame)+
qed

lemma thread_step_healthy:
  assumes "thread_step ts t rt = (t', rt', new)" and "healthy rt"
  shows "healthy rt'"
  using thread_step_runs(1)[OF assms(1)] thread_step_runs(2)[OF assms(1)] assms(2) healthy_world by metis

text \<open>The argument \<open>up\<close> says whether the main thread is in mode \<open>Up\<close>.\<close>

lemma thread_step_left:
  assumes s: "thread_step ts t rt = (t', rt', new)" and g: "going rt t md Q"
    and ok: "healthy rt" and nf: "\<forall>x \<in> set ts. \<forall>p. x \<noteq> T_fail p"
    and up: "(if md = Helper then up else md = Up) \<Longrightarrow> calm rt (Q + R)"
  shows "left_well md (next_mode t md) up R t' rt' new"
proof (cases t)
  case T_done
  with s g up show ?thesis unfolding T_done next_mode.simps by (intro left_wellI[of _ _ _ Q]) auto
next
  case (T_fail p)
  with g show ?thesis by (simp add: going_def)
next
  case (T_send a m k)
  obtain r w where d: "addr_send_begin a m (rt_world rt) = (r, w)" by fastforce
  have "tame t' md Q" "rt' = rt\<lparr>rt_world := w\<rparr>" "new = []"
    using s g T_send d by (cases r; auto simp: going_def)+
  with calm_send[OF up d] show ?thesis unfolding T_send next_mode.simps by (auto intro!: left_wellI tame_going)
next
  case (T_await r k)
  with s g have "tame t' md Q" "rt' = rt" "new = []" by (auto simp: going_def split: option.splits)
  with up show ?thesis unfolding T_await next_mode.simps by (auto intro!: left_wellI tame_going)
next
  case (T_do_send a m k)
  obtain r w where d: "addr_do_send a m (rt_world rt) = (r, w)" by fastforce
  have "tame t' md Q" "rt' = rt\<lparr>rt_world := w\<rparr>" "new = []" using s g T_do_send d by (auto simp: going_def)
  with calm_do_send[OF up d] show ?thesis unfolding T_do_send next_mode.simps by (auto intro!: left_wellI tame_going)
next
  case (T_clone a k)
  obtain b w where d: "addr_clone a (rt_world rt) = (b, w)" by fastforce
  have t: "tame t' md (add_mset b Q)" "rt' = rt\<lparr>rt_world := w\<rparr>" "new = []" using s g T_clone d by (auto simp: going_def)
  have "calm rt' (add_mset b Q + R)" if "if md = Helper then up else md = Up"
    using calm_clone[OF up[OF that] _ d] ok t(2) by (simp add: healthy_def)
  with t show ?thesis unfolding T_clone next_mode.simps by (auto intro!: left_wellI tame_going)
next
  case (T_drop a k)
  have t: "tame t' md (Q - {#a#})" "rt' = rt\<lparr>rt_world := addr_drop a (rt_world rt)\<rparr>" "new = []" "a \<in># Q"
    using s g T_drop by (auto simp: going_def)
  have "calm rt' (Q - {#a#} + R)" if "if md = Helper then up else md = Up"
    using calm_drop[OF up[OF that], of a] t(2,4) by simp
  with t show ?thesis unfolding T_drop next_mode.simps by (auto intro!: left_wellI tame_going)
next
  case (T_lock f k)
  have t: "tame t' md Q" "rt' = rt\<lparr>rt_world := (rt_world rt)\<lparr>env := f (env (rt_world rt))\<rparr>\<rparr>" "new = []"
    using s g T_lock by (auto simp: going_def)
  have "calm rt' (Q + R)" if "if md = Helper then up else md = Up"
    unfolding t(2) by (rule calm_more[OF up[OF that]]) simp_all
  with t show ?thesis unfolding T_lock next_mode.simps by (auto intro!: left_wellI tame_going)
next
  case (T_spawn st a v k)
  have st: "md = Up" "never_waits st" "never_panics st" "frugal st {#}" "\<forall>b. tame (k b) md (add_mset b Q)"
    using g T_spawn by (auto simp: going_def)
  obtain r rt1 where d: "rt_spawn_begin st a v rt = (r, rt1)" by fastforce
  obtain tk where c: "r = Inr tk" "calm rt1 (Q + R)" "tk_confirm tk < length (confirms (rt_world rt1))"
    using calm_spawn_begin[OF up _ d st(2-4)] st(1) ok by (auto simp: healthy_def)
  have "t' = T_spawning tk k" "rt' = rt1" "new = []" using s T_spawn d c(1) by auto
  with c st show ?thesis unfolding T_spawn next_mode.simps by (intro left_wellI[of _ _ _ Q]) (auto simp: going_def)
next
  case (T_spawning tk k)
  have g': "md = Up" "tk_confirm tk < length (confirms (rt_world rt))" "\<forall>b. tame (k b) md (add_mset b Q)"
    using g T_spawning by (auto simp: going_def)
  show ?thesis 
  proof (cases "rt_spawn_finish tk rt")
    case None
    with s T_spawning g up show ?thesis unfolding T_spawning next_mode.simps by (auto intro: left_wellI)
  next
    case (Some x)
    obtain r rt1 where x: "x = (r, rt1)" by fastforce
    obtain a where a: "r = Inr a" "calm rt1 (add_mset a (Q + R))"
      using calm_spawn_finish[OF up _ Some[unfolded x] g'(2)] g'(1) ok by (auto simp: healthy_def)
    have t: "t' = k a" "rt' = rt1" "new = []" using s T_spawning Some x a(1) by auto
    have "going rt' t' md (add_mset a Q)" using g'(3) t(1) by (auto intro: tame_going)
    with a t show ?thesis unfolding T_spawning next_mode.simps by (auto intro: left_wellI)
  qed
next
  case (T_fork c k)
  obtain P where P: "P \<subseteq># Q" "tame c Helper P" "\<forall>i. tame (k i) md (Q - P)" using g T_fork by (auto simp: going_def)
  have t: "t' = k (length ts)" "rt' = rt" "new = [c]" using s T_fork by auto
  have "Q - P + P + R = Q + R" using P(1) by simp
  with P t up show ?thesis unfolding T_fork next_mode.simps left_well_def
    by (intro exI[of _ "Q - P"] exI[of _ "[P]"]) (auto intro: tame_going)
next
  case (T_join i k)
  show ?thesis 
  proof (cases "i < length ts \<and> finished (ts ! i)")
    case True
    then have "ts ! i = T_done" using nf nth_mem[of i ts] by (auto simp: finished_def split: thread.splits)
    then have "t' = k True" "rt' = rt" "new = []" using s T_join True by auto
    with g T_join up show ?thesis unfolding T_join next_mode.simps by (auto simp: going_def intro!: left_wellI[of _ _ _ Q] tame_going)
  next
    case False
    with s T_join have "t' = t" "rt' = rt" "new = []" by auto
    with g up show ?thesis unfolding T_join next_mode.simps by (auto intro: left_wellI)
  qed
next
  case (T_num_workers k)
  with s g up show ?thesis unfolding T_num_workers next_mode.simps by (auto simp: going_def intro!: left_wellI[of _ _ _ Q] tame_going)
next
  case (T_shutdown k)
  with s g show ?thesis unfolding T_shutdown next_mode.simps by (auto simp: going_def intro: left_well_down)
next
  case (T_join_workers k)
  have g': "md \<noteq> Helper" "tame k Down Q" using g T_join_workers by (simp_all add: going_def)
  have dn: "tame t Down Q" using g' T_join_workers by simp
  show ?thesis 
  proof (cases "rt_join rt")
    case None
    with s T_join_workers g' dn show ?thesis unfolding T_join_workers next_mode.simps by (auto intro: left_well_down)
  next
    case (Some x)
    then have "list_all wk_ended (rt_workers rt)" by (auto simp: rt_join_def split: if_splits)
    moreover have "wk_place wk = Exited" if "wk_ended wk" "\<not> unwound wk" for wk :: "'a worker"
      using that by (cases "wk_place wk") (simp_all add: wk_ended_def unwound_def)
    ultimately have "list_all (\<lambda>wk. wk_place wk = Exited) (rt_workers rt)"
      using ok by (auto simp: list_all_iff healthy_def)
    with Some have "x = Inr ()" by (auto simp: rt_join_def split: if_splits)
    with s T_join_workers Some g' show ?thesis unfolding T_join_workers next_mode.simps by (auto intro: left_well_down)
  qed
next
  case (T_drop_rt k)
  with s g show ?thesis unfolding T_drop_rt next_mode.simps by (auto simp: going_def intro!: left_well_down[of _ Q])
next
  case (T_drop_wait k)
  with s g show ?thesis unfolding T_drop_wait next_mode.simps by (auto simp: going_def intro!: left_well_down[of _ Q] split: option.splits)
qed

section \<open>All threads\<close>

text \<open>The main thread is in mode \<open>md\<close>, and thread \<open>i\<close> may drop the addresses \<open>Qs ! i\<close>.\<close>

definition pool_at :: "mode \<Rightarrow> addr multiset list \<Rightarrow> ('v, 'e) pool \<Rightarrow> bool" where
  "pool_at md Qs pl \<longleftrightarrow> healthy (pl_rt pl) \<and> pl_threads pl \<noteq> [] \<and> md \<noteq> Helper
   \<and> length Qs = length (pl_threads pl)
   \<and> (\<forall>i < length (pl_threads pl). going (pl_rt pl) (pl_threads pl ! i) (if i = 0 then md else Helper) (Qs ! i))
   \<and> (md = Up \<longrightarrow> calm (pl_rt pl) (sum_list Qs))"

definition mode_after :: "action \<Rightarrow> ('v, 'e) pool \<Rightarrow> mode \<Rightarrow> mode" where
  "mode_after act pl md = (if act = Act_thread 0 then next_mode (pl_threads pl ! 0) md else md)"

lemma pool_atI:
  assumes "healthy rt" and "ts \<noteq> []" and "md \<noteq> Helper" and "length Qs = length ts"
    and "\<And>i. i < length ts \<Longrightarrow> going rt (ts ! i) (if i = 0 then md else Helper) (Qs ! i)"
    and "md = Up \<Longrightarrow> calm rt (sum_list Qs)"
  shows "pool_at md Qs \<lparr>pl_rt = rt, pl_threads = ts\<rparr>"
  using assms by (simp add: pool_at_def)

lemma pool_atD:
  assumes "pool_at md Qs pl"
  shows "healthy (pl_rt pl)" "pl_threads pl \<noteq> []" "md \<noteq> Helper" "length Qs = length (pl_threads pl)"
    and "i < length (pl_threads pl) \<Longrightarrow> going (pl_rt pl) (pl_threads pl ! i) (if i = 0 then md else Helper) (Qs ! i)"
    and "md = Up \<Longrightarrow> calm (pl_rt pl) (sum_list Qs)"
  using assms by (simp_all add: pool_at_def)

lemma sum_list_replace:
  assumes "i < length Qs"
  obtains R where "sum_list Qs = Qs ! i + R" "\<And>Q. sum_list (Qs[i := Q]) = Q + (R :: 'a multiset)"
proof
  show "sum_list Qs = Qs ! i + (sum_list (take i Qs) + sum_list (drop (Suc i) Qs))"
    using id_take_nth_drop[OF assms] by (metis add.left_commute sum_list.Cons sum_list.append)
  show "sum_list (Qs[i := Q]) = Q + (sum_list (take i Qs) + sum_list (drop (Suc i) Qs))" for Q
    using upd_conv_take_nth_drop[OF assms, of Q] by (simp add: ac_simps)
qed

lemma pool_at_thread:
  assumes ok: "pool_at md Qs pl" and i: "i < length (pl_threads pl)"
  shows "\<exists>Qs'. pool_at (mode_after (Act_thread i) pl md) Qs' (pool_step order cls (Act_thread i) pl)"
proof -
  let ?ts = "pl_threads pl" and ?rt = "pl_rt pl"
  note h = pool_atD(1)[OF ok] and md = pool_atD(3)[OF ok] and l = pool_atD(4)[OF ok] and g = pool_atD(5)[OF ok]
  obtain t' rt' new where s: "thread_step ?ts (?ts ! i) ?rt = (t', rt', new)" by (metis prod_cases3)
  obtain R where R: "sum_list Qs = Qs ! i + R" "\<And>Q. sum_list (Qs[i := Q]) = Q + R"
    using sum_list_replace[of i Qs] i l by metis
  have nf: "\<forall>x \<in> set ?ts. \<forall>p. x \<noteq> T_fail p"
    using g going_not_fail by (metis in_set_conv_nth)
  let ?m = "if i = 0 then md else Helper" and ?md = "mode_after (Act_thread i) pl md"
  have m': "next_mode (?ts ! i) ?m = (if i = 0 then ?md else Helper)" "i \<noteq> 0 \<Longrightarrow> ?md = md" "?md \<noteq> Helper"
    using next_mode_helper[of ?rt "?ts ! i" "Qs ! i"] g[OF i] next_mode_main(1)[OF md] md
    by (auto simp: mode_after_def)
  have "left_well ?m (next_mode (?ts ! i) ?m) (md = Up) R t' rt' new"
    by (rule thread_step_left[OF s g[OF i] h nf]) (use pool_atD(6)[OF ok] R(1) md in \<open>auto split: if_splits\<close>)
  then obtain Q Ps where w: "going rt' t' (if i = 0 then ?md else Helper) Q"
    "list_all2 (\<lambda>c P. tame c Helper P) new Ps" "?md = Up \<Longrightarrow> calm rt' (Q + sum_list Ps + R)"
    unfolding left_well_def m'(1) using m'(2) md by (auto split: if_splits)
  let ?Qs = "Qs[i := Q] @ Ps" and ?ts' = "?ts[i := t'] @ new"
  have ln: "length new = length Ps" using w(2) by (rule list_all2_lengthD)
  have st: "pool_step order cls (Act_thread i) pl = \<lparr>pl_rt = rt', pl_threads = ?ts'\<rparr>"
    using i s by (simp add: pool_step_def)
  have "going rt' (?ts' ! j) (if j = 0 then ?md else Helper) (?Qs ! j)" if j: "j < length ?ts'" for j
  proof (cases "j < length ?ts")
    case True
    show ?thesis
    proof (cases "j = i")
      case True
      with w(1) i l show ?thesis by (auto simp: nth_append split: if_splits)
    next
      case False
      have "going rt' (?ts ! j) (if j = 0 then md else Helper) (Qs ! j)"
        by (rule going_mono[OF g[OF \<open>j < length ?ts\<close>] thread_step_runs(3)[OF s]])
      with False True i l m'(2) show ?thesis by (auto simp: nth_append)
    qed
  next
    case False
    then have "tame (?ts' ! j) Helper (?Qs ! j)"
      using list_all2_nthD[OF w(2), of "j - length ?ts"] j l by (simp add: nth_append)
    moreover have "j \<noteq> 0" using False i by auto
    ultimately show ?thesis by (auto intro: tame_going)
  qed
  moreover have "calm rt' (sum_list ?Qs)" if "?md = Up"
    using w(3)[OF that] R(2)[of Q] by (simp add: ac_simps)
  moreover have "?ts' \<noteq> []" "length ?Qs = length ?ts'" using i l ln by auto
  ultimately show ?thesis
    unfolding st using m'(3) thread_step_healthy[OF s h] by (intro exI[of _ ?Qs] pool_atI)
qed

lemma pool_at_worker:
  assumes ok: "pool_at md Qs pl" and st: "steady cls" and n: "n < length (rt_workers (pl_rt pl))"
  shows "pool_at md Qs (pl\<lparr>pl_rt := run_worker order cls n (pl_rt pl)\<rparr>)"
proof -
  let ?rt = "pl_rt pl"
  note g = pool_atD(5)[OF ok] and up = pool_atD(6)[OF ok]
  have h: "rt_comm ?rt" "\<forall>wk \<in> set (rt_workers ?rt). \<not> blocked wk" "\<forall>wk \<in> set (rt_workers ?rt). \<not> unwound wk"
    using pool_atD(1)[OF ok] by (simp_all add: healthy_def)
  have step: "rt_step order cls ?rt (run_worker order cls n ?rt)"
    by (rule rt_work_waitless[OF h(2) steady_waitless[OF st] n])
  obtain wk w where s: "worker_step order cls (rt_workers ?rt ! n) (rt_world ?rt) = (wk, w)" by fastforce
  obtain rest where "held_by (rt_workers ?rt) = mailbox_replies (wk_scheduler (rt_workers ?rt ! n)) + rest"
    using held_by_member[OF n] by metis
  then have core: "wk_core None rest (rt_workers ?rt ! n) (rt_world ?rt)"
    using rt_comm_worker[OF h(1) n] by (simp add: wk_inv_def)
  have "\<not> blocked wk" using worker_step_unblocked[OF s steady_waitless[OF st]] h(2) n by simp
  moreover have "\<not> unwound wk" using worker_step_not_unwound[OF s st core] h(3) n by simp
  moreover have "rt_comm (run_worker order cls n ?rt)" using rt_step_comm[OF step h(1)] .
  ultimately have "healthy (run_worker order cls n ?rt)"
    using h(2,3) set_update_subset_insert[of "rt_workers ?rt" n wk]
    by (fastforce simp: healthy_def run_worker_eq[OF s])
  moreover have "calm (run_worker order cls n ?rt) (sum_list Qs)" if "md = Up"
    by (rule calm_work(1)[OF up[OF that] st h(1) n])
  moreover have "going (run_worker order cls n ?rt) (pl_threads pl ! j) (if j = 0 then md else Helper) (Qs ! j)"
    if "j < length (pl_threads pl)" for j
  proof (cases "j = 0 \<and> md = Up")
    case True
    with calm_work(2)[OF up st h(1) n, of order] going_mono[OF g[OF that]] show ?thesis by simp
  next
    case False
    then have "(if j = 0 then md else Helper) \<noteq> Up" by auto
    from going_down[OF this, THEN iffD1, OF g[OF that]] show ?thesis .
  qed
  ultimately have "pool_at md Qs \<lparr>pl_rt = run_worker order cls n ?rt, pl_threads = pl_threads pl\<rparr>"
    using pool_atD(2-4)[OF ok] by (intro pool_atI) simp_all
  then show ?thesis by (cases pl) simp
qed

lemma pool_at_step:
  assumes "pool_at md Qs pl" and "steady cls"
  shows "\<exists>Qs'. pool_at (mode_after act pl md) Qs' (pool_step order cls act pl)"
proof (cases act)
  case (Act_thread i)
  show ?thesis
  proof (cases "i < length (pl_threads pl)")
    case True
    with pool_at_thread[OF assms(1)] Act_thread show ?thesis by simp
  next
    case False
    with Act_thread assms(1) pool_atD(2)[OF assms(1)] show ?thesis by (auto simp: pool_step_def mode_after_def)
  qed
next
  case (Act_worker n)
  with pool_at_worker[OF assms] assms(1) show ?thesis by (auto simp: pool_step_def mode_after_def)
qed

lemma pool_at_run: "pool_at md Qs pl \<Longrightarrow> steady cls \<Longrightarrow> \<exists>md' Qs'. pool_at md' Qs' (pool_run order cls acts pl)"
proof (induction acts arbitrary: pl md Qs)
  case (Cons act acts)
  obtain Qs' where "pool_at (mode_after act pl md) Qs' (pool_step order cls act pl)"
    using pool_at_step[OF Cons.prems] by blast
  from Cons.IH[OF this Cons.prems(2)] show ?case by simp
qed auto

lemma pool_at_start:
  assumes "rt_with_threads n e = Inr rt" and "tame main Up {#}"
  shows "pool_at Up [{#}] (pool_start rt main)"
proof -
  have "healthy rt"
    using rt_comm_new[OF assms(1)] assms(1)
    by (auto simp: healthy_def rt_with_threads_def unwound_def blocked_def worker_new_def split: if_splits)
  then show ?thesis
    unfolding pool_start_def
    by (rule pool_atI) (use calm_new[OF assms(1)] assms(2) in \<open>auto intro: tame_going\<close>)
qed

text \<open>No thread has panicked, and no worker thread.\<close>

definition unfailing :: "('v, 'e) pool \<Rightarrow> bool" where
  "unfailing pl \<longleftrightarrow> pool_verdict pl \<noteq> Failed \<and> list_all (\<lambda>t. \<not> failed t) (pl_threads pl)
     \<and> list_all (\<lambda>wk. \<not> unwound wk) (rt_workers (pl_rt pl))"

lemma pool_at_unfailing:
  assumes "pool_at md Qs pl"
  shows "unfailing pl"
proof -
  have f: "\<not> failed t" if "t \<in> set (pl_threads pl)" for t
  proof -
    have "\<forall>p. t \<noteq> T_fail p" using that pool_atD(5)[OF assms] going_not_fail by (metis in_set_conv_nth)
    then show ?thesis by (auto simp: failed_def split: thread.split)
  qed
  have "pl_threads pl ! 0 \<in> set (pl_threads pl)" using pool_atD(2)[OF assms] by (intro nth_mem) auto
  from f[OF this] have "pool_verdict pl \<noteq> Failed" by (auto simp: pool_verdict_def failed_def split: thread.split)
  moreover have "list_all (\<lambda>wk. \<not> unwound wk) (rt_workers (pl_rt pl))"
    using pool_atD(1)[OF assms] by (auto simp: healthy_def list_all_iff)
  ultimately show ?thesis using f by (simp add: unfailing_def list_all_iff)
qed

lemma tame_unfailing:
  assumes "rt_with_threads n e = Inr rt" and "steady cls" and "tame main Up {#}"
  shows "unfailing (pool_run order cls acts (pool_start rt main))"
  using pool_at_run[OF pool_at_start[OF assms(1,3)] assms(2)] pool_at_unfailing by blast

section \<open>Property\<close>

text \<open>
  C13: a program whose threads pass the check \<open>tame\<close> and whose callbacks are \<open>steady\<close> cannot fail:
  under every schedule of its threads and the workers, no thread panics, the main thread included
  with all that \<^verbatim>\<open>spawn\<close>, \<^verbatim>\<open>run\<close> and \<^verbatim>\<open>join\<close> could panic on, and no worker thread does.
\<close>

theorem pool_never_fails:
  assumes "rt_with_threads n e = Inr rt" and "steady cls" and "tame main Up {#}"
  shows "unfailing (pool_run order cls acts (pool_start rt main))"
  by (rule tame_unfailing[OF assms])

text \<open>A handler that panics, and a thread that sends to it while the main thread stops the runtime.\<close>

theorem pool_never_fails_witness:
  "case rt_with_threads 2 () of
     Inl _ \<Rightarrow> False
   | Inr rt \<Rightarrow>
       unfailing (pool_run id (\<lambda>a. \<lparr>cls_handle = \<lambda>_ _. Panic POther, cls_stopped = \<lambda>_. Return ()\<rparr>)
         [Act_thread 0, Act_worker 0, Act_thread 0, Act_thread 0, Act_thread 0, Act_worker 0, Act_thread 1, Act_worker 1]
         (pool_start rt
           (T_spawn (Return ()) 0 () (\<lambda>a.
            T_fork (T_send a () (\<lambda>_. T_drop a T_done)) (\<lambda>i.
            t_run (t_join i T_done))))))"
proof -
  obtain rt :: "(unit, unit) runtime" where rt: "rt_with_threads 2 () = Inr rt" by (simp add: rt_with_threads_def)
  have "unfailing (pool_run id (\<lambda>a. \<lparr>cls_handle = \<lambda>_ _. Panic POther, cls_stopped = \<lambda>_. Return ()\<rparr>)
      [Act_thread 0, Act_worker 0, Act_thread 0, Act_thread 0, Act_thread 0, Act_worker 0, Act_thread 1, Act_worker 1]
      (pool_start rt
        (T_spawn (Return ()) 0 () (\<lambda>a.
         T_fork (T_send a () (\<lambda>_. T_drop a T_done)) (\<lambda>i.
         t_run (t_join i T_done))))))"
    by (rule pool_never_fails[OF rt]) (auto simp: steady_def waitless_def t_run_def t_join_def)
  with rt show ?thesis by simp
qed

end
