(* ===== verification/Runtime_Ends.thy ===== *)
theory Runtime_Ends
  imports Runtime_Calm
begin

text \<open>
  What workers come to when nobody disturbs them: one that works on gets to every message in its
  control channel, one that has been told to shut down ends. A step of a worker leaves the
  control channels of the others alone, so that what holds of each holds of all together.
\<close>

section \<open>The control channels of the others\<close>

definition same_control :: "nat \<Rightarrow> ('v, 'e) world \<Rightarrow> ('v, 'e) world \<Rightarrow> bool" where
  "same_control n w w' \<longleftrightarrow>
     running (shared w') = running (shared w) \<and> length (control_txs (shared w')) = length (control_txs (shared w))
   \<and> (\<forall>m. m \<noteq> n \<longrightarrow> control_txs (shared w') ! m = control_txs (shared w) ! m)"

lemma same_control_refl [simp]: "same_control n w w"
  by (simp add: same_control_def)

lemma same_control_trans: "same_control n w w1 \<Longrightarrow> same_control n w1 w2 \<Longrightarrow> same_control n w w2"
  by (simp add: same_control_def)

lemma same_control_frame [simp]:
  "same_control n w (drop_envelope e w') = same_control n w w'"
  "same_control n w (drop_envelopes es w') = same_control n w w'"
  "same_control n w (log_event ev w') = same_control n w w'"
  "same_control n w (map_insert wk i cell w') = same_control n w w'"
  "same_control n w (upd_chan c f w') = same_control n w w'"
  "same_control n w (confirm_send k w') = same_control n w w'"
  "same_control n w (fold drop_control_msg ms w') = same_control n w w'"
  "worker_idx wk = n \<Longrightarrow> same_control n w (set_control wk ch w') = same_control n w w'"
  by (auto simp: same_control_def)

lemma same_control_infra: "infra w w' \<Longrightarrow> same_control n w w'"
  by (simp add: infra_def same_control_def)

lemma shared_remove_control: "shared_remove_actor i k w = (co, w') \<Longrightarrow> same_control n w w'"
  by (auto simp: shared_remove_actor_def same_control_def)

lemma stop_cell_control:
  assumes "stop_cell cls i cell wk w = (r, wk', w')"
  shows "same_control n w w' \<and> worker_idx wk' = worker_idx wk"
proof -
  obtain res act' ctx' w1 where d: "call_dispatch cls (on_stop cell) (actor cell)
      (context_with_spawner i (worker_idx wk)) w = (res, act', ctx', w1)" by (metis prod_cases4)
  from assms d same_control_infra[OF call_dispatch_infra[OF d], of n] show ?thesis
    by (auto simp: stop_cell_def forget_actor_def split: sum.splits)
qed

lemma worker_dispatch_same_control:
  assumes "worker_dispatch cls e wk w = (r, wk', w')" and "waitless cls"
  shows "same_control n w w' \<and> worker_idx wk' = worker_idx wk"
  using assms(1)
proof (cases rule: worker_dispatch_E)
  case (Absent w1)
  with shared_remove_control[OF Absent(1)] show ?thesis by simp
next
  case (Kept cell w1 act' ctx' w2)
  with same_control_trans[OF shared_remove_control[OF Kept(1)] same_control_infra[OF call_dispatch_infra[OF Kept(2)]]]
  show ?thesis by simp
next
  case (Stopped cell w1 act' ctx' w2)
  with same_control_trans[OF shared_remove_control[OF Stopped(1)] same_control_infra[OF call_dispatch_infra[OF Stopped(2)]]]
    stop_cell_control[OF Stopped(4)]
  show ?thesis by (meson same_control_trans)
next
  case (Panicked cell w1 p act' ctx' w2)
  with same_control_trans[OF shared_remove_control[OF Panicked(1)] same_control_infra[OF call_dispatch_infra[OF Panicked(2)]]]
    stop_cell_control[OF Panicked(3)] same_control_trans
  show ?thesis by (metis same_control_frame(3))
next
  case (Blocked q)
  with worker_dispatch_waitless assms show ?thesis by blast
qed

lemma worker_remove_all_control:
  "worker_remove_all cls is wk w = (r, wk', w') \<Longrightarrow> same_control n w w' \<and> worker_idx wk' = worker_idx wk"
proof (induction "is" arbitrary: wk w)
  case (Cons i "is")
  obtain r1 wk1 w1 where s: "worker_remove_actor cls i wk w = (r1, wk1, w1)" by (metis prod_cases3)
  have "same_control n w w1 \<and> worker_idx wk1 = worker_idx wk"
  proof (cases "hm_get (actor_maps (shared w) ! worker_idx wk) i")
    case None
    with s show ?thesis
      by (auto simp: worker_remove_actor_def forget_actor_def shared_remove_actor_def same_control_def)
  next
    case (Some cell)
    obtain w0 where w0: "shared_remove_actor i (worker_idx wk) w = (Some cell, w0)"
      using Some by (simp add: shared_remove_actor_def)
    with s stop_cell_control[of cls i cell wk w0 r1 wk1 w1 n] same_control_trans[OF shared_remove_control[OF w0]]
    show ?thesis by (simp add: worker_remove_actor_def)
  qed
  with s Cons.prems Cons.IH[of wk1 w1] same_control_trans[of n w w1 w'] show ?case by (cases r1) auto
qed simp

lemma worker_end_control: "worker_end pl wk w = (wk', w') \<Longrightarrow> worker_idx wk = n \<Longrightarrow> same_control n w w'"
  by (auto simp: worker_end_def Let_def)

lemma end_step_control: "end_step (r, wk, w) cont = (wk', w') \<Longrightarrow> worker_idx wk = n \<Longrightarrow> same_control n w w'"
  by (cases r) (auto simp: end_step_def dest: worker_end_control split: fault.splits)

lemma worker_step_same_control:
  assumes r: "worker_step order cls wk w = (wk', w')" and w: "waitless cls" and n: "worker_idx wk = n"
  shows "same_control n w w'"
proof (cases "wk_place wk")
  case Stopping
  obtain res wk1 w1 where d: "worker_stop_all order cls wk w = (res, wk1, w1)" by (metis prod_cases3)
  with worker_remove_all_control have s: "same_control n w w1" "worker_idx wk1 = n"
    using n unfolding worker_stop_all_def by metis+
  from r d Stopping have "worker_end Exited wk1 w1 = (wk', w') \<or> end_step (res, wk1, w1) id = (wk', w')"
    by (auto simp: worker_step_def step_stop_def split: sum.splits)
  with worker_end_control[of Exited wk1 w1 wk' w' n] end_step_control[of res wk1 w1 id wk' w' n] s
  show ?thesis by (meson same_control_trans)
next
  case At_schedule
  show ?thesis
  proof (cases "\<exists>i s1 e s2. next_ready (wk_scheduler wk) = (Some i, s1) \<and> dequeue i s1 = (Some e, s2)")
    case False
    with At_schedule r show ?thesis by (auto simp: worker_step_def step_schedule_def split: option.splits prod.splits)
  next
    case True
    then obtain i s1 e s2 where d: "next_ready (wk_scheduler wk) = (Some i, s1)" "dequeue i s1 = (Some e, s2)" by blast
    obtain res wk1 w1 where ds: "worker_dispatch cls e (wk\<lparr>wk_scheduler := s2\<rparr>) w = (res, wk1, w1)" by (metis prod_cases3)
    have e: "end_step (res, wk1, w1) (\<lambda>wk'. wk'\<lparr>wk_scheduler := requeue_if_ready i (wk_scheduler wk'),
        wk_place := At_control\<rparr>) = (wk', w')"
      using r At_schedule d ds by (simp add: worker_step_def step_schedule_def)
    from worker_dispatch_same_control[OF ds w, of n] n have "same_control n w w1" "worker_idx wk1 = n" by simp_all
    from same_control_trans[OF this(1) end_step_control[OF e this(2)]] show ?thesis .
  qed
qed (use r n in \<open>auto simp: worker_step_def step_control_def step_drain_def step_recv_def
    split: recv.splits prod.splits control_msg.splits\<close>)

section \<open>A worker that works on\<close>

text \<open>How many steps until the worker looks at its control channel.\<close>

definition control_rank :: "'v worker \<Rightarrow> ('v, 'e) world \<Rightarrow> nat" where
  "control_rank wk w =
     (case wk_place wk of
        At_recv \<Rightarrow> 1
      | At_schedule \<Rightarrow> 2
      | At_drain \<Rightarrow> 3 + length (chan_queue (chan_at w (wk_chan wk w)))
      | _ \<Rightarrow> 0)"

text \<open>It takes the next message of the channel, or comes nearer to it and leaves it as it is.\<close>

definition control_taken :: "'v worker \<Rightarrow> ('v, 'e) world \<Rightarrow> ('v, 'e) world \<Rightarrow> bool" where
  "control_taken wk w w' \<longleftrightarrow>
     (\<exists>i act stop k ms. chan_queue (wk_control wk w) = SpawnActor i act stop k # ms
        \<and> control_txs (shared w') = (control_txs (shared w))[worker_idx wk := (wk_control wk w)\<lparr>chan_queue := ms\<rparr>]
        \<and> confirms w' = (confirms w)[k := Replied ()])"

definition control_left :: "('v, 'e) world \<Rightarrow> ('v, 'e) world \<Rightarrow> bool" where
  "control_left w w' \<longleftrightarrow> control_txs (shared w') = control_txs (shared w) \<and> confirms w' = confirms w"

lemma step_control_towards:
  assumes r: "step_control wk w = (wk', w')" and nt: "Shutdown \<notin> set (chan_queue (wk_control wk w))"
  shows "control_taken wk w w' \<or> (chan_queue (wk_control wk w) = [] \<and> control_left w w')"
proof (cases "chan_queue (wk_control wk w)")
  case Nil
  with r show ?thesis
    by (auto simp: step_control_def chan_try_recv_def control_left_def wk_control_def split: if_splits)
next
  case (Cons m ms)
  with nt obtain i act stop k where "m = SpawnActor i act stop k" by (cases m) auto
  with r Cons show ?thesis
    by (auto simp: step_control_def chan_try_recv_def control_taken_def confirm_send_def)
qed

lemma worker_step_towards:
  assumes r: "worker_step order cls wk w = (wk', w')" and st: "steady cls" and core: "wk_core None held wk w"
    and wk: "working wk" and nt: "Shutdown \<notin> set (chan_queue (wk_control wk w))"
    and se: "senders w (wk_chan wk w) > 0"
  shows "if wk_place wk = At_control
    then control_taken wk w w' \<or> (chan_queue (wk_control wk w) = [] \<and> control_left w w')
    else control_left w w' \<and> control_rank wk' w' < control_rank wk w"
proof (cases "wk_place wk")
  case At_control
  with step_control_towards[OF _ nt] r show ?thesis by (simp add: worker_step_def)
next
  case At_schedule
  show ?thesis
  proof (cases "ready_queue (wk_scheduler wk)")
    case Nil
    with At_schedule r show ?thesis
      by (auto simp: worker_step_def step_schedule_def next_ready_Nil control_left_def control_rank_def)
  next
    case (Cons i q)
    obtain e s1 s2 where n: "next_ready (wk_scheduler wk) = (Some i, s1)" and d: "dequeue i s1 = (Some e, s2)"
      and c2: "wk_core (Some i) (queue_replies [e] + held) (wk\<lparr>wk_scheduler := s2\<rparr>) w"
      by (rule wk_core_take[OF core Cons]) (rule that; assumption)
    obtain res wk1 w1 where ds: "worker_dispatch cls e (wk\<lparr>wk_scheduler := s2\<rparr>) w = (res, wk1, w1)" by (metis prod_cases3)
    note s = worker_dispatch_steady[OF ds st c2]
    with r At_schedule n d ds have "wk' = wk1\<lparr>wk_scheduler := requeue_if_ready i (wk_scheduler wk1), wk_place := At_control\<rparr>" "w' = w1"
      by (auto simp: worker_step_def step_schedule_def end_step_def)
    with s At_schedule show ?thesis by (simp add: control_left_def control_rank_def kept_def)
  qed
next
  case At_drain
  have "wk_chan wk w < length (chans w)" if "chan_queue (chan_at w (wk_chan wk w)) \<noteq> []"
    using that by (auto simp: chan_at_def chan_closed_def split: if_splits)
  with At_drain r show ?thesis
    by (auto simp: worker_step_def step_drain_def chan_try_recv_def control_left_def control_rank_def wk_chan_def
        split: list.splits if_splits)
next
  case At_recv
  with r se show ?thesis
    by (auto simp: worker_step_def step_recv_def chan_try_recv_def control_left_def control_rank_def
        split: list.splits if_splits)
qed (use wk in \<open>auto simp: working_def\<close>)

end
