(* ===== verification/Threads_Live.thy ===== *)
theory Threads_Live
  imports Threads_Safe Runtime_Ends
begin

text \<open>
  Programs of threads that cannot get stuck. \<open>prompt\<close> is a check on the text of a thread: the main
  thread waits for nothing but the confirmations of its spawns until it has stopped the runtime, and
  no thread but the main one waits for another. Whatever the schedule has been, such a program, if
  it is also \<open>tame\<close>, can still go on to its end, which is proved in \<open>Threads_End\<close>. Here: that every
  step of a thread or a worker keeps the threads on their way (\<open>sound_at_step\<close>).
\<close>

section \<open>The check\<close>

text \<open>The set holds the numbers of the threads that may be joined.\<close>

primrec prompt :: "('v, 'e) thread \<Rightarrow> mode \<Rightarrow> nat set \<Rightarrow> bool" where
  "prompt T_done = (\<lambda>md H. md \<noteq> Up)"
| "prompt (T_fail p) = (\<lambda>md H. False)"
| "prompt (T_send a m k) = (\<lambda>md H. md \<noteq> Up \<and> (\<forall>r. prompt (k r) md H))"
| "prompt (T_await q k) = (\<lambda>md H. False)"
| "prompt (T_do_send a m k) = (\<lambda>md H. \<forall>r. prompt (k r) md H)"
| "prompt (T_clone a k) = (\<lambda>md H. \<forall>b. prompt (k b) md H)"
| "prompt (T_drop a k) = (\<lambda>md H. prompt k md H)"
| "prompt (T_lock f k) = (\<lambda>md H. \<forall>e. prompt (k e) md H)"
| "prompt (T_spawn st a v k) = (\<lambda>md H. md = Up \<and> (\<forall>b. prompt (k b) md H))"
| "prompt (T_spawning t k) = (\<lambda>md H. False)"
| "prompt (T_fork c k) = (\<lambda>md H. prompt c Helper {} \<and> (\<forall>i. prompt (k i) md (insert i H)))"
| "prompt (T_join i k) = (\<lambda>md H. md = Down \<and> i \<in> H \<and> prompt (k True) md H)"
| "prompt (T_num_workers k) = (\<lambda>md H. \<forall>n. prompt (k n) md H)"
| "prompt (T_shutdown k) = (\<lambda>md H. prompt k Down H)"
| "prompt (T_join_workers k) = (\<lambda>md H. md = Down \<and> prompt k Down H)"
| "prompt (T_drop_rt k) = (\<lambda>md H. prompt k Down H)"
| "prompt (T_drop_wait k) = (\<lambda>md H. md = Down \<and> prompt k Down H)"

lemma prompt_mono: "prompt t md H \<Longrightarrow> H \<subseteq> H' \<Longrightarrow> prompt t md H'"
proof (induction t arbitrary: md H H')
  case (T_fork c k)
  have "prompt (k i) md (insert i H')" for i
    by (rule T_fork.IH(2)[OF rangeI, of i md "insert i H"]) (use T_fork.prems in simp, rule insert_mono[OF T_fork.prems(2)])
  with T_fork.prems show ?case by simp
next
  case (T_join i k)
  from T_join.prems(1) have t: "md = Down" "i \<in> H" "prompt (k True) md H" unfolding prompt.simps by blast+
  from T_join.IH[OF rangeI t(3) T_join.prems(2)] t T_join.prems(2) show ?case by auto
qed (simp; (metis rangeI)?)+

section \<open>A thread on its way\<close>

text \<open>A spawn has been asked for: its confirmation is there, or some worker will read of it.\<close>

definition asked :: "nat \<Rightarrow> ('v, 'e) runtime \<Rightarrow> bool" where
  "asked c rt \<longleftrightarrow> c < length (confirms (rt_world rt)) \<and>
     (confirms (rt_world rt) ! c \<noteq> Pending
      \<or> (\<exists>n < length (rt_workers rt). \<exists>i act stop.
           SpawnActor i act stop c \<in> set (chan_queue (control_txs (shared (rt_world rt)) ! n))))"

definition on_way :: "('v, 'e) runtime \<Rightarrow> ('v, 'e) thread \<Rightarrow> mode \<Rightarrow> nat set \<Rightarrow> bool" where
  "on_way rt t md H \<longleftrightarrow>
     (case t of
        T_await q k \<Rightarrow> md \<noteq> Up \<and> q < length (replies (rt_world rt)) \<and> (\<forall>r. prompt (k r) md H)
      | T_spawning tk k \<Rightarrow> md = Up \<and> asked (tk_confirm tk) rt \<and> (\<forall>b. prompt (k b) md H)
      | _ \<Rightarrow> prompt t md H)"

lemma on_way_simps [simp]:
  "on_way rt (T_await q k1) md H \<longleftrightarrow> md \<noteq> Up \<and> q < length (replies (rt_world rt)) \<and> (\<forall>r. prompt (k1 r) md H)"
  "on_way rt (T_spawning tk k2) md H \<longleftrightarrow> md = Up \<and> asked (tk_confirm tk) rt \<and> (\<forall>b. prompt (k2 b) md H)"
  "on_way rt T_done md H \<longleftrightarrow> md \<noteq> Up"
  "\<not> on_way rt (T_fail p) md H"
  "on_way rt (T_send a m k3) md H \<longleftrightarrow> prompt (T_send a m k3) md H"
  "on_way rt (T_do_send a m k4) md H \<longleftrightarrow> prompt (T_do_send a m k4) md H"
  "on_way rt (T_clone a k5) md H \<longleftrightarrow> prompt (T_clone a k5) md H"
  "on_way rt (T_drop a t) md H \<longleftrightarrow> prompt (T_drop a t) md H"
  "on_way rt (T_lock f k6) md H \<longleftrightarrow> prompt (T_lock f k6) md H"
  "on_way rt (T_spawn st b v k5) md H \<longleftrightarrow> prompt (T_spawn st b v k5) md H"
  "on_way rt (T_fork c k7) md H \<longleftrightarrow> prompt (T_fork c k7) md H"
  "on_way rt (T_join i k8) md H \<longleftrightarrow> prompt (T_join i k8) md H"
  "on_way rt (T_num_workers k7) md H \<longleftrightarrow> prompt (T_num_workers k7) md H"
  "on_way rt (T_shutdown t) md H \<longleftrightarrow> prompt (T_shutdown t) md H"
  "on_way rt (T_join_workers t) md H \<longleftrightarrow> prompt (T_join_workers t) md H"
  "on_way rt (T_drop_rt t) md H \<longleftrightarrow> prompt (T_drop_rt t) md H"
  "on_way rt (T_drop_wait t) md H \<longleftrightarrow> prompt (T_drop_wait t) md H"
  by (simp_all add: on_way_def)

lemma prompt_on_way: "prompt t md H \<Longrightarrow> on_way rt t md H"
  by (cases t) (auto simp: on_way_def)

lemma on_way_text:
  "(\<And>q k. t \<noteq> T_await q k) \<Longrightarrow> (\<And>tk k. t \<noteq> T_spawning tk k) \<Longrightarrow> on_way rt t md H \<longleftrightarrow> prompt t md H"
  by (cases t) (auto simp: on_way_def)

lemma on_way_mono:
  assumes "on_way rt t md H" and "H \<subseteq> H'" and "length (replies (rt_world rt)) \<le> length (replies (rt_world rt'))"
    and "\<And>c. md = Up \<Longrightarrow> asked c rt \<Longrightarrow> asked c rt'"
  shows "on_way rt' t md H'"
proof -
  note m = prompt_mono[OF _ assms(2)]
  consider q k where "t = T_await q k" | tk k where "t = T_spawning tk k"
    | "\<forall>q k. t \<noteq> T_await q k" "\<forall>tk k. t \<noteq> T_spawning tk k" by blast
  then show ?thesis
  proof cases
    case 1
    with assms m show ?thesis by (auto simp: on_way_def)
  next
    case 2
    then have "md = Up" "asked (tk_confirm tk) rt" "\<forall>b. prompt (k b) md H" using assms(1) unfolding on_way_def by auto
    with 2 assms(4) m show ?thesis by (auto simp: on_way_def)
  next
    case 3
    with assms(1) m show ?thesis by (simp add: on_way_text)
  qed
qed

section \<open>Steps of threads\<close>

text \<open>What any thread's step does: it only adds to the control channels and the one-shot channels.\<close>

definition adds :: "('v, 'e) world \<Rightarrow> ('v, 'e) world \<Rightarrow> bool" where
  "adds w w' \<longleftrightarrow>
     running (shared w') = running (shared w) \<and> length (control_txs (shared w')) = length (control_txs (shared w))
   \<and> (\<exists>cs. confirms w' = confirms w @ cs) \<and> length (replies w) \<le> length (replies w')
   \<and> (\<forall>n < length (control_txs (shared w)). \<exists>ms.
        chan_queue (control_txs (shared w') ! n) = chan_queue (control_txs (shared w) ! n) @ ms)"

lemma adds_same:
  assumes "shared w' = shared w" and "confirms w' = confirms w" and "length (replies w) \<le> length (replies w')"
  shows "adds w w'"
  using assms by (simp add: adds_def)

lemma asked_adds:
  assumes "asked c rt" and "adds (rt_world rt) (rt_world rt')" and "rt_workers rt' = rt_workers rt" and "rt_shape rt"
  shows "asked c rt'"
  using assms by (fastforce simp: asked_def adds_def rt_shape_def Let_def nth_append)

lemma shutting_adds:
  assumes "shutting wk (rt_world rt)" and "adds (rt_world rt) (rt_world rt')"
    and "rt_shape rt'" and "n < length (rt_workers rt')" and "wk = rt_workers rt' ! n"
  shows "shutting wk (rt_world rt')"
  using assms by (fastforce simp: shutting_def adds_def rt_shape_def Let_def told_def wk_control_def wk_chan_def)

lemma shutdown_adds: "adds (rt_world rt) (rt_world (rt_shutdown rt))"
  by (auto simp: adds_def rt_shutdown_def chan_send_def)

lemma calm_shutdown:
  assumes "calm rt Q" and "rt_comm rt" and "n < length (rt_workers rt)"
  shows "shutting (rt_workers rt ! n) (rt_world (rt_shutdown rt))"
  using assms
  by (auto simp: calm_def rt_comm_def rt_shape_def Let_def rt_shutdown_def chan_send_def shutting_def told_def
      wk_control_def wk_chan_def)

lemma spawn_begin_adds:
  assumes r: "rt_spawn_begin st a v rt = (r, rt')" and c: "rt_shape rt"
  shows "adds (rt_world rt) (rt_world rt')" and "r = Inr tk \<Longrightarrow> asked (tk_confirm tk) rt'"
proof -
  let ?w = "rt_world rt"
  obtain i w1 where al: "allocate_id ?w = (i, w1)" by fastforce
  obtain idx w2 where pk: "pick_worker w1 = (idx, w2)" by fastforce
  obtain res v' ctx' w3 where x: "exec st v (context_with_spawner i idx) (log_event (EvStarted i a) w2) = (res, v', ctx', w3)"
    by (metis prod_cases4)
  have f: "control_txs (shared w2) = control_txs (shared ?w)" "running (shared w2) = running (shared ?w)"
    "confirms w2 = confirms ?w" "replies w2 = replies ?w" "num_workers (shared w1) = num_workers (shared ?w)"
    using allocate_id_simps[of ?w] pick_worker_simps[of w1] al pk by simp_all
  have idx: "idx < length (control_txs (shared ?w))" "length (control_txs (shared ?w)) = length (rt_workers rt)"
    using c pick_worker_simps[of w1] pk f(5) by (simp_all add: rt_shape_def Let_def)
  have k: "control_txs (shared w3) = control_txs (shared ?w)" "running (shared w3) = running (shared ?w)"
    "confirms w3 = confirms ?w" "length (replies ?w) \<le> length (replies w3)"
    using exec_infra[OF x] exec_comm[OF x] f by (auto simp: infra_def comm_ext_def)
  show "adds ?w (rt_world rt')"
    using r k idx by (auto simp: rt_spawn_begin_def al pk x spawn_remote_begin_def Let_def adds_def
        chan_send_def nth_list_update split: sum.splits if_splits)
  show "asked (tk_confirm tk) rt'" if "r = Inr tk"
    unfolding asked_def using r k idx that
    by (auto simp: rt_spawn_begin_def al pk x spawn_remote_begin_def Let_def chan_send_def
        split: sum.splits if_splits intro!: exI[of _ idx]) blast+
qed

lemma thread_step_adds:
  assumes "thread_step ts t rt = (t', rt', new)" and "rt_shape rt"
  shows "adds (rt_world rt) (rt_world rt')"
  using assms(1)
proof (cases rule: thread_step_world)
  case (Spawn st a v r)
  from spawn_begin_adds(1)[OF this assms(2)] show ?thesis .
next
  case (Spawned tk r)
  then show ?thesis
    by (auto simp: rt_spawn_finish_def spawn_remote_result_def Let_def split: reply.splits intro!: adds_same)
next
  case Stop
  with shutdown_adds show ?thesis by simp
qed (auto intro!: adds_same)

text \<open>A thread that has not failed is still on its way, and so are those it started.\<close>

lemma thread_step_on_way:
  assumes s: "thread_step ts t rt = (t', rt', new)" and w: "on_way rt t md H" and sh: "rt_shape rt"
    and nf: "\<forall>x \<in> set ts. \<forall>p. x \<noteq> T_fail p" and nf': "\<forall>p. t' \<noteq> T_fail p"
  shows "on_way rt' t' (next_mode t md) (H \<union> {length ts..<length ts + length new}) \<and> (\<forall>c \<in> set new. prompt c Helper {})"
proof (cases t)
  case (T_send a m k)
  obtain r w where d: "addr_send_begin a m (rt_world rt) = (r, w)" by fastforce
  have o: "md \<noteq> Up" "\<forall>r. prompt (k r) md H" using w T_send by (simp_all)
  show ?thesis
  proof (cases r)
    case (Inl err)
    with s T_send d o show ?thesis by (auto intro: prompt_on_way)
  next
    case (Inr q)
    then have "q < length (replies w)" using d
      by (auto simp: addr_send_begin_def Let_def tx_send_def split: prod.splits sum.splits if_splits)
    with s T_send d o Inr show ?thesis by auto
  qed
next
  case (T_await q k)
  with s w show ?thesis by (cases "addr_send_result q (rt_world rt)") (auto intro: prompt_on_way)
next
  case (T_spawn st a v k)
  obtain r rt1 where d: "rt_spawn_begin st a v rt = (r, rt1)" by fastforce
  with s T_spawn nf' obtain tk where tk: "r = Inr tk" "t' = T_spawning tk k" "rt' = rt1" "new = []"
    by (cases r) (auto split: fault.splits)
  from w T_spawn have "md = Up" "\<forall>b. prompt (k b) md H" unfolding T_spawn by auto
  with tk spawn_begin_adds(2)[OF d sh tk(1)] T_spawn show ?thesis by auto
next
  case (T_spawning tk k)
  show ?thesis
  proof (cases "rt_spawn_finish tk rt")
    case None
    with s T_spawning have e: "t' = T_spawning tk k" "rt' = rt" "new = []" by auto
    from w show ?thesis unfolding e T_spawning by (simp del: on_way_simps)
  next
    case (Some x)
    obtain r rt1 where "x = (r, rt1)" by fastforce
    with s T_spawning nf' Some obtain a where "t' = k a" "new = []"
      by (cases r) (auto split: fault.splits)
    with w T_spawning show ?thesis by (auto intro: prompt_on_way)
  qed
next
  case (T_fork c k)
  with s w have "t' = k (length ts)" "new = [c]" "prompt c Helper {}" "prompt (k (length ts)) md (insert (length ts) H)"
    by auto
  moreover have "H \<union> {length ts..<length ts + 1} = insert (length ts) H" by auto
  ultimately show ?thesis using T_fork by (auto intro: prompt_on_way)
next
  case (T_join i k)
  show ?thesis
  proof (cases "i < length ts \<and> finished (ts ! i)")
    case True
    then have "ts ! i = T_done" using nf nth_mem[of i ts] by (auto simp: finished_def split: thread.splits)
    then have "t' = k True" "new = []" using s T_join True by auto
    moreover have "prompt (k True) md H" using w unfolding T_join by auto
    ultimately show ?thesis using T_join by (auto intro: prompt_on_way)
  next
    case False
    with s w T_join show ?thesis by auto
  qed
next
  case (T_join_workers k)
  have o: "md = Down" "prompt k Down H" using w unfolding T_join_workers by auto
  show ?thesis
  proof (cases "rt_join rt")
    case None
    with s w T_join_workers o show ?thesis by auto
  next
    case (Some x)
    with s T_join_workers nf' have "t' = k" "new = []" by (cases x; auto split: fault.splits)+
    with T_join_workers o show ?thesis by (auto intro: prompt_on_way)
  qed
next
  case (T_drop_wait k)
  with s w show ?thesis by (cases "rt_drop_end rt") (auto intro: prompt_on_way)
next
  case (T_do_send a m k)
  with s w show ?thesis by (auto intro: prompt_on_way split: prod.splits)
next
  case (T_clone a k)
  with s w show ?thesis by (auto intro: prompt_on_way split: prod.splits)
qed (use s w in \<open>auto intro: prompt_on_way\<close>)

section \<open>All threads\<close>

text \<open>Every thread is on its way, and once the main thread has stopped the runtime every worker ends.\<close>

definition live :: "mode \<Rightarrow> ('v, 'e) pool \<Rightarrow> bool" where
  "live md pl \<longleftrightarrow> running (shared (rt_world (pl_rt pl)))
   \<and> (\<forall>i < length (pl_threads pl). on_way (pl_rt pl) (pl_threads pl ! i) (if i = 0 then md else Helper)
        {0<..<length (pl_threads pl)})
   \<and> (md = Down \<longrightarrow> (\<forall>n < length (rt_workers (pl_rt pl)). shutting (rt_workers (pl_rt pl) ! n) (rt_world (pl_rt pl))))"

lemma stops:
  assumes "on_way rt t Up H" and "next_mode t Up = Down" and "thread_step ts t rt = (t', rt', new)"
    and "running (shared (rt_world rt))"
  shows "rt' = rt_shutdown rt"
  using assms by (cases t) (auto simp: rt_drop_begin_def)

lemma live_thread:
  assumes ok: "pool_at md Qs pl" and live: "live md pl" and i: "i < length (pl_threads pl)"
  shows "live (mode_after (Act_thread i) pl md) (pool_step order cls (Act_thread i) pl)"
proof -
  let ?ts = "pl_threads pl" and ?rt = "pl_rt pl" and ?md = "mode_after (Act_thread i) pl md"
  let ?H = "{0<..<length ?ts}"
  obtain t' rt' new where s: "thread_step ?ts (?ts ! i) ?rt = (t', rt', new)" by (metis prod_cases3)
  let ?ts' = "?ts[i := t'] @ new"
  have st: "pool_step order cls (Act_thread i) pl = \<lparr>pl_rt = rt', pl_threads = ?ts'\<rparr>"
    using i s by (simp add: pool_step_def)
  obtain Qs' where ok': "pool_at ?md Qs' \<lparr>pl_rt = rt', pl_threads = ?ts'\<rparr>"
    using pool_at_thread[OF ok i] st by metis
  have sh: "rt_shape ?rt" "rt_shape rt'" and c: "rt_comm ?rt"
    using pool_atD(1)[OF ok] pool_atD(1)[OF ok'] by (simp_all add: healthy_def rt_comm_def)
  have nf: "\<forall>x \<in> set ?ts. \<forall>p. x \<noteq> T_fail p"
    using pool_atD(5)[OF ok] going_not_fail by (metis in_set_conv_nth)
  have nf': "\<forall>p. t' \<noteq> T_fail p"
    using pool_atD(5)[OF ok', of i] going_not_fail i by (fastforce simp: nth_append)
  let ?m = "if i = 0 then md else Helper"
  have w: "on_way ?rt (?ts ! j) (if j = 0 then md else Helper) ?H" if "j < length ?ts" for j
    using live that by (simp add: live_def)
  have m': "next_mode (?ts ! i) ?m = (if i = 0 then ?md else Helper)" "i \<noteq> 0 \<Longrightarrow> ?md = md"
    using next_mode_helper[of ?rt "?ts ! i" "Qs ! i"] pool_atD(5)[OF ok i] by (auto simp: mode_after_def)
  note a = thread_step_adds[OF s sh(1)] and wks = thread_step_runs(2)[OF s]
  note o = thread_step_on_way[OF s w[OF i] sh(1) nf nf']
  let ?H' = "?H \<union> {length ?ts..<length ?ts + length new}"
  have H': "{0<..<length ?ts'} = ?H'" using i by auto
  have "on_way rt' (?ts' ! j) (if j = 0 then ?md else Helper) ?H'" if j: "j < length ?ts'" for j
  proof -
    consider "j = i" | "j \<noteq> i" "j < length ?ts" | "length ?ts \<le> j" by linarith
    then show ?thesis
    proof cases
      case 1
      with o i m'(1) show ?thesis by (simp add: nth_append)
    next
      case 2
      have "on_way rt' (?ts ! j) (if j = 0 then md else Helper) ?H'"
        by (rule on_way_mono[OF w[OF 2(2)]]) (use a asked_adds[OF _ a wks sh(1)] in \<open>auto simp: adds_def\<close>)
      with 2 m'(2) show ?thesis by (auto simp: nth_append)
    next
      case 3
      with j have "?ts' ! j \<in> set new" by (auto simp: nth_append)
      with o have "prompt (?ts' ! j) Helper {}" by blast
      from prompt_on_way[OF prompt_mono[OF this]] 3 i show ?thesis by simp
    qed
  qed
  moreover have "shutting (rt_workers rt' ! n) (rt_world rt')" if md: "?md = Down" and n: "n < length (rt_workers rt')" for n
  proof (cases "md = Down")
    case True
    with live n wks have "shutting (rt_workers rt' ! n) (rt_world ?rt)" by (simp add: live_def)
    from shutting_adds[OF this a sh(2) n refl] show ?thesis .
  next
    case False
    then have up: "md = Up" "i = 0" using pool_atD(3)[OF ok] m'(2) md by (cases md; auto)+
    have "rt' = rt_shutdown ?rt"
      using stops[OF _ _ s, of ?H] w[OF i] up md live by (simp add: mode_after_def live_def)
    with calm_shutdown[OF pool_atD(6)[OF ok up(1)] c, of n] n wks show ?thesis by simp
  qed
  moreover have "running (shared (rt_world rt'))" using live a by (simp add: live_def adds_def)
  ultimately show ?thesis unfolding st live_def H'[symmetric] by simp
qed

section \<open>Steps of workers\<close>

text \<open>A worker in its place.\<close>

lemma worker_in_place:
  assumes "rt_comm rt" and "n < length (rt_workers rt)"
  obtains wk w held where "worker_step order cls (rt_workers rt ! n) (rt_world rt) = (wk, w)"
    and "run_worker order cls n rt = \<lparr>rt_world = w, rt_workers = (rt_workers rt)[n := wk]\<rparr>"
    and "wk_core None held (rt_workers rt ! n) (rt_world rt)"
    and "worker_idx (rt_workers rt ! n) = n" "wk_chan (rt_workers rt ! n) (rt_world rt) = n"
    and "wk_control (rt_workers rt ! n) (rt_world rt) = control_txs (shared (rt_world rt)) ! n"
proof -
  obtain wk w where s: "worker_step order cls (rt_workers rt ! n) (rt_world rt) = (wk, w)" by fastforce
  obtain rest where "held_by (rt_workers rt) = mailbox_replies (wk_scheduler (rt_workers rt ! n)) + rest"
    using held_by_member[OF assms(2)] by metis
  then have "wk_core None rest (rt_workers rt ! n) (rt_world rt)"
    using rt_comm_worker[OF assms] by (simp add: wk_inv_def)
  from that[OF s _ this] s show ?thesis
    using assms by (auto simp: rt_comm_def rt_shape_def Let_def wk_chan_def wk_control_def run_worker_def)
qed

text \<open>What lies in the control channel of a worker, and whether worker \<open>n\<close> takes the next of it.\<close>

abbreviation controls :: "('v, 'e) runtime \<Rightarrow> nat \<Rightarrow> 'v control_msg list" where
  "controls rt n \<equiv> chan_queue (control_txs (shared (rt_world rt)) ! n)"

definition takes :: "nat \<Rightarrow> ('v, 'e) runtime \<Rightarrow> ('v, 'e) runtime \<Rightarrow> bool" where
  "takes n rt rt' \<longleftrightarrow> (\<exists>i act stop k. controls rt n = SpawnActor i act stop k # controls rt' n
     \<and> confirms (rt_world rt') = (confirms (rt_world rt))[k := Replied ()])"

lemma work_towards:
  assumes calm: "calm rt Q" and st: "steady cls" and inv: "rt_comm rt" and n: "n < length (rt_workers rt)"
    and rt': "rt' = run_worker order cls n rt"
  shows "m \<noteq> n \<Longrightarrow> controls rt' m = controls rt m"
    and "(controls rt' n = controls rt n \<and> confirms (rt_world rt') = confirms (rt_world rt)
          \<and> (controls rt n \<noteq> [] \<longrightarrow>
               control_rank (rt_workers rt' ! n) (rt_world rt') < control_rank (rt_workers rt ! n) (rt_world rt)))
        \<or> takes n rt rt'"
proof -
  obtain wk w held where s: "worker_step order cls (rt_workers rt ! n) (rt_world rt) = (wk, w)"
    and r: "run_worker order cls n rt = \<lparr>rt_world = w, rt_workers = (rt_workers rt)[n := wk]\<rparr>"
    and core: "wk_core None held (rt_workers rt ! n) (rt_world rt)"
    and i: "worker_idx (rt_workers rt ! n) = n" "wk_chan (rt_workers rt ! n) (rt_world rt) = n"
      "wk_control (rt_workers rt ! n) (rt_world rt) = control_txs (shared (rt_world rt)) ! n"
    by (rule worker_in_place[OF inv n])
  have c: "working (rt_workers rt ! n)" "Shutdown \<notin> set (chan_queue (wk_control (rt_workers rt ! n) (rt_world rt)))"
    "senders (rt_world rt) (wk_chan (rt_workers rt ! n) (rt_world rt)) > 0"
    using calm n i by (auto simp: calm_def Let_def)
  have l: "n < length (control_txs (shared (rt_world rt)))" using inv n by (simp add: rt_comm_def rt_shape_def Let_def)
  show "m \<noteq> n \<Longrightarrow> controls rt' m = controls rt m"
    using worker_step_same_control[OF s steady_waitless[OF st] i(1)] by (simp add: rt' r same_control_def)
  show "(controls rt' n = controls rt n \<and> confirms (rt_world rt') = confirms (rt_world rt)
          \<and> (controls rt n \<noteq> [] \<longrightarrow>
               control_rank (rt_workers rt' ! n) (rt_world rt') < control_rank (rt_workers rt ! n) (rt_world rt)))
        \<or> takes n rt rt'"
    using worker_step_towards[OF s st core c] n l i
    by (auto simp: rt' r control_left_def control_taken_def takes_def split: if_splits)
qed

lemma asked_work:
  assumes "calm rt Q" and "steady cls" and "rt_comm rt" and "n < length (rt_workers rt)" and "asked c rt"
  shows "asked c (run_worker order cls n rt)"
proof -
  define rt' where "rt' = run_worker order cls n rt"
  note w = work_towards[OF assms(1-4) rt'_def]
  have l: "length (rt_workers rt') = length (rt_workers rt)"
    "length (confirms (rt_world rt')) = length (confirms (rt_world rt))"
    using calm_work(2)[OF assms(1-4)] by (auto simp: rt'_def run_worker_def split: prod.splits)
  have "asked c rt'"
    using w(2)
  proof
    assume "takes n rt rt'"
    then obtain i act stop k where t: "controls rt n = SpawnActor i act stop k # controls rt' n"
      "confirms (rt_world rt') = (confirms (rt_world rt))[k := Replied ()]" by (auto simp: takes_def)
    show ?thesis
    proof (cases "confirms (rt_world rt') ! c = Pending")
      case True
      with t(2) assms(5) have "k \<noteq> c" "confirms (rt_world rt) ! c = Pending" by (cases "k = c"; auto simp: asked_def)+
      with assms(5) obtain m j act' stop' where m: "m < length (rt_workers rt)" "SpawnActor j act' stop' c \<in> set (controls rt m)"
        by (auto simp: asked_def)
      have "SpawnActor j act' stop' c \<in> set (controls rt' m)"
        using m(2) t(1) \<open>k \<noteq> c\<close> w(1)[of m] by (cases "m = n") auto
      with m(1) l assms(5) show ?thesis unfolding asked_def by metis
    qed (use assms(5) l in \<open>simp add: asked_def\<close>)
  next
    assume a: "controls rt' n = controls rt n \<and> confirms (rt_world rt') = confirms (rt_world rt)
          \<and> (controls rt n \<noteq> [] \<longrightarrow>
               control_rank (rt_workers rt' ! n) (rt_world rt') < control_rank (rt_workers rt ! n) (rt_world rt))"
    then have "controls rt' m = controls rt m" for m using w(1)[of m] by (cases "m = n") simp_all
    with a assms(5) l show ?thesis by (simp add: asked_def)
  qed
  then show ?thesis by (simp add: rt'_def)
qed

lemma shutting_work:
  assumes "rt_comm rt" and "steady cls" and "n < length (rt_workers rt)" and "rt_shape (run_worker order cls n rt)"
    and "m < length (rt_workers rt)" and "shutting (rt_workers rt ! m) (rt_world rt)"
  shows "shutting (rt_workers (run_worker order cls n rt) ! m) (rt_world (run_worker order cls n rt))"
proof -
  obtain wk w held where s: "worker_step order cls (rt_workers rt ! n) (rt_world rt) = (wk, w)"
    and r: "run_worker order cls n rt = \<lparr>rt_world = w, rt_workers = (rt_workers rt)[n := wk]\<rparr>"
    and i: "worker_idx (rt_workers rt ! n) = n"
    by (rule worker_in_place[OF assms(1,3)])
  show ?thesis
  proof (cases "m = n")
    case True
    have "shutting wk w"
      using worker_step_shutting[OF s] over_step[of "rt_workers rt ! n" order cls "rt_world rt"] assms(6) s True
      by (cases "over (rt_workers rt ! n)") auto
    with True assms(3) show ?thesis by (simp add: r)
  next
    case False
    have "worker_idx (rt_workers rt ! m) = m" using assms(1,5) by (simp add: rt_comm_def rt_shape_def Let_def)
    with worker_step_same_control[OF s steady_waitless[OF assms(2)] i] assms(4-6) False show ?thesis
      by (auto simp: r shutting_def told_def wk_control_def wk_chan_def same_control_def rt_shape_def Let_def)
  qed
qed

lemma live_worker:
  assumes ok: "pool_at md Qs pl" and live: "live md pl" and st: "steady cls" and n: "n < length (rt_workers (pl_rt pl))"
  shows "live md (pl\<lparr>pl_rt := run_worker order cls n (pl_rt pl)\<rparr>)"
proof -
  let ?rt = "pl_rt pl" and ?rt' = "run_worker order cls n (pl_rt pl)"
  have inv: "rt_comm ?rt" "rt_shape ?rt'"
    using pool_atD(1)[OF ok] pool_atD(1)[OF pool_at_worker[OF ok st n, of order]] by (simp_all add: healthy_def rt_comm_def)
  obtain wk w held where s: "worker_step order cls (rt_workers ?rt ! n) (rt_world ?rt) = (wk, w)"
    and r: "?rt' = \<lparr>rt_world = w, rt_workers = (rt_workers ?rt)[n := wk]\<rparr>" and i: "worker_idx (rt_workers ?rt ! n) = n"
    by (rule worker_in_place[OF inv(1) n])
  have "running (shared (rt_world ?rt'))"
    using live worker_step_same_control[OF s steady_waitless[OF st] i] by (simp add: r live_def same_control_def)
  moreover have "on_way ?rt' (pl_threads pl ! j) (if j = 0 then md else Helper) {0<..<length (pl_threads pl)}"
    if "j < length (pl_threads pl)" for j
  proof (rule on_way_mono[OF _ subset_refl])
    show "on_way ?rt (pl_threads pl ! j) (if j = 0 then md else Helper) {0<..<length (pl_threads pl)}"
      using live that by (simp add: live_def)
    show "length (replies (rt_world ?rt)) \<le> length (replies (rt_world ?rt'))"
      using worker_step_replies[OF s] by (simp add: r)
    show "asked c ?rt'" if "(if j = 0 then md else Helper) = Up" "asked c ?rt" for c
      using that asked_work[OF pool_atD(6)[OF ok] st inv(1) n] by (auto split: if_splits)
  qed
  moreover have "shutting (rt_workers ?rt' ! m) (rt_world ?rt')" if "md = Down" "m < length (rt_workers ?rt)" for m
    using shutting_work[OF inv(1) st n inv(2) that(2)] live that by (simp add: live_def)
  ultimately show ?thesis by (simp add: live_def r)
qed

text \<open>Where a program can be, once it has started.\<close>

definition sound_at :: "mode \<Rightarrow> ('v, 'e) pool \<Rightarrow> bool" where
  "sound_at md pl \<longleftrightarrow> (\<exists>Qs. pool_at md Qs pl) \<and> live md pl"

lemma sound_at_step:
  assumes "sound_at md pl" and "steady cls"
  shows "sound_at (mode_after act pl md) (pool_step order cls act pl)"
proof -
  obtain Qs where ok: "pool_at md Qs pl" and live: "live md pl" using assms(1) by (auto simp: sound_at_def)
  have "live (mode_after act pl md) (pool_step order cls act pl)"
  proof (cases act)
    case (Act_thread i)
    show ?thesis
    proof (cases "i < length (pl_threads pl)")
      case True
      with live_thread[OF ok live] Act_thread show ?thesis by simp
    next
      case False
      with Act_thread live pool_atD(2)[OF ok] show ?thesis by (auto simp: pool_step_def mode_after_def)
    qed
  next
    case (Act_worker n)
    with live_worker[OF ok live assms(2)] live show ?thesis by (auto simp: pool_step_def mode_after_def)
  qed
  with pool_at_step[OF ok assms(2)] show ?thesis by (simp add: sound_at_def)
qed

lemma sound_at_run:
  assumes "sound_at md pl" and "steady cls"
  shows "\<exists>md'. sound_at md' (pool_run order cls acts pl)"
  using assms(1)
proof (induction acts arbitrary: md pl)
  case (Cons act acts)
  from Cons.IH[OF sound_at_step[OF Cons.prems assms(2)]] show ?case by simp
qed auto

end
