(* ===== verification/Threads_End.thy ===== *)
theory Threads_End
  imports Threads_Live
begin

text \<open>
  Programs of threads that can always go on to their end. While the runtime is up the main thread
  waits only for its spawns, and the worker that has been asked gets to the request
  (\<open>confirm_comes\<close>), so it comes to stop the runtime (\<open>main_comes_down\<close>); then every worker returns
  (\<open>comes_to_rest\<close>), and with the workers gone no thread waits any more (\<open>thread_completes\<close>).
\<close>

section \<open>The main thread comes to stop the runtime\<close>

lemma sound_atD:
  assumes "sound_at md pl"
  shows "healthy (pl_rt pl)" "rt_comm (pl_rt pl)" "pl_threads pl \<noteq> []" "md = Up \<Longrightarrow> \<exists>Q. calm (pl_rt pl) Q"
    and "i < length (pl_threads pl) \<Longrightarrow> pl_threads pl ! i \<noteq> T_fail p"
    and "i < length (pl_threads pl) \<Longrightarrow> on_way (pl_rt pl) (pl_threads pl ! i) (if i = 0 then md else Helper) {0<..<length (pl_threads pl)}"
    and "i < length (pl_threads pl) \<Longrightarrow> \<exists>Q. going (pl_rt pl) (pl_threads pl ! i) (if i = 0 then md else Helper) Q"
  using assms pool_atD(1,2,5,6) going_not_fail by (fastforce simp: sound_at_def live_def healthy_def)+

lemma sound_worker:
  assumes "sound_at md pl" and "steady cls"
  shows "sound_at md (pool_step order cls (Act_worker n) pl)"
    and "pl_threads (pool_step order cls (Act_worker n) pl) = pl_threads pl"
  using sound_at_step[OF assms, of "Act_worker n"] by (auto simp: mode_after_def pool_step_def)

text \<open>Its worker confirms a spawn.\<close>

lemma confirm_comes:
  assumes "steady cls"
  shows "sound_at Up pl \<Longrightarrow> n < length (rt_workers (pl_rt pl)) \<Longrightarrow> c < length (confirms (rt_world (pl_rt pl))) \<Longrightarrow>
     SpawnActor i act stop c \<in> set (controls (pl_rt pl) n) \<Longrightarrow>
     \<exists>acts. sound_at Up (pool_run order cls acts pl) \<and> pl_threads (pool_run order cls acts pl) = pl_threads pl
       \<and> confirms (rt_world (pl_rt (pool_run order cls acts pl))) ! c \<noteq> Pending"
proof (induction pl rule: wf_induct_rule[OF wf_measures[of "[\<lambda>pl. length (controls (pl_rt pl) n),
    \<lambda>pl. control_rank (rt_workers (pl_rt pl) ! n) (rt_world (pl_rt pl))]"]])
  case (1 pl)
  let ?pl = "pool_step order cls (Act_worker n) pl" and ?rt = "pl_rt pl"
  have rt': "pl_rt ?pl = run_worker order cls n ?rt" using "1.prems"(2) by (simp add: pool_step_def)
  obtain Q where Q: "calm ?rt Q" using sound_atD(4)[OF "1.prems"(1)] by blast
  note s = sound_worker[OF "1.prems"(1) assms, of order n]
  have l: "n < length (rt_workers (pl_rt ?pl))" "length (confirms (rt_world (pl_rt ?pl))) = length (confirms (rt_world ?rt))"
    using "1.prems"(2) calm_work(2)[OF Q assms sound_atD(2)[OF "1.prems"(1)] "1.prems"(2), of order]
    by (simp_all add: rt' run_worker_def split: prod.splits)
  have again: ?case if "SpawnActor i act stop c \<in> set (controls (pl_rt ?pl) n)"
    and "length (controls (pl_rt ?pl) n) < length (controls ?rt n) \<or> length (controls (pl_rt ?pl) n) = length (controls ?rt n)
      \<and> control_rank (rt_workers (pl_rt ?pl) ! n) (rt_world (pl_rt ?pl)) < control_rank (rt_workers ?rt ! n) (rt_world ?rt)"
  proof -
    have "\<exists>acts. sound_at Up (pool_run order cls acts ?pl) \<and> pl_threads (pool_run order cls acts ?pl) = pl_threads ?pl
       \<and> confirms (rt_world (pl_rt (pool_run order cls acts ?pl))) ! c \<noteq> Pending"
      by (rule "1.IH"[OF _ s(1) l(1) _ that(1)]) (use that(2) l(2) "1.prems"(3) in simp_all)
    then obtain acts where "sound_at Up (pool_run order cls acts ?pl) \<and> pl_threads (pool_run order cls acts ?pl) = pl_threads ?pl
       \<and> confirms (rt_world (pl_rt (pool_run order cls acts ?pl))) ! c \<noteq> Pending" by blast
    with s(2) show ?case by (intro exI[of _ "Act_worker n # acts"]) simp
  qed
  from work_towards(2)[OF Q assms sound_atD(2)[OF "1.prems"(1)] "1.prems"(2) rt'] show ?case
  proof
    assume "takes n ?rt (pl_rt ?pl)"
    then obtain j act' stop' k where t: "controls ?rt n = SpawnActor j act' stop' k # controls (pl_rt ?pl) n"
      "confirms (rt_world (pl_rt ?pl)) = (confirms (rt_world ?rt))[k := Replied ()]" by (auto simp: takes_def)
    show ?case
    proof (cases "k = c")
      case True
      with t(2) s "1.prems"(3) show ?thesis by (intro exI[of _ "[Act_worker n]"]) simp
    next
      case False
      with t(1) "1.prems"(4) show ?thesis by (intro again) auto
    qed
  next
    assume "controls (pl_rt ?pl) n = controls ?rt n \<and> confirms (rt_world (pl_rt ?pl)) = confirms (rt_world ?rt)
      \<and> (controls ?rt n \<noteq> [] \<longrightarrow>
           control_rank (rt_workers (pl_rt ?pl) ! n) (rt_world (pl_rt ?pl)) < control_rank (rt_workers ?rt ! n) (rt_world ?rt))"
    with "1.prems"(4) show ?case by (intro again) auto
  qed
qed

text \<open>A step of the main thread.\<close>

lemma sound_main:
  assumes "sound_at md pl" and "steady cls" and "thread_step (pl_threads pl) (pl_threads pl ! 0) (pl_rt pl) = (t', rt', new)"
  shows "sound_at (next_mode (pl_threads pl ! 0) md) (pool_run order cls [Act_thread 0] pl)"
    and "pl_threads (pool_run order cls [Act_thread 0] pl) ! 0 = t'" and "t' \<noteq> T_fail p"
proof -
  have st: "pool_run order cls [Act_thread 0] pl = \<lparr>pl_rt = rt', pl_threads = (pl_threads pl)[0 := t'] @ new\<rparr>"
    using assms(3) sound_atD(3)[OF assms(1)] by (simp add: pool_step_def)
  show "sound_at (next_mode (pl_threads pl ! 0) md) (pool_run order cls [Act_thread 0] pl)"
    using sound_at_step[OF assms(1,2), of "Act_thread 0" order] by (simp add: mode_after_def)
  from sound_atD(5)[OF this[unfolded st], of 0 p] show "t' \<noteq> T_fail p"
    using sound_atD(3)[OF assms(1)] by (simp add: nth_append)
  show "pl_threads (pool_run order cls [Act_thread 0] pl) ! 0 = t'"
    unfolding st using sound_atD(3)[OF assms(1)] by (simp add: nth_append)
qed

lemma spawn_ends:
  assumes "sound_at Up pl" and st: "steady cls" and t: "pl_threads pl ! 0 = T_spawning tk k"
  shows "\<exists>acts b. sound_at Up (pool_run order cls acts pl) \<and> pl_threads (pool_run order cls acts pl) ! 0 = k b"
proof -
  have a: "asked (tk_confirm tk) (pl_rt pl)"
    using sound_atD(6)[OF assms(1), of 0] sound_atD(3)[OF assms(1)] t by simp
  obtain acts where s: "sound_at Up (pool_run order cls acts pl)" "pl_threads (pool_run order cls acts pl) = pl_threads pl"
    and c: "confirms (rt_world (pl_rt (pool_run order cls acts pl))) ! tk_confirm tk \<noteq> Pending"
  proof (cases "confirms (rt_world (pl_rt pl)) ! tk_confirm tk = Pending")
    case True
    with a confirm_comes[OF st assms(1)] that show ?thesis unfolding asked_def by blast
  next
    case False
    with assms(1) show ?thesis by (intro that[of "[]"]) simp_all
  qed
  let ?pl = "pool_run order cls acts pl"
  have t': "pl_threads ?pl ! 0 = T_spawning tk k" using s(2) t by simp
  obtain t2 rt2 new where ts: "thread_step (pl_threads ?pl) (pl_threads ?pl ! 0) (pl_rt ?pl) = (t2, rt2, new)"
    by (metis prod_cases3)
  note n = sound_main[OF s(1) st ts]
  have "\<exists>b. t2 = k b"
    using ts n(3) c unfolding t'
    by (auto simp: rt_spawn_finish_def spawn_remote_result_def Let_def split: reply.splits)
  with n(1,2) t' show ?thesis
    by (intro exI[of _ "acts @ [Act_thread 0]"]) (auto simp: pool_run_append simp del: pool_run.simps)
qed

definition comes_down ::
  "(actor_id list \<Rightarrow> actor_id list) \<Rightarrow> ('v, 'e) classes \<Rightarrow> ('v, 'e) thread \<Rightarrow> bool" where
  "comes_down order cls t \<longleftrightarrow> (\<forall>pl. sound_at Up pl \<longrightarrow> pl_threads pl ! 0 = t \<longrightarrow>
     (\<exists>acts. sound_at Down (pool_run order cls acts pl)))"

lemma comes_down_via:
  assumes "\<And>pl. sound_at Up pl \<Longrightarrow> pl_threads pl ! 0 = t \<Longrightarrow>
    \<exists>acts t'. sound_at Up (pool_run order cls acts pl) \<and> pl_threads (pool_run order cls acts pl) ! 0 = t' \<and> comes_down order cls t'"
  shows "comes_down order cls t"
  unfolding comes_down_def
proof (intro allI impI)
  fix pl assume "sound_at Up pl" "pl_threads pl ! 0 = t"
  from assms[OF this] obtain acts where "sound_at Up (pool_run order cls acts pl)"
    and "comes_down order cls (pl_threads (pool_run order cls acts pl) ! 0)" by auto
  then obtain acts' where "sound_at Down (pool_run order cls acts' (pool_run order cls acts pl))"
    unfolding comes_down_def by blast
  then show "\<exists>acts. sound_at Down (pool_run order cls acts pl)" unfolding pool_run_append[symmetric] by blast
qed

lemma comes_down_step:
  assumes "steady cls" and "\<And>ts rt t' rt' new. thread_step ts t rt = (t', rt', new) \<Longrightarrow> \<forall>p. t' \<noteq> T_fail p \<Longrightarrow> comes_down order cls t'"
    and "next_mode t Up = Up"
  shows "comes_down order cls t"
proof (rule comes_down_via)
  fix pl assume a: "sound_at Up pl" "pl_threads pl ! 0 = t"
  obtain t' rt' new where ts: "thread_step (pl_threads pl) (pl_threads pl ! 0) (pl_rt pl) = (t', rt', new)"
    by (metis prod_cases3)
  note n = sound_main[OF a(1) assms(1) ts]
  have "comes_down order cls t'" by (rule assms(2)[of "pl_threads pl" "pl_rt pl" t' rt' new]) (use ts a(2) n(3) in auto)
  with n(1,2)[of order] a(2) assms(3) show "\<exists>acts t'. sound_at Up (pool_run order cls acts pl) \<and> pl_threads (pool_run order cls acts pl) ! 0 = t' \<and> comes_down order cls t'"
    by (intro exI[of _ "[Act_thread 0]"] exI[of _ t']) simp
qed

lemma comes_down_now:
  assumes "steady cls" and "next_mode t Up = Down"
  shows "comes_down order cls t"
  unfolding comes_down_def
proof (intro allI impI)
  fix pl assume a: "sound_at Up pl" "pl_threads pl ! 0 = t"
  have "sound_at Down (pool_run order cls [Act_thread 0] pl)"
    using sound_at_step[OF a(1) assms(1), of "Act_thread 0" order] a(2) assms(2) by (simp add: mode_after_def)
  then show "\<exists>acts. sound_at Down (pool_run order cls acts pl)" by blast
qed

lemma comes_down_never:
  assumes "\<And>rt H. \<not> on_way rt t Up H"
  shows "comes_down order cls t"
  unfolding comes_down_def using sound_atD(6)[of Up _ 0] sound_atD(3) assms by fastforce

lemma comes_down_spawning:
  assumes "steady cls" and "\<And>b. comes_down order cls (k b)"
  shows "comes_down order cls (T_spawning tk k)"
proof (rule comes_down_via)
  fix pl assume "sound_at Up pl" "pl_threads pl ! 0 = T_spawning tk k"
  from spawn_ends[OF this(1) assms(1) this(2), of order] assms(2)
  show "\<exists>acts t'. sound_at Up (pool_run order cls acts pl) \<and> pl_threads (pool_run order cls acts pl) ! 0 = t' \<and> comes_down order cls t'"
    by metis
qed

lemma main_comes_down:
  assumes st: "steady cls"
  shows "comes_down order cls t"
proof (induction t)
  case (T_spawn s a v k)
  have d: "comes_down order cls t'"
    if "thread_step ts (T_spawn s a v k) rt = (t', rt', new)" "\<forall>p. t' \<noteq> T_fail p" for ts rt t' rt' new
    using that comes_down_spawning[OF st T_spawn.IH[OF rangeI]]
    by (auto split: prod.splits sum.splits fault.splits)
  show ?case by (rule comes_down_step[OF st], rule d) simp_all
next
  case (T_lock f k)
  then show ?case by - (rule comes_down_step[OF st]; auto)
next
  case (T_do_send a m k)
  have d: "comes_down order cls t'"
    if "thread_step ts (T_do_send a m k) rt = (t', rt', new)" for ts rt t' rt' new
    using that T_do_send.IH[OF rangeI] by (auto split: prod.splits)
  show ?case by (rule comes_down_step[OF st], rule d) simp_all
next
  case (T_clone a k)
  have d: "comes_down order cls t'"
    if "thread_step ts (T_clone a k) rt = (t', rt', new)" for ts rt t' rt' new
    using that T_clone.IH[OF rangeI] by (auto split: prod.splits)
  show ?case by (rule comes_down_step[OF st], rule d) simp_all
next
  case (T_drop a k)
  then show ?case by - (rule comes_down_step[OF st]; auto)
next
  case (T_fork c k)
  then show ?case by - (rule comes_down_step[OF st]; auto)
next
  case (T_num_workers k)
  then show ?case by - (rule comes_down_step[OF st]; auto)
next
  case (T_spawning tk k)
  then show ?case by - (rule comes_down_spawning[OF st]; auto)
qed (rule comes_down_never comes_down_now[OF st]; simp)+

section \<open>The workers come to their end\<close>

lemma worker_ends:
  assumes st: "steady cls"
  shows "sound_at Down pl \<Longrightarrow> n < length (rt_workers (pl_rt pl)) \<Longrightarrow>
     \<exists>acts. sound_at Down (pool_run order cls acts pl)
       \<and> length (rt_workers (pl_rt (pool_run order cls acts pl))) = length (rt_workers (pl_rt pl))
       \<and> over (rt_workers (pl_rt (pool_run order cls acts pl)) ! n)
       \<and> (\<forall>m. m \<noteq> n \<longrightarrow> rt_workers (pl_rt (pool_run order cls acts pl)) ! m = rt_workers (pl_rt pl) ! m)"
proof (induction pl rule: measure_induct_rule[of "\<lambda>pl. steps_left (rt_workers (pl_rt pl) ! n) (rt_world (pl_rt pl))"])
  case (less pl)
  let ?pl = "pool_step order cls (Act_worker n) pl"
  show ?case
  proof (cases "over (rt_workers (pl_rt pl) ! n)")
    case True
    with less.prems show ?thesis by (intro exI[of _ "[]"]) simp
  next
    case False
    obtain wk w where s: "worker_step order cls (rt_workers (pl_rt pl) ! n) (rt_world (pl_rt pl)) = (wk, w)" by fastforce
    then have r: "rt_world (pl_rt ?pl) = w" "rt_workers (pl_rt ?pl) = (rt_workers (pl_rt pl))[n := wk]"
      using less.prems(2) by (simp_all add: pool_step_def run_worker_def)
    have "shutting (rt_workers (pl_rt pl) ! n) (rt_world (pl_rt pl))"
      using less.prems by (simp add: sound_at_def live_def)
    with worker_step_shutting[OF s _ False] r less.prems(2)
    have "steps_left (rt_workers (pl_rt ?pl) ! n) (rt_world (pl_rt ?pl)) < steps_left (rt_workers (pl_rt pl) ! n) (rt_world (pl_rt pl))"
      by simp
    from less.IH[OF this sound_worker(1)[OF less.prems(1) st]] r less.prems(2) obtain acts
      where "sound_at Down (pool_run order cls acts ?pl)"
        "length (rt_workers (pl_rt (pool_run order cls acts ?pl))) = length (rt_workers (pl_rt pl))"
        "over (rt_workers (pl_rt (pool_run order cls acts ?pl)) ! n)"
        "\<forall>m. m \<noteq> n \<longrightarrow> rt_workers (pl_rt (pool_run order cls acts ?pl)) ! m = rt_workers (pl_rt pl) ! m"
      by auto
    then show ?thesis by (intro exI[of _ "Act_worker n # acts"]) simp
  qed
qed

lemma workers_end:
  assumes st: "steady cls" and "sound_at Down pl"
  shows "n \<le> length (rt_workers (pl_rt pl)) \<Longrightarrow> \<exists>acts. sound_at Down (pool_run order cls acts pl)
    \<and> length (rt_workers (pl_rt (pool_run order cls acts pl))) = length (rt_workers (pl_rt pl))
    \<and> (\<forall>m < n. over (rt_workers (pl_rt (pool_run order cls acts pl)) ! m))"
proof (induction n)
  case 0
  with assms(2) show ?case by (intro exI[of _ "[]"]) simp
next
  case (Suc n)
  then obtain acts where a: "sound_at Down (pool_run order cls acts pl)"
    "length (rt_workers (pl_rt (pool_run order cls acts pl))) = length (rt_workers (pl_rt pl))"
    "\<forall>m < n. over (rt_workers (pl_rt (pool_run order cls acts pl)) ! m)" by auto
  have "n < length (rt_workers (pl_rt (pool_run order cls acts pl)))" using a(2) Suc.prems by simp
  from worker_ends[OF st a(1) this, of order] obtain acts' where
    "sound_at Down (pool_run order cls (acts @ acts') pl)"
    "length (rt_workers (pl_rt (pool_run order cls (acts @ acts') pl))) = length (rt_workers (pl_rt pl))"
    "over (rt_workers (pl_rt (pool_run order cls (acts @ acts') pl)) ! n)"
    "\<forall>m. m \<noteq> n \<longrightarrow> rt_workers (pl_rt (pool_run order cls (acts @ acts') pl)) ! m = rt_workers (pl_rt (pool_run order cls acts pl)) ! m"
    using a(2) by (auto simp: pool_run_append)
  with a(3) show ?case by (intro exI[of _ "acts @ acts'"]) (auto simp: less_Suc_eq)
qed

text \<open>All workers have returned.\<close>

definition quiet :: "('v, 'e) pool \<Rightarrow> bool" where
  "quiet pl \<longleftrightarrow> sound_at Down pl \<and> rt_join (pl_rt pl) = Some (Inr ())"

lemma comes_to_rest:
  assumes st: "steady cls" and "sound_at Down pl"
  shows "\<exists>acts. quiet (pool_run order cls acts pl)"
proof -
  obtain acts where a: "sound_at Down (pool_run order cls acts pl)"
    "length (rt_workers (pl_rt (pool_run order cls acts pl))) = length (rt_workers (pl_rt pl))"
    "\<forall>m < length (rt_workers (pl_rt pl)). over (rt_workers (pl_rt (pool_run order cls acts pl)) ! m)"
    using workers_end[OF assms le_refl] by blast
  have "wk_place wk = Exited" if "over wk" "\<not> blocked wk" "\<not> unwound wk" for wk :: "'a worker"
    using that by (auto simp: over_def blocked_def unwound_def split: worker_place.splits)
  with a sound_atD(1)[OF a(1)] have "list_all (\<lambda>wk. wk_place wk = Exited) (rt_workers (pl_rt (pool_run order cls acts pl)))"
    by (auto simp: healthy_def list_all_length)
  moreover from this have "list_all wk_ended (rt_workers (pl_rt (pool_run order cls acts pl)))"
    by (auto simp: list_all_iff wk_ended_def)
  ultimately show ?thesis using a(1) by (auto simp: quiet_def rt_join_def)
qed

section \<open>The threads come to their end\<close>

lemma quiet_step:
  assumes "quiet pl" and "steady cls"
  shows "quiet (pool_step order cls (Act_thread i) pl)"
proof -
  have "rt_workers (pl_rt (pool_step order cls (Act_thread i) pl)) = rt_workers (pl_rt pl)"
    by (auto simp: pool_step_def dest: thread_step_runs(2) split: prod.splits)
  moreover have "sound_at Down (pool_step order cls (Act_thread i) pl)"
    using sound_at_step[OF _ assms(2), of Down pl "Act_thread i" order] assms(1)
    by (simp add: quiet_def mode_after_def next_mode_main(2) split: if_splits)
  ultimately show ?thesis using assms(1) by (simp add: quiet_def rt_join_def split: if_splits)
qed

text \<open>Thread \<open>i\<close> has returned, with all that it started; the others are as they were.\<close>

definition completed :: "nat \<Rightarrow> ('v, 'e) thread list \<Rightarrow> ('v, 'e) thread list \<Rightarrow> bool" where
  "completed i ts ts' \<longleftrightarrow> length ts \<le> length ts'
     \<and> (\<forall>j < length ts'. ts' ! j = (if j < length ts \<and> j \<noteq> i then ts ! j else T_done))"

text \<open>The main thread may wait for the others, so these have to be through before.\<close>

definition completes ::
  "(actor_id list \<Rightarrow> actor_id list) \<Rightarrow> ('v, 'e) classes \<Rightarrow> ('v, 'e) thread \<Rightarrow> bool" where
  "completes order cls t \<longleftrightarrow> (\<forall>pl i. quiet pl \<longrightarrow> i < length (pl_threads pl) \<longrightarrow> pl_threads pl ! i = t
     \<longrightarrow> (i = 0 \<longrightarrow> (\<forall>j < length (pl_threads pl). j \<noteq> 0 \<longrightarrow> pl_threads pl ! j = T_done))
     \<longrightarrow> (\<exists>acts. quiet (pool_run order cls acts pl)
          \<and> completed i (pl_threads pl) (pl_threads (pool_run order cls acts pl))))"

lemma completesD:
  assumes "completes order cls t" and "quiet pl" and "i < length (pl_threads pl)" and "pl_threads pl ! i = t"
    and "\<forall>j. i = 0 \<and> j < length (pl_threads pl) \<and> 0 < j \<longrightarrow> pl_threads pl ! j = T_done"
  obtains acts where "quiet (pool_run order cls acts pl)"
    and "completed i (pl_threads pl) (pl_threads (pool_run order cls acts pl))"
  using assms(1)[unfolded completes_def, rule_format, OF assms(2-4)] assms(5) that by auto

text \<open>A thread when all workers have returned, and the threads it may join as well.\<close>

definition at_rest :: "('v, 'e) thread list \<Rightarrow> ('v, 'e) thread \<Rightarrow> ('v, 'e) runtime \<Rightarrow> mode \<Rightarrow> bool" where
  "at_rest ts t rt md \<longleftrightarrow> md \<noteq> Up \<and> on_way rt t md {0<..<length ts} \<and> (\<exists>Q. going rt t md Q)
     \<and> rt_comm rt \<and> rt_join rt = Some (Inr ()) \<and> (md = Down \<longrightarrow> (\<forall>j \<in> {0<..<length ts}. ts ! j = T_done))"

lemma quiet_at_rest:
  assumes "quiet pl" and "i < length (pl_threads pl)"
    and "i = 0 \<longrightarrow> (\<forall>j < length (pl_threads pl). j \<noteq> 0 \<longrightarrow> pl_threads pl ! j = T_done)"
  shows "at_rest (pl_threads pl) (pl_threads pl ! i) (pl_rt pl) (if i = 0 then Down else Helper)"
  using assms sound_atD(2,6,7)[of Down pl] by (auto simp: at_rest_def quiet_def)

lemma completes_step:
  assumes st: "steady cls"
    and k: "\<And>ts rt md t' rt' new. at_rest ts t rt md \<Longrightarrow> thread_step ts t rt = (t', rt', new) \<Longrightarrow>
      \<forall>p. t' \<noteq> T_fail p \<Longrightarrow> new = [] \<and> completes order cls t'"
  shows "completes order cls t"
  unfolding completes_def
proof (intro allI impI)
  fix pl i
  assume q: "quiet pl" and i: "i < length (pl_threads pl)" and t: "pl_threads pl ! i = t"
    and j: "i = 0 \<longrightarrow> (\<forall>j < length (pl_threads pl). j \<noteq> 0 \<longrightarrow> pl_threads pl ! j = T_done)"
  let ?pl = "pool_step order cls (Act_thread i) pl"
  obtain t' rt' new where s: "thread_step (pl_threads pl) (pl_threads pl ! i) (pl_rt pl) = (t', rt', new)"
    by (metis prod_cases3)
  then have ts: "pl_threads ?pl = (pl_threads pl)[i := t'] @ new" using i by (simp add: pool_step_def)
  note q' = quiet_step[OF q st, of order i]
  have "\<forall>p. t' \<noteq> T_fail p"
    using sound_atD(5)[of Down ?pl i] q' i by (fastforce simp: quiet_def ts nth_append)
  from k[OF quiet_at_rest[OF q i j, unfolded t] s[unfolded t] this] have n: "new = []" and c: "completes order cls t'" by simp_all
  obtain acts where "quiet (pool_run order cls acts ?pl)" "completed i (pl_threads ?pl) (pl_threads (pool_run order cls acts ?pl))"
    by (rule completesD[OF c q', of i]) (use i j ts n in auto)
  then have "quiet (pool_run order cls (Act_thread i # acts) pl)"
    "completed i (pl_threads ?pl) (pl_threads (pool_run order cls (Act_thread i # acts) pl))" by simp_all
  then show "\<exists>acts. quiet (pool_run order cls acts pl) \<and> completed i (pl_threads pl) (pl_threads (pool_run order cls acts pl))"
    using i by (intro exI[of _ "Act_thread i # acts"]) (auto simp: completed_def ts n nth_list_update)
qed

lemma completes_fork:
  assumes st: "steady cls" and c: "completes order cls c" and k: "\<And>i. completes order cls (k i)"
  shows "completes order cls (T_fork c k)"
  unfolding completes_def
proof (intro allI impI)
  fix pl i
  assume q: "quiet pl" and i: "i < length (pl_threads pl)" and t: "pl_threads pl ! i = T_fork c k"
    and j: "i = 0 \<longrightarrow> (\<forall>j < length (pl_threads pl). j \<noteq> 0 \<longrightarrow> pl_threads pl ! j = T_done)"
  let ?l = "length (pl_threads pl)" and ?pl = "pool_step order cls (Act_thread i) pl"
  have ts: "pl_threads ?pl = (pl_threads pl)[i := k ?l] @ [c]" using i t by (simp add: pool_step_def)
  obtain acts where a: "quiet (pool_run order cls acts ?pl)" "completed ?l (pl_threads ?pl) (pl_threads (pool_run order cls acts ?pl))"
    by (rule completesD[OF c quiet_step[OF q st, of order i], of ?l]) (use i in \<open>auto simp: ts nth_append\<close>)
  let ?pl2 = "pool_run order cls acts ?pl"
  have ts2: "?l < length (pl_threads ?pl2)" "\<And>j. j < length (pl_threads ?pl2) \<Longrightarrow> pl_threads ?pl2 ! j = (if j < ?l then if j = i then k ?l else pl_threads pl ! j else T_done)"
    using a(2) by (auto simp: completed_def ts nth_append nth_list_update)
  obtain acts' where "quiet (pool_run order cls acts' ?pl2)"
    "completed i (pl_threads ?pl2) (pl_threads (pool_run order cls acts' ?pl2))"
    by (rule completesD[OF k[of ?l] a(1), of i]) (use i j ts2 in auto)
  then have "quiet (pool_run order cls (Act_thread i # acts @ acts') pl)"
    "completed i (pl_threads ?pl2) (pl_threads (pool_run order cls (Act_thread i # acts @ acts') pl))"
    by (simp_all add: pool_run_append)
  then show "\<exists>acts. quiet (pool_run order cls acts pl) \<and> completed i (pl_threads pl) (pl_threads (pool_run order cls acts pl))"
    using ts2 by (intro exI[of _ "Act_thread i # acts @ acts'"]) (auto simp: completed_def)
qed

lemma at_rest_simps:
  assumes "at_rest ts t rt md"
  shows "\<not> chan_open (chan_at (rt_world rt) c)"
    and "q < length (replies (rt_world rt)) \<Longrightarrow> addr_send_result q (rt_world rt) \<noteq> None"
    and "rt_join rt = Some (Inr ())" and "rt_drop_end rt = Some ()" and "md \<noteq> Up"
    and "on_way rt t md {0<..<length ts}" and "\<exists>Q. going rt t md Q"
    and "md = Down \<Longrightarrow> 0 < j \<Longrightarrow> j < length ts \<Longrightarrow> ts ! j = T_done"
  using assms rt_ended_settled[of rt]
  by (auto simp: at_rest_def addr_send_result_def rt_drop_end_def rt_join_def split: reply.splits if_splits)

lemma thread_completes:
  assumes st: "steady cls"
  shows "completes order cls t"
proof (induction t)
  case T_done
  have "completed i ts ts" if "ts ! i = T_done" for i and ts :: "('a, 'b) thread list"
    using that by (auto simp: completed_def)
  then show ?case by (auto simp: completes_def intro!: exI[of _ "[]"])
next
  case (T_fail p)
  then show ?case using sound_atD(5) by (fastforce simp: completes_def quiet_def)
next
  case (T_fork c k)
  then show ?case by (intro completes_fork[OF st]) auto
next
  case (T_send a m k)
  have d: "new = [] \<and> completes order cls t'"
    if "at_rest ts (T_send a m k) rt md" "thread_step ts (T_send a m k) rt = (t', rt', new)" for ts rt md t' rt' new
    using that(2) at_rest_simps(1)[OF that(1)] T_send.IH[OF rangeI]
    by (auto simp: addr_send_begin_def Let_def tx_send_def split: prod.splits sum.splits if_splits)
  show ?case by (rule completes_step[OF st], rule d)
next
  case (T_await q k)
  have d: "new = [] \<and> completes order cls t'"
    if r: "at_rest ts (T_await q k) rt md" and s: "thread_step ts (T_await q k) rt = (t', rt', new)" for ts rt md t' rt' new
  proof -
    obtain res where "addr_send_result q (rt_world rt) = Some res"
      using at_rest_simps(2)[OF r, of q] at_rest_simps(6)[OF r] by auto
    with s T_await.IH[OF rangeI] show ?thesis by auto
  qed
  show ?case by (rule completes_step[OF st], rule d)
next
  case (T_do_send a m k)
  have d: "new = [] \<and> completes order cls t'"
    if "thread_step ts (T_do_send a m k) rt = (t', rt', new)" for ts rt t' rt' new
    using that T_do_send.IH[OF rangeI] by (auto split: prod.splits)
  show ?case by (rule completes_step[OF st], rule d)
next
  case (T_clone a k)
  have d: "new = [] \<and> completes order cls t'"
    if "thread_step ts (T_clone a k) rt = (t', rt', new)" for ts rt t' rt' new
    using that T_clone.IH[OF rangeI] by (auto split: prod.splits)
  show ?case by (rule completes_step[OF st], rule d)
next
  case (T_spawn s a v k)
  show ?case by (rule completes_step[OF st]) (auto simp: at_rest_def)
next
  case (T_spawning tk k)
  show ?case by (rule completes_step[OF st]) (auto simp: at_rest_def)
next
  case (T_join i k)
  have d: "new = [] \<and> completes order cls t'"
    if "at_rest ts (T_join i k) rt md" "thread_step ts (T_join i k) rt = (t', rt', new)" for ts rt md t' rt' new
  proof -
    have "md = Down" "i \<in> {0<..<length ts}" using at_rest_simps(6)[OF that(1)] by simp_all
    then have "ts ! i = T_done" "i < length ts" using at_rest_simps(8)[OF that(1), of i] by auto
    with that(2) T_join.IH[OF rangeI] show ?thesis by (auto simp: finished_def)
  qed
  show ?case by (rule completes_step[OF st], rule d)
next
  case (T_join_workers k)
  have d: "new = [] \<and> completes order cls t'"
    if "at_rest ts (T_join_workers k) rt md" "thread_step ts (T_join_workers k) rt = (t', rt', new)" for ts rt md t' rt' new
    using that(2) at_rest_simps(3)[OF that(1)] T_join_workers.IH by auto
  show ?case by (rule completes_step[OF st], rule d)
next
  case (T_drop_wait k)
  have d: "new = [] \<and> completes order cls t'"
    if "at_rest ts (T_drop_wait k) rt md" "thread_step ts (T_drop_wait k) rt = (t', rt', new)" for ts rt md t' rt' new
    using that(2) at_rest_simps(4)[OF that(1)] T_drop_wait.IH by auto
  show ?case by (rule completes_step[OF st], rule d)
next
  case (T_drop_rt k)
  have "completes order cls (T_drop_wait k)"
  proof (rule completes_step[OF st])
    fix ts :: "('a, 'b) thread list" and rt :: "('a, 'b) runtime" and md t' rt' new
    assume "at_rest ts (T_drop_wait k) rt md" "thread_step ts (T_drop_wait k) rt = (t', rt', new)"
    then show "new = [] \<and> completes order cls t'" using at_rest_simps(4) T_drop_rt.IH by fastforce
  qed
  then show ?case by - (rule completes_step[OF st]; auto)
next
  case (T_drop a k)
  then show ?case by - (rule completes_step[OF st]; auto)
next
  case (T_lock f k)
  then show ?case by - (rule completes_step[OF st]; auto)
next
  case (T_num_workers k)
  then show ?case by - (rule completes_step[OF st]; auto)
next
  case (T_shutdown k)
  then show ?case by - (rule completes_step[OF st]; auto)
qed

lemma others_complete:
  assumes st: "steady cls" and q: "quiet pl"
  shows "n \<le> length (pl_threads pl) \<Longrightarrow> \<exists>acts. quiet (pool_run order cls acts pl)
    \<and> length (pl_threads pl) \<le> length (pl_threads (pool_run order cls acts pl))
    \<and> (\<forall>j < length (pl_threads (pool_run order cls acts pl)). 0 < j \<and> (j < n \<or> length (pl_threads pl) \<le> j) \<longrightarrow>
         pl_threads (pool_run order cls acts pl) ! j = T_done)"
proof (induction n)
  case 0
  with q show ?case by (intro exI[of _ "[]"]) simp
next
  case (Suc n)
  then obtain acts where a: "quiet (pool_run order cls acts pl)"
    "length (pl_threads pl) \<le> length (pl_threads (pool_run order cls acts pl))"
    "\<forall>j < length (pl_threads (pool_run order cls acts pl)). 0 < j \<and> (j < n \<or> length (pl_threads pl) \<le> j) \<longrightarrow>
         pl_threads (pool_run order cls acts pl) ! j = T_done" by auto
  show ?case
  proof (cases "n = 0")
    case True
    with a show ?thesis by (intro exI[of _ acts]) auto
  next
    case False
    obtain acts' where "quiet (pool_run order cls acts' (pool_run order cls acts pl))"
      "completed n (pl_threads (pool_run order cls acts pl)) (pl_threads (pool_run order cls acts' (pool_run order cls acts pl)))"
      by (rule completesD[OF thread_completes[OF st] a(1), of n]) (use a(2) Suc.prems False in auto)
    with a(2,3) show ?thesis
      by (intro exI[of _ "acts @ acts'"]) (auto simp: pool_run_append completed_def)
  qed
qed

section \<open>Property\<close>

text \<open>All threads have returned, and all workers.\<close>

definition all_ended :: "('v, 'e) pool \<Rightarrow> bool" where
  "all_ended pl \<longleftrightarrow> pool_verdict pl = Passed \<and> list_all (\<lambda>t. finished t \<and> \<not> failed t) (pl_threads pl)
     \<and> list_all (\<lambda>wk. wk_place wk = Exited) (rt_workers (pl_rt pl))"

lemma quiet_completes:
  assumes st: "steady cls" and q: "quiet pl"
  shows "\<exists>acts. all_ended (pool_run order cls acts pl)"
proof -
  obtain acts where a: "quiet (pool_run order cls acts pl)"
    "length (pl_threads pl) \<le> length (pl_threads (pool_run order cls acts pl))"
    "\<forall>j < length (pl_threads (pool_run order cls acts pl)). 0 < j \<longrightarrow> pl_threads (pool_run order cls acts pl) ! j = T_done"
    using others_complete[OF st q le_refl, of order] by (metis not_le_imp_less)
  have ne: "0 < length (pl_threads (pool_run order cls acts pl))"
    using sound_atD(3)[of Down "pool_run order cls acts pl"] a(1) by (simp add: quiet_def)
  obtain acts' where b: "quiet (pool_run order cls acts' (pool_run order cls acts pl))"
    "completed 0 (pl_threads (pool_run order cls acts pl)) (pl_threads (pool_run order cls acts' (pool_run order cls acts pl)))"
    by (rule completesD[OF thread_completes[OF st] a(1), of 0]) (use ne a(3) in auto)
  let ?pl = "pool_run order cls (acts @ acts') pl"
  have d: "pl_threads ?pl ! j = T_done" if "j < length (pl_threads ?pl)" for j
    using b(2) a(3) that by (auto simp: pool_run_append completed_def)
  have "0 < length (pl_threads ?pl)" using b(2) ne by (auto simp: pool_run_append completed_def)
  from d[OF this] have "pool_verdict ?pl = Passed" by (simp add: pool_verdict_def)
  moreover have "list_all (\<lambda>t. finished t \<and> \<not> failed t) (pl_threads ?pl)"
    using d by (simp add: list_all_length finished_def failed_def)
  moreover have "list_all (\<lambda>wk. wk_place wk = Exited) (rt_workers (pl_rt ?pl))"
    using b(1) by (auto simp: pool_run_append quiet_def rt_join_def split: if_splits)
  ultimately show ?thesis unfolding all_ended_def by blast
qed

lemma sound_can_finish:
  assumes st: "steady cls" and s: "sound_at md pl"
  shows "\<exists>acts. all_ended (pool_run order cls acts pl)"
proof -
  have down: "\<exists>acts. all_ended (pool_run order cls acts pl')" if "sound_at Down pl'" for pl'
    using comes_to_rest[OF st that, of order] quiet_completes[OF st, of _ order] pool_run_append by metis
  show ?thesis
  proof (cases md)
    case Up
    then obtain acts where "sound_at Down (pool_run order cls acts pl)"
      using main_comes_down[OF st, of order] s unfolding comes_down_def by blast
    with down show ?thesis by (metis pool_run_append)
  next
    case Down
    with down s show ?thesis by blast
  next
    case Helper
    with s pool_atD(3) show ?thesis by (auto simp: sound_at_def)
  qed
qed

lemma sound_at_start:
  assumes "rt_with_threads n e = Inr rt" and "tame main Up {#}" and "prompt main Up {}"
  shows "sound_at Up (pool_start rt main)"
proof -
  have "running (shared (rt_world rt))" using assms(1) by (auto simp: rt_with_threads_def split: if_splits)
  with pool_at_start[OF assms(1,2)] prompt_on_way[OF prompt_mono[OF assms(3) empty_subsetI], of rt] show ?thesis
    by (auto simp: sound_at_def live_def pool_start_def)
qed

lemma prompt_can_finish:
  assumes "rt_with_threads n e = Inr rt" and "steady cls" and "tame main Up {#}" and "prompt main Up {}"
  shows "\<exists>acts'. all_ended (pool_run order cls (acts @ acts') (pool_start rt main))"
proof -
  obtain md where "sound_at md (pool_run order cls acts (pool_start rt main))"
    using sound_at_run[OF sound_at_start[OF assms(1,3,4)] assms(2)] by blast
  from sound_can_finish[OF assms(2) this] show ?thesis by (simp add: pool_run_append)
qed

text \<open>
  C14: a program whose threads pass the checks \<open>tame\<close> and \<open>prompt\<close> and whose callbacks are \<open>steady\<close>
  cannot get stuck: whatever schedule its threads and the workers have followed, there is a
  continuation in which every thread and every worker returns and the main thread has passed. So
  no \<^verbatim>\<open>send\<close>, \<^verbatim>\<open>spawn\<close>, \<^verbatim>\<open>join\<close> or \<^verbatim>\<open>run\<close> of it waits for what can no longer come.
\<close>

theorem pool_can_finish:
  assumes "rt_with_threads n e = Inr rt" and "steady cls" and "tame main Up {#}" and "prompt main Up {}"
  shows "\<exists>acts'. all_ended (pool_run order cls (acts @ acts') (pool_start rt main))"
  by (rule prompt_can_finish[OF assms])

text \<open>A handler that panics, in a state in which a thread waits for its reply and the runtime is being stopped.\<close>

theorem pool_can_finish_witness:
  "case rt_with_threads 2 () of
     Inl _ \<Rightarrow> False
   | Inr rt \<Rightarrow>
       \<exists>acts'. all_ended (pool_run id (\<lambda>a. \<lparr>cls_handle = \<lambda>_ _. Panic POther, cls_stopped = \<lambda>_. Return ()\<rparr>)
         ([Act_thread 0, Act_worker 0, Act_thread 0, Act_thread 0, Act_thread 1, Act_thread 0] @ acts')
         (pool_start rt
           (T_spawn (Return ()) 0 () (\<lambda>a.
            T_fork (T_send a () (\<lambda>_. T_drop a T_done)) (\<lambda>i.
            t_run (t_join i T_done))))))"
proof -
  obtain rt :: "(unit, unit) runtime" where rt: "rt_with_threads 2 () = Inr rt" by (simp add: rt_with_threads_def)
  have "\<exists>acts'. all_ended (pool_run id (\<lambda>a. \<lparr>cls_handle = \<lambda>_ _. Panic POther, cls_stopped = \<lambda>_. Return ()\<rparr>)
      ([Act_thread 0, Act_worker 0, Act_thread 0, Act_thread 0, Act_thread 1, Act_thread 0] @ acts')
      (pool_start rt
        (T_spawn (Return ()) 0 () (\<lambda>a.
         T_fork (T_send a () (\<lambda>_. T_drop a T_done)) (\<lambda>i.
         t_run (t_join i T_done))))))"
    by (rule pool_can_finish[OF rt]) (auto simp: steady_def waitless_def t_run_def t_join_def)
  with rt show ?thesis by simp
qed

end
