(* ===== verification/Test_Runtime.thy ===== *)
theory Test_Runtime
  imports Threads Example_Text
begin

text \<open>
  The unit tests of \<^verbatim>\<open>src/runtime.rs\<close> as programs of threads. The definition of a test is what its
  main thread does; \<open>rt_test\<close> starts it on a runtime with so many workers. Whether a test passes
  may depend on the schedule. Time is not modelled: a handler that sleeps returns at once, and the
  assertion of \<^verbatim>\<open>actors_run_concurrently\<close> about the clock is left out.
\<close>

section \<open>The actors of the tests\<close>

datatype rt_val =
    RCounter usize | RSleeper | RLifecycle | RFair usize | RParent | RChild | RPanicker
  | RIncrement | RSleep u64 | RPing | RWork | RSpawnChild | RTriggerPanic
  | RUsize usize | RUnit

text \<open>What the tests share with their actors behind \<^verbatim>\<open>Arc<Mutex<_>>\<close>.\<close>

record rt_env =
  life_flags :: "bool \<times> bool"
  processed :: "usize list"
  child_count :: usize

definition rt_env0 :: rt_env where
  "rt_env0 = \<lparr>life_flags = (False, False), processed = [], child_count = 0\<rparr>"

type_synonym rt_prog = "(rt_val, rt_env) prog"

type_synonym rt_thread = "(rt_val, rt_env) thread"

fun rcounter_handle :: "bool \<Rightarrow> rt_val \<Rightarrow> rt_val \<Rightarrow> rt_prog" where
  "rcounter_handle oc (RCounter n) RIncrement =
     (case add_profile oc n 1 of
        None \<Rightarrow> Panic (PStr ''attempt to add with overflow'')
      | Some m \<Rightarrow> SetSelf (RCounter m) (Return (RUsize m)))"
| "rcounter_handle oc _ _ = Panic POther"

fun rsleeper_handle :: "rt_val \<Rightarrow> rt_val \<Rightarrow> rt_prog" where
  "rsleeper_handle RSleeper (RSleep ms) = Return RUnit"
| "rsleeper_handle _ _ = Panic POther"

definition rlife_started :: rt_prog where
  "rlife_started = Shared (\<lambda>e. e\<lparr>life_flags := (True, snd (life_flags e))\<rparr>) (\<lambda>_. Return RUnit)"

definition rlife_stopped :: rt_prog where
  "rlife_stopped = Shared (\<lambda>e. e\<lparr>life_flags := (fst (life_flags e), True)\<rparr>) (\<lambda>_. Return RUnit)"

fun rlife_handle :: "rt_val \<Rightarrow> rt_val \<Rightarrow> rt_prog" where
  "rlife_handle RLifecycle RPing = Return RUnit"
| "rlife_handle _ _ = Panic POther"

fun rfair_handle :: "rt_val \<Rightarrow> rt_val \<Rightarrow> rt_prog" where
  "rfair_handle (RFair i) RWork = Shared (\<lambda>e. e\<lparr>processed := processed e @ [i]\<rparr>) (\<lambda>_. Return RUnit)"
| "rfair_handle _ _ = Panic POther"

fun rparent_handle :: "bool \<Rightarrow> rt_val \<Rightarrow> rt_val \<Rightarrow> rt_prog" where
  "rparent_handle oc RParent RSpawnChild =
     SpawnChild 5 RChild (Return RUnit) (\<lambda>child.
       Shared id (\<lambda>e.
         case add_profile oc (child_count e) 1 of
           None \<Rightarrow> Panic (PStr ''attempt to add with overflow'')
         | Some n \<Rightarrow> Shared (\<lambda>e. e\<lparr>child_count := n\<rparr>) (\<lambda>_. DropAddr child (Return RUnit))))"
| "rparent_handle oc _ _ = Panic POther"

fun rchild_handle :: "rt_val \<Rightarrow> rt_val \<Rightarrow> rt_prog" where
  "rchild_handle RChild RPing = Return RUnit"
| "rchild_handle _ _ = Panic POther"

fun rpanicker_handle :: "rt_val \<Rightarrow> rt_val \<Rightarrow> rt_prog" where
  "rpanicker_handle RPanicker RTriggerPanic = Panic (PStr ''deliberate panic in actor'')"
| "rpanicker_handle _ _ = Panic POther"

text \<open>The types by number, in the order of the constructors.\<close>

definition rt_classes :: "bool \<Rightarrow> (rt_val, rt_env) classes" where
  "rt_classes oc a =
     \<lparr>cls_handle =
        (if a = 0 then rcounter_handle oc else if a = 1 then rsleeper_handle else if a = 2 then rlife_handle
         else if a = 3 then rfair_handle else if a = 4 then rparent_handle oc else if a = 5 then rchild_handle
         else rpanicker_handle),
      cls_stopped = (\<lambda>_. if a = 2 then rlife_stopped else Return RUnit)\<rparr>"

section \<open>The tests\<close>

definition rt_test :: "nat \<Rightarrow> rt_thread \<Rightarrow> (rt_val, rt_env) pool option" where
  "rt_test workers main =
     (case rt_with_threads workers rt_env0 of Inl _ \<Rightarrow> None | Inr rt \<Rightarrow> Some (pool_start rt main))"

definition rt_spawn_and_send_message :: rt_thread where
  "rt_spawn_and_send_message =
     T_spawn (Return RUnit) 0 (RCounter 0) (\<lambda>addr.
     T_fork
       (T_send addr RIncrement (\<lambda>r. t_unwrap r (\<lambda>v. t_assert (v = RUsize 1) (T_drop addr T_done))))
       (\<lambda>sender. t_run (t_join sender T_done)))"

text \<open>\<^verbatim>\<open>let _ = addr.send(..); drop(addr);\<close>\<close>

definition send_and_drop :: "rt_val \<Rightarrow> addr \<Rightarrow> rt_thread" where
  "send_and_drop m addr = T_send addr m (\<lambda>_. T_drop addr T_done)"

definition many_counters :: "nat \<Rightarrow> (rt_prog \<times> type_id \<times> rt_val) list" where
  "many_counters n = replicate n (Return RUnit, 0, RCounter 0)"

definition round_robin_distribution :: rt_thread where
  "round_robin_distribution =
     t_spawn_all (many_counters 8) (\<lambda>addrs.
     t_fork_all (map (send_and_drop RIncrement) addrs) (\<lambda>handles.
     t_run (t_join_all handles T_done)))"

definition many_actors_few_threads :: rt_thread where
  "many_actors_few_threads =
     t_spawn_all (many_counters 100) (\<lambda>addrs.
     t_fork_all (map (send_and_drop RIncrement) addrs) (\<lambda>handles.
     t_run (t_join_all handles T_done)))"

definition actors_run_concurrently :: rt_thread where
  "actors_run_concurrently =
     t_spawn_all (replicate 4 (Return RUnit, 1, RSleeper)) (\<lambda>addrs.
     t_fork_all (map (send_and_drop (RSleep 100)) addrs) (\<lambda>handles.
     t_run (t_join_all handles T_done)))"

definition shutdown_stops_workers :: rt_thread where
  "shutdown_stops_workers =
     T_spawn (Return RUnit) 0 (RCounter 0) (\<lambda>addr.
     T_clone addr (\<lambda>addr_clone.
     T_fork
       (T_send addr_clone RIncrement (\<lambda>r. t_unwrap r (\<lambda>_. T_drop addr_clone T_done)))
       (\<lambda>handle. t_join handle
       (T_shutdown
       (T_drop addr
       (T_drop_rt T_done))))))"

definition custom_thread_count :: rt_thread where
  "custom_thread_count =
     T_num_workers (\<lambda>n. t_assert (n = 1)
     (T_spawn (Return RUnit) 0 (RCounter 0) (\<lambda>addr.
     T_fork
       (T_send addr RIncrement (\<lambda>r. t_unwrap r (\<lambda>_. T_drop addr T_done)))
       (\<lambda>handle. t_run (t_join handle T_done)))))"

definition zero_threads_panics :: bool where
  "zero_threads_panics =
     (case rt_with_threads 0 rt_env0 :: fault + (rt_val, rt_env) runtime of
        Inl (Panicking (PStr s)) \<Rightarrow> str_contains ''at least one worker thread'' s
      | _ \<Rightarrow> False)"

definition actor_started_and_stopped_called :: rt_thread where
  "actor_started_and_stopped_called =
     T_spawn rlife_started 2 RLifecycle (\<lambda>addr.
     T_fork
       (T_send addr RPing (\<lambda>r. t_unwrap r (\<lambda>_. T_drop addr T_done)))
       (\<lambda>handle. t_run (t_join handle
       (T_lock id (\<lambda>e. t_assert (fst (life_flags e)) T_done)))))"

primrec send_times :: "nat \<Rightarrow> addr \<Rightarrow> rt_thread \<Rightarrow> rt_thread" where
  "send_times 0 a k = k"
| "send_times (Suc n) a k = T_send a RIncrement (\<lambda>_. send_times n a k)"

text \<open>The loop that clones the address and starts a thread, which sends ten times.\<close>

primrec fork_senders :: "nat \<Rightarrow> addr \<Rightarrow> (nat list \<Rightarrow> rt_thread) \<Rightarrow> rt_thread" where
  "fork_senders 0 addr k = k []"
| "fork_senders (Suc n) addr k =
     T_clone addr (\<lambda>a.
     T_fork (send_times 10 a (T_drop a T_done)) (\<lambda>handle.
     fork_senders n addr (\<lambda>handles. k (handle # handles))))"

definition concurrent_sends_from_multiple_threads :: rt_thread where
  "concurrent_sends_from_multiple_threads =
     T_spawn (Return RUnit) 0 (RCounter 0) (\<lambda>addr.
     fork_senders 10 addr (\<lambda>handles.
     T_drop addr
     (t_run (t_join_all handles T_done))))"

primrec do_send_each :: "addr list \<Rightarrow> rt_thread \<Rightarrow> rt_thread" where
  "do_send_each [] k = k"
| "do_send_each (a # as) k = T_do_send a RWork (\<lambda>_. do_send_each as k)"

definition scheduler_fairness :: rt_thread where
  "scheduler_fairness =
     t_spawn_all (map (\<lambda>i. (Return RUnit, 3, RFair i)) [0, 1, 2]) (\<lambda>addrs.
     do_send_each (concat (map (replicate 3) addrs)) (
     t_fork_all (map (\<lambda>addr. T_drop addr T_done) addrs) (\<lambda>handles.
     t_run (t_join_all handles
     (T_lock id (\<lambda>e.
        t_assert (length (processed e) = 9)
        (t_assert (length (remdups (take 3 (processed e))) > 1) T_done)))))))"

definition context_spawn_child_actor :: rt_thread where
  "context_spawn_child_actor =
     T_spawn (Return RUnit) 4 RParent (\<lambda>parent.
     T_fork
       (T_send parent RSpawnChild (\<lambda>r. t_unwrap r (\<lambda>_.
        T_send parent RSpawnChild (\<lambda>r. t_unwrap r (\<lambda>_.
        T_drop parent T_done)))))
       (\<lambda>handle. t_join handle
       (T_drop_rt
       (T_lock id (\<lambda>e. t_assert (child_count e = 2) T_done)))))"

definition panic_isolation :: rt_thread where
  "panic_isolation =
     T_spawn (Return RUnit) 6 RPanicker (\<lambda>addr.
     T_fork (send_and_drop RTriggerPanic addr) (\<lambda>handle.
     t_run (t_join handle T_done)))"

end
