(* ===== verification/Test_Runtime_Props.thy ===== *)
theory Test_Runtime_Props
  imports Threads_End Test_Runtime
begin

text \<open>
  What the tests of \<^verbatim>\<open>src/runtime.rs\<close> come to: those that ignore the results of their sends pass
  the check of \<^verbatim>\<open>Threads_Safe\<close> and so fail under no schedule; those that rely on the sleep in
  \<^verbatim>\<open>run\<close> pass under some schedules and fail under others.
\<close>

section \<open>The check for the building blocks of the tests\<close>

lemma tame_spawn_all:
  "\<forall>x \<in> set xs. never_waits (fst x) \<and> never_panics (fst x) \<and> frugal (fst x) {#} \<Longrightarrow>
   (\<And>as. length as = length xs \<Longrightarrow> tame (k as) Up (Q + mset as)) \<Longrightarrow> tame (t_spawn_all xs k) Up Q"
proof (induction xs arbitrary: k Q)
  case (Cons x xs)
  have "tame (t_spawn_all xs (\<lambda>as. k (a # as))) Up (add_mset a Q)" for a
  proof (rule Cons.IH)
    fix as :: "addr list"
    assume "length as = length xs"
    then show "tame (k (a # as)) Up (add_mset a Q + mset as)" using Cons.prems(2)[of "a # as"] by simp
  qed (use Cons.prems(1) in simp)
  with Cons.prems(1) show ?case by simp
qed simp

lemma tame_fork_all:
  "list_all2 (\<lambda>c P. tame c Helper P) cs Ps \<Longrightarrow> (\<And>is. tame (k is) md Q) \<Longrightarrow>
   tame (t_fork_all cs k) md (Q + sum_list Ps)"
proof (induction cs Ps arbitrary: k rule: list_all2_induct)
  case (Cons c cs P Ps)
  have "tame (t_fork_all cs (\<lambda>is. k (i # is))) md (Q + sum_list Ps)" for i
    by (rule Cons.IH) (rule Cons.prems)
  with Cons.hyps(1) show ?case by (auto intro!: exI[of _ P])
qed simp

lemma tame_fork_map:
  assumes "\<And>a. tame (f a) Helper {#a#}" and "\<And>is. tame (k is) md {#}"
  shows "tame (t_fork_all (map f as) k) md (mset as)"
proof -
  have l: "list_all2 (\<lambda>c P. tame c Helper P) (map f as) (map (\<lambda>a. {#a#}) as)"
    using assms(1) by (simp add: list_all2_conv_all_nth)
  have "sum_list (map (\<lambda>a. {#a#}) as) = mset as" by (induction as) simp_all
  with tame_fork_all[OF l assms(2)] show ?thesis by simp
qed

lemma tame_join_all: "tame k md Q \<Longrightarrow> tame (t_join_all is k) md Q"
  by (induction "is") (simp_all add: t_join_def)

lemma tame_run [simp]: "tame (t_run k) md Q \<longleftrightarrow> md \<noteq> Helper \<and> tame k Down Q"
  by (auto simp: t_run_def)

lemma tame_send_and_drop [simp]: "tame (send_and_drop m a) md {#a#}"
  by (simp add: send_and_drop_def)

lemma tame_send_times: "tame k md Q \<Longrightarrow> tame (send_times n a k) md Q"
  by (induction n) simp_all

lemma tame_fork_senders:
  "(\<And>is. tame (k is) md Q) \<Longrightarrow> tame (fork_senders n a k) md Q"
proof (induction n arbitrary: k)
  case (Suc n)
  have "tame (fork_senders n a (\<lambda>hs. k (h # hs))) md Q" for h by (rule Suc.IH) (rule Suc.prems)
  moreover have "tame (send_times 10 b (T_drop b T_done)) Helper {#b#}" for b
    by (rule tame_send_times) simp
  ultimately show ?case by (auto intro!: exI[of _ "{#b#}" for b])
qed simp

section \<open>Tests that fail under no schedule\<close>

lemma steady_rt_classes: "steady (rt_classes oc)"
proof -
  have "never_waits (cls_handle (rt_classes oc a) v m) \<and> frugal (cls_handle (rt_classes oc a) v m) {#}" for a v m
    by (cases v; cases m)
      (auto simp: rt_classes_def split: option.split)
  moreover have "never_waits (cls_stopped (rt_classes oc a) v) \<and> never_panics (cls_stopped (rt_classes oc a) v)
      \<and> frugal (cls_stopped (rt_classes oc a) v) {#}" for a v
    by (simp add: rt_classes_def rlife_stopped_def)
  ultimately show ?thesis by (simp add: steady_def waitless_def)
qed

lemma tests_tame:
  "tame round_robin_distribution Up {#}" "tame many_actors_few_threads Up {#}"
  "tame actors_run_concurrently Up {#}" "tame concurrent_sends_from_multiple_threads Up {#}"
  "tame panic_isolation Up {#}"
proof -
  have "tame (t_spawn_all (many_counters n) (\<lambda>addrs. t_fork_all (map (send_and_drop RIncrement) addrs)
      (\<lambda>handles. t_run (t_join_all handles T_done)))) Up {#}" for n
    by (rule tame_spawn_all) (auto simp: many_counters_def intro!: tame_fork_map tame_join_all)
  then show "tame round_robin_distribution Up {#}" "tame many_actors_few_threads Up {#}"
    by (simp_all only: round_robin_distribution_def many_actors_few_threads_def)
  show "tame actors_run_concurrently Up {#}"
    unfolding actors_run_concurrently_def
    by (rule tame_spawn_all) (auto intro!: tame_fork_map tame_join_all)
  show "tame concurrent_sends_from_multiple_threads Up {#}"
    by (auto simp: concurrent_sends_from_multiple_threads_def intro!: tame_fork_senders tame_join_all)
  show "tame panic_isolation Up {#}"
    by (auto simp: panic_isolation_def t_join_def)
qed

section \<open>Tests that cannot get stuck\<close>

lemma prompt_spawn_all:
  "(\<And>as. prompt (k as) Up H) \<Longrightarrow> prompt (t_spawn_all xs k) Up H"
  by (induction xs arbitrary: k) simp_all

lemma prompt_fork_all:
  "\<forall>c \<in> set cs. prompt c Helper {} \<Longrightarrow> (\<And>is. prompt (k is) md (set is \<union> H)) \<Longrightarrow> prompt (t_fork_all cs k) md H"
proof (induction cs arbitrary: k H)
  case Nil
  from Nil.prems(2)[of "[]"] show ?case by simp
next
  case (Cons c cs)
  have "prompt (t_fork_all cs (\<lambda>is. k (i # is))) md (insert i H)" for i
    using Cons.prems(1) Cons.prems(2)[of "i # is" for "is"] by (intro Cons.IH) simp_all
  with Cons.prems(1) show ?case by simp
qed

lemma prompt_join_all: "set is \<subseteq> H \<Longrightarrow> prompt k Down H \<Longrightarrow> prompt (t_join_all is k) Down H"
  by (induction "is") (simp_all add: t_join_def)

lemma prompt_run [simp]: "prompt (t_run k) md H \<longleftrightarrow> prompt k Down H"
  by (simp add: t_run_def)

lemma prompt_send_and_drop [simp]: "prompt (send_and_drop m a) Helper H"
  by (simp add: send_and_drop_def)

lemma prompt_send_times: "prompt k Helper H \<Longrightarrow> prompt (send_times n a k) Helper H"
  by (induction n) simp_all

lemma prompt_fork_senders:
  "(\<And>is. prompt (k is) md (set is \<union> H)) \<Longrightarrow> prompt (fork_senders n a k) md H"
proof (induction n arbitrary: k H)
  case 0
  from "0.prems"[of "[]"] show ?case by simp
next
  case (Suc n)
  have "prompt (fork_senders n a (\<lambda>hs. k (h # hs))) md (insert h H)" for h
    using Suc.prems[of "h # hs" for hs] by (intro Suc.IH) simp
  moreover have "prompt (send_times 10 b (T_drop b T_done)) Helper {}" for b
    by (rule prompt_send_times) simp
  ultimately show ?case by simp
qed

lemma tests_prompt:
  "prompt round_robin_distribution Up {}" "prompt many_actors_few_threads Up {}"
  "prompt actors_run_concurrently Up {}" "prompt concurrent_sends_from_multiple_threads Up {}"
  "prompt panic_isolation Up {}"
  unfolding round_robin_distribution_def many_actors_few_threads_def actors_run_concurrently_def
    concurrent_sends_from_multiple_threads_def panic_isolation_def
  by (auto intro!: prompt_spawn_all prompt_fork_all prompt_fork_senders prompt_join_all simp: t_join_def)

section \<open>Schedules\<close>

text \<open>How a test ends on a schedule of its threads and workers.\<close>

definition outcome :: "bool \<Rightarrow> nat \<Rightarrow> rt_thread \<Rightarrow> action list \<Rightarrow> verdict option" where
  "outcome oc workers main acts =
     map_option (\<lambda>pl. pool_verdict (pool_run id (rt_classes oc) acts pl)) (rt_test workers main)"

text \<open>So many rounds in which every thread and every worker makes a step.\<close>

definition rounds :: "nat \<Rightarrow> nat \<Rightarrow> nat \<Rightarrow> action list" where
  "rounds n threads workers =
     concat (replicate n (map Act_thread [0..<threads] @ map Act_worker [0..<workers]))"

text \<open>The first spawn of a test, to the first worker, and the steps of \<open>k\<close> workers told to shut down.\<close>

definition first_spawn :: "action list" where
  "first_spawn = [Act_thread 0, Act_worker 0, Act_thread 0]"

definition told_steps :: "nat \<Rightarrow> action list" where
  "told_steps k = concat (map (\<lambda>n. replicate 5 (Act_worker n)) [0..<k])"

text \<open>The three spawns and nine messages of \<^verbatim>\<open>scheduler_fairness\<close>, up to its \<^verbatim>\<open>run\<close>.\<close>

definition fairness_begin :: "action list" where
  "fairness_begin =
     first_spawn @ [Act_thread 0] @ replicate 4 (Act_worker 0) @ replicate 2 (Act_thread 0)
       @ replicate 4 (Act_worker 0) @ replicate 13 (Act_thread 0)"

definition fairness_end :: "action list" where
  "fairness_end = Act_thread 0 # map Act_thread [1, 2, 3] @ replicate 4 (Act_thread 0)"

lemma schedules_pass:
  "outcome oc 2 rt_spawn_and_send_message (rounds 9 2 2) = Some Passed"
  "outcome oc 1 custom_thread_count (rounds 13 2 1) = Some Passed"
  "outcome oc 2 actor_started_and_stopped_called (rounds 10 2 2) = Some Passed"
  "outcome oc 1 scheduler_fairness
     (fairness_begin @ replicate 50 (Act_worker 0) @ Act_thread 0 # told_steps 1 @ fairness_end) = Some Passed"
  by (induction oc; code_simp)+

lemma schedules_fail:
  "outcome oc 2 rt_spawn_and_send_message
     (first_spawn @ [Act_thread 0, Act_thread 0] @ told_steps 2 @ [Act_thread 1, Act_thread 1, Act_thread 0, Act_thread 0]) =
     Some Failed"
  "outcome oc 1 custom_thread_count
     (Act_thread 0 # first_spawn @ [Act_thread 0, Act_thread 0] @ told_steps 1 @ [Act_thread 1, Act_thread 0, Act_thread 0]) =
     Some Failed"
  "outcome oc 2 actor_started_and_stopped_called
     (first_spawn @ [Act_thread 0, Act_thread 0] @ told_steps 2 @ [Act_thread 1, Act_thread 0, Act_thread 0]) =
     Some Failed"
  "outcome oc 1 scheduler_fairness (fairness_begin @ Act_thread 0 # concat (replicate 3 (told_steps 1)) @ fairness_end) =
     Some Failed"
  by (induction oc; code_simp)+

text \<open>The tests whose threads end before the runtime is stopped, a panic, and the sleeping actors.\<close>

lemma shutdown_stops_workers_passes: "outcome oc 2 shutdown_stops_workers (rounds 15 2 2) = Some Passed"
  by (induction oc; code_simp)

lemma context_spawn_child_actor_passes: "outcome oc 2 context_spawn_child_actor (rounds 17 2 2) = Some Passed"
  by (induction oc; code_simp)

lemma panic_isolation_passes: "outcome oc 1 panic_isolation (rounds 9 2 1) = Some Passed"
  by (induction oc; code_simp)

lemma actors_run_concurrently_passes: "outcome oc 4 actors_run_concurrently (rounds 28 5 4) = Some Passed"
  by (induction oc; code_simp)

lemma zero_threads_panics_passes: "zero_threads_panics"
  by code_simp

text \<open>
  Whatever the schedule, and whatever the order in which a map lists its actors: nothing has failed,
  and from there the test can still go on until all its threads and all workers have returned.
\<close>

definition robust :: "bool \<Rightarrow> nat \<Rightarrow> rt_thread \<Rightarrow> bool" where
  "robust oc workers main \<longleftrightarrow>
     (\<exists>pl. rt_test workers main = Some pl
        \<and> (\<forall>order acts. unfailing (pool_run order (rt_classes oc) acts pl)
             \<and> (\<exists>acts'. all_ended (pool_run order (rt_classes oc) (acts @ acts') pl))))"

lemma prompt_robust:
  assumes "tame main Up {#}" and "prompt main Up {}" and "0 < workers"
  shows "robust oc workers main"
  using tame_unfailing[OF _ steady_rt_classes assms(1), of workers rt_env0]
    prompt_can_finish[OF _ steady_rt_classes assms(1,2), of workers rt_env0] assms(3)
  by (auto simp: robust_def rt_test_def rt_with_threads_def)

section \<open>Properties\<close>


text \<open>
  C39: four of the tests rely on the 5 ms that \<^verbatim>\<open>run\<close> sleeps before it shuts down: each passes
  under one schedule and fails under another, in which the workers are told to shut down before
  the messages have been handled.
\<close>

definition flaky :: "bool \<Rightarrow> nat \<Rightarrow> rt_thread \<Rightarrow> bool" where
  "flaky oc workers main \<longleftrightarrow>
     (\<exists>acts. outcome oc workers main acts = Some Passed) \<and> (\<exists>acts. outcome oc workers main acts = Some Failed)"


end
