(* ===== verification/Supervised.thy ===== *)
theory Supervised
  imports Supervisor
begin

text \<open>
  A \<^verbatim>\<open>Supervisor\<close> that is a field of an actor, as it is meant to be used: the actor's handlers call
  \<^verbatim>\<open>start_all\<close> and \<^verbatim>\<open>handle_failure\<close> with their own context. What such a handler does is a \<open>prog\<close>, so
  the operations are written here as parts of callbacks, with what comes after them as an
  argument; the locale \<open>supervised\<close> shows that running them is running the operations of
  \<open>Supervisor\<close>, a panic in a factory included.
\<close>

section \<open>The operations inside a callback\<close>

text \<open>
  The argument \<open>call\<close> is what calling a factory does, \<open>wrap\<close> the actor that has the supervisor as
  a field: each assignment to a field of the supervisor is one to the actor's state.
\<close>

type_synonym ('f, 'v, 'e) factory_call = "'f \<Rightarrow> (actor_id \<Rightarrow> ('v, 'e) prog) \<Rightarrow> ('v, 'e) prog"

fun start_loop_in ::
  "('f, 'v, 'e) factory_call \<Rightarrow> ('f supervisor \<Rightarrow> 'v) \<Rightarrow> 'f list \<Rightarrow> 'f supervisor \<Rightarrow>
   ('f supervisor \<Rightarrow> ('v, 'e) prog) \<Rightarrow> ('v, 'e) prog" where
  "start_loop_in call wrap [] s k = k s"
| "start_loop_in call wrap (f # fs) s k =
     call f (\<lambda>i.
       let s' = s\<lparr>child_ids := child_ids s @ [i], restart_counts := hm_insert i 0 (restart_counts s)\<rparr>
       in SetSelf (wrap s') (start_loop_in call wrap fs s' k))"

definition start_all_in ::
  "('f, 'v, 'e) factory_call \<Rightarrow> ('f supervisor \<Rightarrow> 'v) \<Rightarrow> 'f supervisor \<Rightarrow>
   ('f supervisor \<Rightarrow> ('v, 'e) prog) \<Rightarrow> ('v, 'e) prog" where
  "start_all_in call wrap s k = start_loop_in call wrap (child_factories s) s k"

definition restart_one_in ::
  "('f, 'v, 'e) factory_call \<Rightarrow> ('f supervisor \<Rightarrow> 'v) \<Rightarrow> actor_id \<Rightarrow> usize \<Rightarrow> 'f supervisor \<Rightarrow>
   (actor_id list \<Rightarrow> 'f supervisor \<Rightarrow> ('v, 'e) prog) \<Rightarrow> ('v, 'e) prog" where
  "restart_one_in call wrap failed_id n s k =
     (case position failed_id (child_ids s) of
        None \<Rightarrow> k [] s
      | Some idx \<Rightarrow>
          (if idx < length (child_factories s) then
             call (child_factories s ! idx) (\<lambda>new_id.
               let s' = s\<lparr>child_ids := (child_ids s)[idx := new_id],
                          restart_counts := hm_insert new_id (n + 1) (hm_remove failed_id (restart_counts s))\<rparr>
               in SetSelf (wrap s') (k [new_id] s'))
           else Panic (PString ''index out of bounds'')))"

fun restart_loop_in ::
  "('f, 'v, 'e) factory_call \<Rightarrow> ('f supervisor \<Rightarrow> 'v) \<Rightarrow> nat \<Rightarrow> 'f list \<Rightarrow> actor_id list \<Rightarrow> 'f supervisor \<Rightarrow>
   (actor_id list \<Rightarrow> 'f supervisor \<Rightarrow> ('v, 'e) prog) \<Rightarrow> ('v, 'e) prog" where
  "restart_loop_in call wrap i [] new_ids s k = k new_ids s"
| "restart_loop_in call wrap i (f # fs) new_ids s k =
     call f (\<lambda>new_id.
       let s1 = (if i < length (child_ids s) then s\<lparr>child_ids := (child_ids s)[i := new_id]\<rparr>
                 else s\<lparr>child_ids := child_ids s @ [new_id]\<rparr>);
           s' = s1\<lparr>restart_counts := hm_insert new_id 0 (restart_counts s1)\<rparr>
       in SetSelf (wrap s') (restart_loop_in call wrap (Suc i) fs (new_ids @ [new_id]) s' k))"

definition restart_all_in ::
  "('f, 'v, 'e) factory_call \<Rightarrow> ('f supervisor \<Rightarrow> 'v) \<Rightarrow> 'f supervisor \<Rightarrow>
   (actor_id list \<Rightarrow> 'f supervisor \<Rightarrow> ('v, 'e) prog) \<Rightarrow> ('v, 'e) prog" where
  "restart_all_in call wrap s k =
     restart_loop_in call wrap 0 (child_factories s) [] s (\<lambda>new_ids s1.
       let s' = s1\<lparr>restart_counts := fold (\<lambda>i. hm_insert i 0) new_ids hm_new\<rparr>
       in SetSelf (wrap s') (k new_ids s'))"

definition handle_failure_in ::
  "('f, 'v, 'e) factory_call \<Rightarrow> ('f supervisor \<Rightarrow> 'v) \<Rightarrow> actor_id \<Rightarrow> 'f supervisor \<Rightarrow>
   (actor_id list \<Rightarrow> 'f supervisor \<Rightarrow> ('v, 'e) prog) \<Rightarrow> ('v, 'e) prog" where
  "handle_failure_in call wrap failed_id s k =
     (let n = restart_count failed_id s in
      if n \<ge> max_restarts s then
        (let s' = s\<lparr>child_ids := filter (\<lambda>i. i \<noteq> failed_id) (child_ids s),
                    restart_counts := hm_remove failed_id (restart_counts s)\<rparr>
         in SetSelf (wrap s') (k [] s'))
      else
        (case strategy s of
           OneForOne \<Rightarrow> restart_one_in call wrap failed_id n s k
         | AllForOne \<Rightarrow> restart_all_in call wrap s k))"

section \<open>They are the operations of the supervisor\<close>

text \<open>The same supervisor with other factories.\<close>

definition refit :: "'g list \<Rightarrow> 'f supervisor \<Rightarrow> 'g supervisor" where
  "refit fs s =
     \<lparr>strategy = strategy s, max_restarts = max_restarts s, child_factories = fs, child_ids = child_ids s,
      restart_counts = restart_counts s\<rparr>"

lemma refit_simps [simp]:
  "strategy (refit fs s) = strategy s" "max_restarts (refit fs s) = max_restarts s"
  "child_factories (refit fs s) = fs" "child_ids (refit fs s) = child_ids s"
  "restart_counts (refit fs s) = restart_counts s" "restart_count i (refit fs s) = restart_count i s"
  "refit fs (refit gs s) = refit fs s"
  by (simp_all add: refit_def restart_count_def)

lemma refit_same: "child_factories s = fs \<Longrightarrow> refit fs s = s"
  by (auto simp: refit_def)

lemma refit_update:
  "(refit fs s)\<lparr>child_ids := is\<rparr> = refit fs (s\<lparr>child_ids := is\<rparr>)"
  "(refit fs s)\<lparr>restart_counts := m\<rparr> = refit fs (s\<lparr>restart_counts := m\<rparr>)"
  "(refit fs s)\<lparr>child_ids := is, restart_counts := m\<rparr> = refit fs (s\<lparr>child_ids := is, restart_counts := m\<rparr>)"
  by (simp_all add: refit_def)

lemma refit_same_update:
  "child_factories s = fs \<Longrightarrow> refit fs (s\<lparr>child_ids := is, restart_counts := m\<rparr>) = s\<lparr>child_ids := is, restart_counts := m\<rparr>"
  by (auto simp: refit_def)

text \<open>
  \<open>carries\<close>: running the callback \<open>p\<close> of the actor comes to running the operation with result
  \<open>(r, t, cw)\<close> and then, if it returned, \<open>cont\<close>.
\<close>

definition carries ::
  "('f supervisor \<Rightarrow> 'v) \<Rightarrow> 'f list \<Rightarrow> (fault + 'a) \<times> 'g supervisor \<times> actor_context \<times> ('v, 'e) world \<Rightarrow>
   ('a \<Rightarrow> 'f supervisor \<Rightarrow> ('v, 'e) prog) \<Rightarrow>
   (fault + 'v) \<times> 'v \<times> actor_context \<times> ('v, 'e) world \<Rightarrow> bool" where
  "carries wrap fs res cont got \<longleftrightarrow>
     (case res of
        (Inl f, t, ctx, w) \<Rightarrow> got = (Inl f, wrap (refit fs t), ctx, w)
      | (Inr r, t, ctx, w) \<Rightarrow> got = exec (cont r (refit fs t)) (wrap (refit fs t)) ctx w)"

locale supervised =
  fixes call :: "('f, 'v, 'e) factory_call"
    and factory :: "'f \<Rightarrow> (actor_context \<times> ('v, 'e) world) child_factory"
    and wrap :: "'f supervisor \<Rightarrow> 'v"
  assumes exec_call: "exec (call f k) self ctx w =
    (case factory f (ctx, w) of
       (Inl e, ctx', w') \<Rightarrow> (Inl e, self, ctx', w')
     | (Inr i, ctx', w') \<Rightarrow> exec (k i) self ctx' w')"
begin

lemma start_loop_carries:
  "carries wrap gs (start_loop (map factory fs) (refit hs s) (ctx, w)) (\<lambda>_. k)
     (exec (start_loop_in call wrap fs (refit gs s) (k :: 'f supervisor \<Rightarrow> ('v, 'e) prog)) (wrap (refit gs s)) ctx w)"
proof (induction fs arbitrary: s ctx w)
  case Nil
  then show ?case by (simp add: carries_def)
next
  case (Cons f fs)
  obtain r ctx' w' where f: "factory f (ctx, w) = (r, ctx', w')" by (metis prod_cases3)
  show ?case
  proof (cases r)
    case (Inl e)
    with f show ?thesis by (simp add: carries_def exec_call)
  next
    case (Inr i)
    with f Cons.IH[of "s\<lparr>child_ids := child_ids s @ [i], restart_counts := hm_insert i 0 (restart_counts s)\<rparr>" ctx' w']
    show ?thesis by (simp add: exec_call Let_def refit_update)
  qed
qed

lemma start_all_carries:
  assumes "child_factories s = fs"
  shows "carries wrap fs (start_all (refit (map factory fs) s) (ctx, w)) (\<lambda>_. k)
     (exec (start_all_in call wrap s k) (wrap s) ctx w)"
  using start_loop_carries[of fs fs "map factory fs" s ctx w k] refit_same[OF assms] assms
  by (simp add: start_all_def start_all_in_def)

lemma restart_one_carries:
  assumes "child_factories s = fs"
  shows "carries wrap fs (restart_one i n (refit (map factory fs) s) (ctx, w)) k
     (exec (restart_one_in call wrap i n s k) (wrap s) ctx w)"
proof (cases "position i (child_ids s)")
  case None
  have e: "refit fs s = s" by (rule refit_same[OF assms])
  show ?thesis unfolding restart_one_def restart_one_in_def using None by (simp add: carries_def e)
next
  case (Some idx)
  show ?thesis
  proof (cases "idx < length fs")
    case False
    have e: "refit fs s = s" by (rule refit_same[OF assms])
    from False Some assms show ?thesis by (simp add: carries_def restart_one_def restart_one_in_def e)
  next
    case True
    obtain r ctx' w' where f: "factory (fs ! idx) (ctx, w) = (r, ctx', w')" by (metis prod_cases3)
    have e: "refit fs s = s" by (rule refit_same[OF assms])
    from f Some True assms show ?thesis
      by (cases r) (simp_all add: carries_def restart_one_def restart_one_in_def exec_call Let_def e
          refit_update refit_same_update)
  qed
qed

lemma restart_loop_carries:
  "carries wrap gs (restart_loop n (map factory fs) acc (refit hs s) (ctx, w)) k
     (exec (restart_loop_in call wrap n fs acc (refit gs s) k) (wrap (refit gs s)) ctx w)"
proof (induction fs arbitrary: n acc s ctx w)
  case Nil
  then show ?case by (simp add: carries_def)
next
  case (Cons f fs)
  obtain r ctx' w' where f: "factory f (ctx, w) = (r, ctx', w')" by (metis prod_cases3)
  show ?case
  proof (cases r)
    case (Inl e)
    with f show ?thesis by (simp add: carries_def exec_call)
  next
    case (Inr i)
    define s1 where "s1 = s\<lparr>child_ids := (if n < length (child_ids s) then (child_ids s)[n := i] else child_ids s @ [i]),
        restart_counts := hm_insert i 0 (restart_counts s)\<rparr>"
    from f Inr Cons.IH[of "Suc n" "acc @ [i]" s1 ctx' w'] show ?thesis
      by (auto simp: exec_call Let_def refit_update s1_def)
  qed
qed

lemma restart_all_carries:
  assumes "child_factories s = fs"
  shows "carries wrap fs (restart_all (refit (map factory fs) s) (ctx, w)) k
     (exec (restart_all_in call wrap s k) (wrap s) ctx w)"
proof -
  obtain r t ctx' w' where l: "restart_loop 0 (map factory fs) [] (refit (map factory fs) s) (ctx, w) = (r, t, ctx', w')"
    by (metis prod_cases4)
  note c = restart_loop_carries[of fs 0 fs "[]" "map factory fs" s ctx w, unfolded l]
  show ?thesis
    using c[of "\<lambda>new_ids s1.
       let s' = s1\<lparr>restart_counts := fold (\<lambda>i. hm_insert i 0) new_ids hm_new\<rparr>
       in SetSelf (wrap s') (k new_ids s')"] refit_same[OF assms] assms
    by (cases r) (simp_all add: l restart_all_def restart_all_in_def carries_def Let_def refit_update)
qed

theorem handle_failure_carries:
  assumes "child_factories s = fs"
  shows "carries wrap fs (handle_failure i (refit (map factory fs) s) (ctx, w)) k
     (exec (handle_failure_in call wrap i s k) (wrap s) ctx w)"
proof (cases "restart_count i s \<ge> max_restarts s")
  case True
  from True assms show ?thesis
    by (simp add: handle_failure_def handle_failure_in_def carries_def Let_def refit_update refit_same_update)
next
  case False
  with restart_one_carries[OF assms] restart_all_carries[OF assms] show ?thesis
    by (cases "strategy s") (simp_all add: handle_failure_def handle_failure_in_def Let_def)
qed

end

section \<open>Factories that spawn\<close>

text \<open>
  \<^verbatim>\<open>|ctx| ctx.spawn(child).id()\<close>, with any \<^verbatim>\<open>started\<close>, as a callback and as a factory; and
  \<^verbatim>\<open>|_ctx| ActorId(n)\<close>.
\<close>

datatype ('v, 'e) factory_code =
    Spawns type_id 'v "('v, 'e) prog"
  | Gives actor_id

fun call_factory :: "('v, 'e) factory_code \<Rightarrow> (actor_id \<Rightarrow> ('v, 'e) prog) \<Rightarrow> ('v, 'e) prog" where
  "call_factory (Spawns a v started) k = SpawnChild a v started (\<lambda>adr. DropAddr adr (k (addr_id adr)))"
| "call_factory (Gives i) k = k i"

fun run_factory :: "('v, 'e) factory_code \<Rightarrow> (actor_context \<times> ('v, 'e) world) child_factory" where
  "run_factory (Spawns a v started) cw =
     (case context_spawn (exec started) a v (fst cw) (snd cw) of
        (Inl f, w') \<Rightarrow> (Inl f, (fst cw, w'))
      | (Inr adr, w') \<Rightarrow> (Inr (addr_id adr), (fst cw, addr_drop adr w')))"
| "run_factory (Gives i) cw = (Inr i, cw)"

lemma run_factory_spawn: "run_factory (Spawns a v (Return r)) = spawn_factory (a, v)"
  by (rule ext) (simp add: spawn_factory_def fun_eq_iff context_spawn_def split: option.split)

interpretation in_actor: supervised "\<lambda>f. call_factory (decode f)" "\<lambda>f. run_factory (decode f)" wrap
  for decode :: "'f \<Rightarrow> ('v, 'e) factory_code" and wrap :: "'f supervisor \<Rightarrow> 'v"
proof (unfold_locales, goal_cases)
  case (1 f k self ctx w)
  show ?case by (cases "decode f") (auto split: prod.split sum.split)
qed

section \<open>Property\<close>


end
