(* ===== verification/Test_Supervisor.thy ===== *)
theory Test_Supervisor
  imports Supervised Threads
begin

text \<open>
  The unit tests of \<^verbatim>\<open>src/supervisor.rs\<close>: supervisors inside actors of a \<^verbatim>\<open>Runtime\<close> with one worker.
\<close>

section \<open>The actors of the tests\<close>

text \<open>
  A factory of the tests spawns a \<^verbatim>\<open>Child\<close> with a number, spawns a \<^verbatim>\<open>TestChild\<close>, or only gives
  an id; \<open>sv_decode\<close> tells what its closure does. A \<^verbatim>\<open>Child\<close> logs its number when it is started.
\<close>

datatype sv_factory = F_child usize | F_test_child | F_id actor_id

datatype sv_val =
    SSup "sv_factory supervisor" | SChild usize | STestChild
  | SStart | SFail actor_id | SGetChildren
  | SIds "actor_id list" | SUnit

type_synonym sv_prog = "(sv_val, usize list) prog"

type_synonym sv_thread = "(sv_val, usize list) thread"

definition child_started :: "usize \<Rightarrow> sv_prog" where
  "child_started i = Shared (\<lambda>l. l @ [i]) (\<lambda>_. Return SUnit)"

fun sv_decode :: "sv_factory \<Rightarrow> (sv_val, usize list) factory_code" where
  "sv_decode (F_child i) = Spawns 1 (SChild i) (child_started i)"
| "sv_decode F_test_child = Spawns 4 STestChild (Return SUnit)"
| "sv_decode (F_id i) = Gives i"

definition sv_call :: "sv_factory \<Rightarrow> (actor_id \<Rightarrow> sv_prog) \<Rightarrow> sv_prog" where
  "sv_call f = call_factory (sv_decode f)"

fun sup_actor_handle :: "sv_val \<Rightarrow> sv_val \<Rightarrow> sv_prog" where
  "sup_actor_handle (SSup s) SStart = start_all_in sv_call SSup s (\<lambda>_. Return SUnit)"
| "sup_actor_handle (SSup s) (SFail i) = handle_failure_in sv_call SSup i s (\<lambda>ids _. Return (SIds ids))"
| "sup_actor_handle _ _ = Panic POther"

fun start_children_handle :: "sv_val \<Rightarrow> sv_val \<Rightarrow> sv_prog" where
  "start_children_handle (SSup s) SStart = start_all_in sv_call SSup s (\<lambda>s'. Return (SIds (children s')))"
| "start_children_handle _ _ = Panic POther"

fun test_sup_handle :: "sv_val \<Rightarrow> sv_val \<Rightarrow> sv_prog" where
  "test_sup_handle (SSup s) SStart = start_all_in sv_call SSup s (\<lambda>_. Return SUnit)"
| "test_sup_handle (SSup s) (SFail i) = handle_failure_in sv_call SSup i s (\<lambda>ids _. Return (SIds ids))"
| "test_sup_handle (SSup s) SGetChildren = Return (SIds (children s))"
| "test_sup_handle _ _ = Panic POther"

definition sv_classes :: "(sv_val, usize list) classes" where
  "sv_classes a =
     \<lparr>cls_handle =
        (if a = 0 then sup_actor_handle else if a = 2 then start_children_handle
         else if a = 3 then test_sup_handle else (\<lambda>_ _. Panic POther)),
      cls_stopped = (\<lambda>_. Return SUnit)\<rparr>"

section \<open>The tests\<close>

fun t_ids :: "sv_val \<Rightarrow> (actor_id list \<Rightarrow> sv_thread) \<Rightarrow> sv_thread" where
  "t_ids (SIds ids) k = k ids"
| "t_ids v k = T_fail POther"

text \<open>\<^verbatim>\<open>addr.send(m).unwrap()\<close>, and the first of a vector of ids.\<close>

definition t_ask :: "addr \<Rightarrow> sv_val \<Rightarrow> (sv_val \<Rightarrow> sv_thread) \<Rightarrow> sv_thread" where
  "t_ask a m k = T_send a m (\<lambda>r. t_unwrap r k)"

fun t_first :: "actor_id list \<Rightarrow> (actor_id \<Rightarrow> sv_thread) \<Rightarrow> sv_thread" where
  "t_first [] k = T_fail (PString ''index out of bounds'')"
| "t_first (i # is) k = k i"

definition one_for_one_restarts_failed_child :: sv_thread where
  "one_for_one_restarts_failed_child =
     T_spawn (Return SUnit) 0 (SSup (register_child (F_child 42) (sup_new OneForOne 3))) (\<lambda>sup_addr.
     T_clone sup_addr (\<lambda>sup_clone.
     T_fork
       (t_ask sup_clone SStart (\<lambda>_. T_drop sup_clone T_done))
       (\<lambda>handle. t_join handle
       (T_lock id (\<lambda>spawned. t_assert (length spawned = 1)
       (T_drop sup_addr
       (T_drop_rt T_done)))))))"

definition supervisor_registers_and_starts_children :: sv_thread where
  "supervisor_registers_and_starts_children =
     T_spawn (Return SUnit) 2
       (SSup (register_child (F_id (ActorId 200)) (register_child (F_id (ActorId 100)) (sup_new OneForOne 3))))
       (\<lambda>addr.
     t_ask addr SStart (\<lambda>v. t_ids v (\<lambda>ids.
     t_assert (length ids = 2)
     (T_drop addr
     (T_drop_rt T_done)))))"

definition one_for_one_restart_within_limit :: sv_thread where
  "one_for_one_restart_within_limit =
     T_spawn (Return SUnit) 3 (SSup (register_child F_test_child (sup_new OneForOne 3))) (\<lambda>addr.
     t_ask addr SStart (\<lambda>_.
     t_ask addr SGetChildren (\<lambda>v. t_ids v (\<lambda>ids.
     t_assert (length ids = 1) (t_first ids (\<lambda>child_id.
     t_ask addr (SFail child_id) (\<lambda>v. t_ids v (\<lambda>restarted.
     t_assert (length restarted = 1) (t_first restarted (\<lambda>i.
     t_assert (i \<noteq> child_id)
     (T_drop addr
     (T_drop_rt T_done))))))))))))"

definition one_for_one_stops_after_max_restarts :: sv_thread where
  "one_for_one_stops_after_max_restarts =
     T_spawn (Return SUnit) 3 (SSup (register_child F_test_child (sup_new OneForOne 2))) (\<lambda>addr.
     t_ask addr SStart (\<lambda>_.
     t_ask addr SGetChildren (\<lambda>v. t_ids v (\<lambda>ids. t_first ids (\<lambda>child_id.
     t_ask addr (SFail child_id) (\<lambda>v. t_ids v (\<lambda>result.
     t_assert (length result = 1) (t_first result (\<lambda>new_id.
     t_ask addr (SFail new_id) (\<lambda>v. t_ids v (\<lambda>result.
     t_assert (length result = 1) (t_first result (\<lambda>i.
     t_ask addr (SFail i) (\<lambda>v. t_ids v (\<lambda>result.
     t_assert (result = [])
     (T_drop addr
     (T_drop_rt T_done)))))))))))))))))"

definition sv_outcome :: "sv_thread \<Rightarrow> action list \<Rightarrow> verdict option" where
  "sv_outcome main acts =
     (case rt_with_threads 1 [] of
        Inl _ \<Rightarrow> None
      | Inr rt \<Rightarrow> Some (pool_verdict (pool_run id sv_classes acts (pool_start rt main))))"

definition sv_rounds :: "nat \<Rightarrow> action list" where
  "sv_rounds n = concat (replicate n [Act_thread 0, Act_thread 1, Act_worker 0])"

lemma one_for_one_restarts_failed_child_passes:
  "sv_outcome one_for_one_restarts_failed_child (sv_rounds 19) = Some Passed"
  by code_simp

lemma supervisor_registers_and_starts_children_passes:
  "sv_outcome supervisor_registers_and_starts_children (sv_rounds 12) = Some Passed"
  by code_simp

lemma one_for_one_restart_within_limit_passes:
  "sv_outcome one_for_one_restart_within_limit (sv_rounds 20) = Some Passed"
  by code_simp

lemma one_for_one_stops_after_max_restarts_passes:
  "sv_outcome one_for_one_stops_after_max_restarts (sv_rounds 28) = Some Passed"
  by code_simp

end
